(* ===== verification/Prelude.thy ===== *)
theory Prelude
  imports "HOL-Library.Word" "HOL-Library.Sublist" "HOL-Library.Multiset"
begin

text \<open>
  Shared vocabulary of the development: bytes and PCM samples as machine words, the
  little-endian memory image of a sample, the parts of the C++ standard library that the
  modelled code uses on strings and integers, the environment, and the lemma collections
  the component theories draw on.
\<close>

unbundle bit_operations_syntax

named_theorems op_defs \<open>definitions of straight-line operations, unfolded by simp\<close>
named_theorems frame_simps \<open>fields that an operation leaves unchanged\<close>
named_theorems wf_intros \<open>preservation of well-formedness by operations\<close>

section \<open>Machine data\<close>

type_synonym byte = "8 word"
type_synonym sample = "16 word"

text \<open>The memory image of an \<^verbatim>\<open>int16_t\<close> on the little-endian target.\<close>

definition le16_bytes :: "sample \<Rightarrow> byte list" where
  "le16_bytes s = [ucast s, ucast (drop_bit 8 s)]"

definition le16_of :: "byte \<Rightarrow> byte \<Rightarrow> sample" where
  "le16_of lo hi = ucast lo OR push_bit 8 (ucast hi)"

definition pcm_bytes :: "sample list \<Rightarrow> byte list" where
  "pcm_bytes xs = concat (map le16_bytes xs)"

text \<open>Reading a byte buffer as samples: a trailing odd byte is not a sample.\<close>

fun pcm_samples :: "byte list \<Rightarrow> sample list" where
  "pcm_samples (lo # hi # bs) = le16_of lo hi # pcm_samples bs"
| "pcm_samples _ = []"

lemma length_le16_bytes [simp]: "length (le16_bytes s) = 2"
  by (simp add: le16_bytes_def)

lemma le16_of_bytes [simp]: "le16_of (ucast s) (ucast (drop_bit 8 s)) = s"
  unfolding le16_of_def
  by (rule bit_word_eqI) (auto simp: bit_simps)

lemma byte_bit_ge [simp]: "\<not> bit (b :: byte) (8 + n)"
  using bit_imp_le_length [of b "8 + n"] by auto

lemma le16_bytes_of [simp]: "le16_bytes (le16_of lo hi) = [lo, hi]"
  unfolding le16_of_def le16_bytes_def
  by (auto intro!: bit_word_eqI simp: bit_simps)

lemma pcm_bytes_simps [simp]:
  "pcm_bytes [] = []"
  "pcm_bytes (x # xs) = le16_bytes x @ pcm_bytes xs"
  by (simp_all add: pcm_bytes_def)

lemma pcm_bytes_append [simp]: "pcm_bytes (xs @ ys) = pcm_bytes xs @ pcm_bytes ys"
  by (simp add: pcm_bytes_def)

lemma length_pcm_bytes [simp]: "length (pcm_bytes xs) = 2 * length xs"
  by (induction xs) auto

lemma length_pcm_samples [simp]: "length (pcm_samples bs) = length bs div 2"
  by (induction bs rule: pcm_samples.induct) auto

lemma pcm_samples_bytes [simp]: "pcm_samples (pcm_bytes xs) = xs"
  by (induction xs) (auto simp: le16_bytes_def)

lemma pcm_bytes_samples: "even (length bs) \<Longrightarrow> pcm_bytes (pcm_samples bs) = bs"
  by (induction bs rule: pcm_samples.induct) auto

lemma pcm_samples_take: "pcm_samples (take (2 * n) bs) = take n (pcm_samples bs)"
proof (induction bs arbitrary: n rule: pcm_samples.induct)
  case (1 lo hi bs)
  then show ?case by (cases n) auto
qed (auto simp: take_Cons split: nat.splits)

section \<open>Chunks, suffixes and bounded buffers\<close>

text \<open>The complete \<open>n\<close>-element chunks of a list, and what is left over.\<close>

fun chunks :: "nat \<Rightarrow> nat \<Rightarrow> 'a list \<Rightarrow> 'a list list" where
  "chunks n 0 xs = []"
| "chunks n (Suc k) xs = take n xs # chunks n k (drop n xs)"

lemma length_chunks [simp]: "length (chunks n k xs) = k"
  by (induction n k xs rule: chunks.induct) auto

lemma concat_chunks: "concat (chunks n k xs) = take (n * k) xs"
  by (induction n k xs rule: chunks.induct) (auto simp: take_add)

lemma chunks_length_elem: "n * k \<le> length xs \<Longrightarrow> f \<in> set (chunks n k xs) \<Longrightarrow> length f = n"
  by (induction n k xs rule: chunks.induct) auto

lemma chunks_snoc: "chunks n (Suc k) xs = chunks n k xs @ [take n (drop (n * k) xs)]"
  by (induction n k xs rule: chunks.induct) (auto simp: add.commute)

text \<open>The last \<open>n\<close> elements of a list: what a buffer of capacity \<open>n\<close> that evicts its oldest
  element retains.\<close>

definition lastn :: "nat \<Rightarrow> 'a list \<Rightarrow> 'a list" where
  "lastn n xs = drop (length xs - n) xs"

lemma length_lastn [simp]: "length (lastn n xs) = min n (length xs)"
  by (simp add: lastn_def)

lemma lastn_short [simp]: "length xs \<le> n \<Longrightarrow> lastn n xs = xs"
  by (simp add: lastn_def)

lemma set_lastn: "set (lastn n xs) \<subseteq> set xs"
  by (simp add: lastn_def set_drop_subset)

lemma suffix_lastn [simp]: "suffix (lastn n xs) xs"
  by (simp add: lastn_def suffix_drop)

lemma lastn_push:
  assumes "length xs \<le> n" and "0 < n"
  shows "(if n \<le> length xs then tl xs else xs) @ [x] = lastn n (xs @ [x])"
  using assms by (cases xs) (auto simp: lastn_def)

lemma lastn_lastn_append [simp]: "lastn n (lastn n xs @ ys) = lastn n (xs @ ys)"
  by (cases "length xs \<le> n") (auto simp: lastn_def add.commute)

section \<open>Replacing one element\<close>

text \<open>What replacing the state of one thread does to a sum and to a bag over all threads.\<close>

lemma sum_list_update:
  fixes f :: "'a \<Rightarrow> nat"
  assumes "i < length xs"
  shows "sum_list (map f (xs[i := v])) + f (xs ! i) = sum_list (map f xs) + f v"
proof -
  have "xs = take i xs @ xs ! i # drop (Suc i) xs" using assms by (rule id_take_nth_drop)
  then have "sum_list (map f xs) = sum_list (map f (take i xs)) + f (xs ! i) + sum_list (map f (drop (Suc i) xs))"
    by (metis add.assoc list.simps(9) map_append sum_list.Cons sum_list.append)
  with assms show ?thesis by (simp add: upd_conv_take_nth_drop)
qed

lemma mset_concat_update:
  assumes "i < length xs"
  shows "mset (concat (map f (xs[i := v]))) + mset (f (xs ! i)) = mset (concat (map f xs)) + mset (f v)"
proof -
  have "xs = take i xs @ xs ! i # drop (Suc i) xs" using assms by (rule id_take_nth_drop)
  then have "concat (map f xs) = concat (map f (take i xs)) @ f (xs ! i) @ concat (map f (drop (Suc i) xs))"
    by (metis concat.simps(2) concat_append list.simps(9) map_append)
  with assms show ?thesis by (simp add: upd_conv_take_nth_drop)
qed

end
