(* ===== verification/Ifaces.thy ===== *)
theory Ifaces
  imports Prelude
begin

text \<open>
  The interfaces between the components, as locales: a machine whose operations keep an
  invariant, a first-in first-out channel, a retry loop with a budget, and a fixed-width
  codec. Each is interpreted on the model's own definitions in the theory that provides
  the operations; the lemmas proved here once are what the components' properties use.
\<close>

section \<open>Machines that keep an invariant\<close>

locale inv_machine =
  fixes step :: "'e \<Rightarrow> 's \<Rightarrow> 's"
    and ok :: "'e \<Rightarrow> bool"
    and inv :: "'s \<Rightarrow> bool"
  assumes step_inv: "ok e \<Longrightarrow> inv s \<Longrightarrow> inv (step e s)"
begin

lemma run_inv: "list_all ok es \<Longrightarrow> inv s \<Longrightarrow> inv (fold step es s)"
  by (induction es arbitrary: s) (auto intro: step_inv)

lemma run_prefix_inv: "list_all ok (es @ fs) \<Longrightarrow> inv s \<Longrightarrow> inv (fold step es s)"
  by (simp add: run_inv)

end

text \<open>A machine that also leaves some observation of its state alone.\<close>

locale observed_machine = inv_machine +
  fixes obs :: "'s \<Rightarrow> 'o"
  assumes step_obs: "ok e \<Longrightarrow> inv s \<Longrightarrow> obs (step e s) = obs s"
begin

lemma run_obs: "list_all ok es \<Longrightarrow> inv s \<Longrightarrow> obs (fold step es s) = obs s"
  by (induction es arbitrary: s) (auto simp: step_obs step_inv)

end

section \<open>Simulations\<close>

text \<open>Runs of a component that may fail, of a specification that does not, and the schedules the
  specification admits.\<close>

fun run_steps :: "('e \<Rightarrow> 'c \<Rightarrow> ('c \<times> 'o list) option) \<Rightarrow> 'e list \<Rightarrow> 'c \<Rightarrow> ('c \<times> 'o list) option" where
  "run_steps step [] c = Some (c, [])"
| "run_steps step (e # es) c =
     (case step e c of None \<Rightarrow> None
      | Some (c1, out1) \<Rightarrow> map_option (\<lambda>(c2, out2). (c2, out1 @ out2)) (run_steps step es c1))"

lemma run_steps_append:
  "run_steps step (es @ fs) c = Option.bind (run_steps step es c)
     (\<lambda>(c1, o1). map_option (\<lambda>(c2, o2). (c2, o1 @ o2)) (run_steps step fs c1))"
proof (induction es arbitrary: c)
  case Nil
  show ?case by (cases "run_steps step fs c") auto
next
  case (Cons e es)
  then show ?case
    by (cases "step e c") (auto simp: option.map_comp comp_def split_beta split: option.splits bind_splits)
qed

fun run_spec :: "('e \<Rightarrow> 'a \<Rightarrow> 'a \<times> 'o list) \<Rightarrow> 'e list \<Rightarrow> 'a \<Rightarrow> 'a \<times> 'o list" where
  "run_spec spec [] a = (a, [])"
| "run_spec spec (e # es) a =
     (let (a1, out1) = spec e a; (a2, out2) = run_spec spec es a1 in (a2, out1 @ out2))"

fun run_admits :: "('e \<Rightarrow> 'a \<Rightarrow> 'a \<times> 'o list) \<Rightarrow> ('e \<Rightarrow> 'a \<Rightarrow> bool) \<Rightarrow> 'e list \<Rightarrow> 'a \<Rightarrow> bool" where
  "run_admits spec ok [] a = True"
| "run_admits spec ok (e # es) a = (ok e a \<and> run_admits spec ok es (fst (spec e a)))"

text \<open>A component that makes, in every state of its invariant, the step and the output that the
  specification makes on its abstraction, does so over whole runs.\<close>

locale simulation =
  fixes step :: "'e \<Rightarrow> 'c \<Rightarrow> ('c \<times> 'o list) option"
    and spec :: "'e \<Rightarrow> 'a \<Rightarrow> 'a \<times> 'o list"
    and ok :: "'e \<Rightarrow> 'a \<Rightarrow> bool"
    and abstraction :: "'c \<Rightarrow> 'a"
    and inv :: "'c \<Rightarrow> bool"
  assumes step_sim: "inv c \<Longrightarrow> ok e (abstraction c) \<Longrightarrow>
    \<exists>c' out. step e c = Some (c', out) \<and> inv c' \<and> spec e (abstraction c) = (abstraction c', out)"
begin

lemma run_sim:
  "inv c \<Longrightarrow> run_admits spec ok es (abstraction c) \<Longrightarrow>
   \<exists>c' out. run_steps step es c = Some (c', out) \<and> inv c' \<and> run_spec spec es (abstraction c) = (abstraction c', out)"
proof (induction es arbitrary: c)
  case (Cons e es)
  from Cons.prems have "ok e (abstraction c)" by simp
  from step_sim [OF Cons.prems(1) this] obtain c1 out1
    where s: "step e c = Some (c1, out1)" "inv c1" "spec e (abstraction c) = (abstraction c1, out1)" by blast
  with Cons.prems have "run_admits spec ok es (abstraction c1)" by simp
  from Cons.IH [OF s(2) this] s show ?case by force
qed simp

end

section \<open>First-in first-out channels\<close>

text \<open>
  \<open>items\<close> abstracts the channel to the sequence it holds. A client sees puts and gets;
  \<open>exchange\<close> runs a schedule of them (\<open>Some x\<close> puts, \<open>None\<close> gets) and collects what the
  gets returned.
\<close>

locale fifo_channel =
  fixes put :: "'a \<Rightarrow> 's \<Rightarrow> 's"
    and get :: "'s \<Rightarrow> ('a \<times> 's) option"
    and items :: "'s \<Rightarrow> 'a list"
  assumes items_put: "items (put x s) = items s @ [x]"
    and get_None: "get s = None \<longleftrightarrow> items s = []"
    and get_Some: "get s = Some (x, s') \<Longrightarrow> items s = x # items s'"
begin

fun exchange :: "'a option list \<Rightarrow> 's \<Rightarrow> 'a list \<times> 's" where
  "exchange [] s = ([], s)"
| "exchange (Some x # ops) s = exchange ops (put x s)"
| "exchange (None # ops) s =
     (case get s of None \<Rightarrow> exchange ops s
      | Some (x, s') \<Rightarrow> (let (ys, t) = exchange ops s' in (x # ys, t)))"

text \<open>What has been taken out, followed by what is still inside, is what was there followed
  by what was put in: nothing is lost, duplicated or reordered.\<close>

lemma exchange_fifo:
  "exchange ops s = (ys, t) \<Longrightarrow> ys @ items t = items s @ List.map_filter id ops"
proof (induction ops arbitrary: s ys t)
  case Nil
  then show ?case by (simp add: map_filter_simps)
next
  case (Cons op ops)
  show ?case
  proof (cases op)
    case (Some x)
    then show ?thesis using Cons.IH [of "put x s"] Cons.prems
      by (simp add: items_put map_filter_simps)
  next
    case None
    show ?thesis
    proof (cases "get s")
      case None
      with \<open>op = None\<close> show ?thesis using Cons by (simp add: map_filter_simps)
    next
      case (Some p)
      obtain x s' where p: "p = (x, s')" by (cases p)
      obtain zs u where e: "exchange ops s' = (zs, u)" by (cases "exchange ops s'")
      from Cons.IH [OF e] show ?thesis
        using get_Some [of s x s'] Some p e \<open>op = None\<close> Cons.prems
        by (auto simp: map_filter_simps)
    qed
  qed
qed

lemma exchange_prefix:
  "exchange ops s = (ys, t) \<Longrightarrow> prefix ys (items s @ List.map_filter id ops)"
  using exchange_fifo by (metis prefixI)

end

section \<open>Retry loops with a budget\<close>

text \<open>
  \<open>run\<close> is given the outcome of every attempt it may make and returns whether it succeeded
  and how many attempts it made. The provider promises that it stops at the first success
  and otherwise uses its budget up.
\<close>

locale bounded_retry =
  fixes run :: "(nat \<Rightarrow> bool) \<Rightarrow> bool \<times> nat"
    and budget :: nat
  assumes attempts_le: "snd (run f) \<le> budget"
    and success_stops: "fst (run f) \<Longrightarrow> 0 < snd (run f) \<and> f (snd (run f))
           \<and> (\<forall>i. 0 < i \<and> i < snd (run f) \<longrightarrow> \<not> f i)"
    and failure_exhausts: "\<not> fst (run f) \<Longrightarrow> snd (run f) = budget \<and> (\<forall>i. 0 < i \<and> i \<le> budget \<longrightarrow> \<not> f i)"
begin

lemma succeeds_iff: "fst (run f) \<longleftrightarrow> (\<exists>i. 0 < i \<and> i \<le> budget \<and> f i)"
proof
  assume "fst (run f)"
  from success_stops [OF this] attempts_le [of f] show "\<exists>i. 0 < i \<and> i \<le> budget \<and> f i" by blast
next
  assume "\<exists>i. 0 < i \<and> i \<le> budget \<and> f i"
  with failure_exhausts [of f] show "fst (run f)" by blast
qed

lemma first_try: "0 < budget \<Longrightarrow> f 1 \<Longrightarrow> run f = (True, 1)"
proof -
  assume b: "0 < budget" and f: "f 1"
  then have t: "fst (run f)" by (auto simp: succeeds_iff)
  from success_stops [OF t] f have "\<not> 1 < snd (run f)" by force
  with success_stops [OF t] have "snd (run f) = 1" by simp
  with t show ?thesis by (simp add: prod_eq_iff)
qed

end

section \<open>Fixed-width codecs\<close>

locale width_codec =
  fixes enc :: "'a \<Rightarrow> byte list"
    and dec :: "byte list \<Rightarrow> 'a"
    and width :: nat
  assumes length_enc: "length (enc x) = width"
    and dec_enc: "dec (enc x) = x"
begin

lemma field_at: "dec (take width (enc x @ rest)) = x"
  by (simp add: length_enc dec_enc)

lemma skip_field: "drop width (enc x @ rest) = rest"
  by (simp add: length_enc)

lemma enc_inj: "enc x = enc y \<Longrightarrow> x = y"
  by (metis dec_enc)

end

end
