(* ===== verification/Wav.thy ===== *)
theory Wav
  imports Ifaces
begin

text \<open>
  \<^verbatim>\<open>R2Uploader::convertToWav\<close> of \<^verbatim>\<open>audio_recorder.cpp\<close>: the 44-byte RIFF header and the
  samples behind it. All size fields are 32-bit, so the byte count of the data wraps.
\<close>

section \<open>Four-byte and two-byte header fields\<close>

definition le32_bytes :: "32 word \<Rightarrow> byte list" where
  "le32_bytes w = [ucast w, ucast (drop_bit 8 w), ucast (drop_bit 16 w), ucast (drop_bit 24 w)]"

definition le32_of :: "byte list \<Rightarrow> 32 word" where
  "le32_of bs = ucast (bs ! 0) OR push_bit 8 (ucast (bs ! 1)) OR push_bit 16 (ucast (bs ! 2))
                  OR push_bit 24 (ucast (bs ! 3))"

definition le16_dec :: "byte list \<Rightarrow> 16 word" where
  "le16_dec bs = le16_of (bs ! 0) (bs ! 1)"

interpretation u16: width_codec le16_bytes le16_dec 2
  by unfold_locales (simp_all add: le16_dec_def le16_bytes_def)

lemma le32_of_bytes: "le32_of (le32_bytes w) = w"
proof (rule bit_word_eqI)
  fix n assume "n < LENGTH(32)"
  then have "n < 8 \<or> (8 \<le> n \<and> n < 16) \<or> (16 \<le> n \<and> n < 24) \<or> (24 \<le> n \<and> n < 32)" by auto
  then show "bit (le32_of (le32_bytes w)) n \<longleftrightarrow> bit w n"
    by (elim disjE) (auto simp: le32_of_def le32_bytes_def bit_simps)
qed

interpretation u32: width_codec le32_bytes le32_of 4
  by unfold_locales (simp_all add: le32_of_bytes, simp add: le32_bytes_def)

section \<open>The header\<close>

record wav_header =
  riff_header :: "byte list"
  wav_size :: "32 word"
  wave_header :: "byte list"
  fmt_header :: "byte list"
  fmt_chunk_size :: "32 word"
  audio_format :: "16 word"
  num_channels :: "16 word"
  wh_sample_rate :: "32 word"
  byte_rate :: "32 word"
  block_align :: "16 word"
  bit_depth :: "16 word"
  data_header :: "byte list"
  data_bytes :: "32 word"

definition ascii :: "string \<Rightarrow> byte list" where
  "ascii s = map (\<lambda>c. of_nat (of_char c)) s"

text \<open>The struct has no padding: \<^verbatim>\<open>sizeof(WavHeader)\<close> is 44 and its memory image is the fields
  in order.\<close>

definition WAV_HEADER_SIZE :: nat where "WAV_HEADER_SIZE = 44"

definition wav_header_bytes :: "wav_header \<Rightarrow> byte list" where
  "wav_header_bytes h =
     riff_header h @ le32_bytes (wav_size h) @ wave_header h @ fmt_header h @
     le32_bytes (fmt_chunk_size h) @ le16_bytes (audio_format h) @ le16_bytes (num_channels h) @
     le32_bytes (wh_sample_rate h) @ le32_bytes (byte_rate h) @ le16_bytes (block_align h) @
     le16_bytes (bit_depth h) @ data_header h @ le32_bytes (data_bytes h)"

definition make_wav_header :: "sample list \<Rightarrow> nat \<Rightarrow> wav_header" where
  "make_wav_header raw_data rate =
     (let channels = 1; depth = 16;
          align = channels * (depth div 8);
          rate32 = of_nat rate;
          bytes = of_nat (length raw_data * 2)
      in \<lparr>riff_header = ascii ''RIFF'', wav_size = bytes + of_nat WAV_HEADER_SIZE - 8,
          wave_header = ascii ''WAVE'', fmt_header = ascii ''fmt '', fmt_chunk_size = 16,
          audio_format = 1, num_channels = channels, wh_sample_rate = rate32,
          byte_rate = rate32 * ucast align, block_align = align, bit_depth = depth,
          data_header = ascii ''data'', data_bytes = bytes\<rparr>)"

definition convertToWav :: "sample list \<Rightarrow> nat \<Rightarrow> byte list" where
  "convertToWav raw_data rate =
     (let header = make_wav_header raw_data rate
      in wav_header_bytes header @ take (unat (data_bytes header)) (pcm_bytes raw_data))"

text \<open>Reading a header field of a WAV image, and the samples behind the header.\<close>

definition wav_u32_at :: "nat \<Rightarrow> byte list \<Rightarrow> 32 word" where
  "wav_u32_at off w = le32_of (take 4 (drop off w))"

definition wav_payload :: "byte list \<Rightarrow> sample list" where
  "wav_payload w = pcm_samples (drop WAV_HEADER_SIZE w)"

section \<open>Facts about the image\<close>

lemma length_ascii [simp]: "length (ascii s) = length s"
  by (simp add: ascii_def)

lemma length_wav_header [simp]:
  "length (wav_header_bytes (make_wav_header raw rate)) = WAV_HEADER_SIZE"
  by (simp add: wav_header_bytes_def make_wav_header_def Let_def u32.length_enc WAV_HEADER_SIZE_def)

lemma unat_data_bytes:
  "unat (data_bytes (make_wav_header raw rate)) = (2 * length raw) mod 2 ^ 32"
  by (simp add: make_wav_header_def Let_def unat_of_nat mult.commute del: of_nat_mult)

lemma data_bytes_le: "unat (data_bytes (make_wav_header raw rate)) \<le> 2 * length raw"
  by (simp add: unat_data_bytes)

lemma length_convertToWav:
  "length (convertToWav raw rate) = WAV_HEADER_SIZE + (2 * length raw) mod 2 ^ 32"
  using data_bytes_le [of raw rate]
  by (simp add: convertToWav_def Let_def unat_data_bytes min_def)

lemma payload_convertToWav:
  "wav_payload (convertToWav raw rate) = take (((2 * length raw) mod 2 ^ 32) div 2) raw"
proof -
  have e: "(2 * length raw) mod 2 ^ 32 = 2 * (length raw mod 2 ^ 31)"
    using mult_mod_right [of 2 "length raw" "2 ^ 31"] by simp
  have "wav_payload (convertToWav raw rate) = pcm_samples (take (2 * (length raw mod 2 ^ 31)) (pcm_bytes raw))"
    using e by (simp add: wav_payload_def convertToWav_def Let_def unat_data_bytes)
  then show ?thesis by (simp only: pcm_samples_take pcm_samples_bytes e) simp
qed

lemma header_fields:
  "wav_u32_at 4 (convertToWav raw rate) = of_nat (2 * length raw) + 36"
  "wav_u32_at 24 (convertToWav raw rate) = of_nat rate"
  "wav_u32_at 28 (convertToWav raw rate) = of_nat rate * 2"
  "wav_u32_at 40 (convertToWav raw rate) = of_nat (2 * length raw)"
  by (simp_all add: wav_u32_at_def convertToWav_def wav_header_bytes_def make_wav_header_def
        Let_def drop_append ascii_def u32.length_enc u32.field_at u32.dec_enc WAV_HEADER_SIZE_def
        le16_bytes_def mult.commute)

end
