(* ===== verification/Cpp_Std.thy ===== *)
theory Cpp_Std
  imports Prelude
begin

text \<open>
  What the program uses of the C++ standard library on strings and integers:
  \<^verbatim>\<open>std::string::find\<close>, \<^verbatim>\<open>substr\<close>, \<^verbatim>\<open>find_first_not_of\<close>, \<^verbatim>\<open>erase\<close>,
  \<^verbatim>\<open>std::to_string\<close>, \<^verbatim>\<open>atoi\<close>, \<^verbatim>\<open>std::stoi\<close>, the character classes, and
  \<^verbatim>\<open>getenv\<close> over an environment that is an argument of every operation that reads it.
  Positions are natural numbers; \<open>npos\<close> is the largest value of a 64-bit \<^verbatim>\<open>size_t\<close> and the
  arithmetic the program does on positions without testing for \<open>npos\<close> wraps with it.
\<close>

section \<open>Searching strings\<close>

definition npos :: nat where
  "npos = 2 ^ 64 - 1"

definition sz_add :: "nat \<Rightarrow> nat \<Rightarrow> nat" where
  "sz_add a b = (a + b) mod 2 ^ 64"

text \<open>Index of the first occurrence of a pattern, \<open>None\<close> for \<open>npos\<close>.\<close>

fun str_find :: "'a list \<Rightarrow> 'a list \<Rightarrow> nat option" where
  "str_find pat [] = (if pat = [] then Some 0 else None)"
| "str_find pat (c # s) =
     (if prefix pat (c # s) then Some 0 else map_option Suc (str_find pat s))"

definition str_find_from :: "'a list \<Rightarrow> 'a list \<Rightarrow> nat \<Rightarrow> nat option" where
  "str_find_from pat s pos =
     (if pos \<le> length s then map_option ((+) pos) (str_find pat (drop pos s)) else None)"

definition find_npos :: "'a list \<Rightarrow> 'a list \<Rightarrow> nat" where
  "find_npos pat s = (case str_find pat s of None \<Rightarrow> npos | Some i \<Rightarrow> i)"

definition str_contains :: "'a list \<Rightarrow> 'a list \<Rightarrow> bool" where
  "str_contains pat s \<longleftrightarrow> str_find pat s \<noteq> None"

text \<open>\<^verbatim>\<open>substr(pos, n)\<close> throws \<^verbatim>\<open>out_of_range\<close> past the end: \<open>None\<close>.\<close>

definition substr :: "'a list \<Rightarrow> nat \<Rightarrow> nat \<Rightarrow> 'a list option" where
  "substr s pos n = (if pos \<le> length s then Some (take n (drop pos s)) else None)"

definition substr_from :: "'a list \<Rightarrow> nat \<Rightarrow> 'a list option" where
  "substr_from s pos = (if pos \<le> length s then Some (drop pos s) else None)"

lemma str_find_Some:
  "str_find pat s = Some i \<Longrightarrow> i \<le> length s \<and> prefix pat (drop i s)"
proof (induction pat s arbitrary: i rule: str_find.induct)
  case (2 pat c s)
  then show ?case by (cases i) (auto split: if_splits)
qed (auto split: if_splits)

lemma str_find_first:
  "str_find pat s = Some i \<Longrightarrow> j < i \<Longrightarrow> \<not> prefix pat (drop j s)"
proof (induction pat s arbitrary: i j rule: str_find.induct)
  case (2 pat c s)
  then show ?case by (cases j) (auto split: if_splits)
qed (auto split: if_splits)

lemma str_find_None:
  "str_find pat s = None \<Longrightarrow> \<not> prefix pat (drop j s)"
proof (induction pat s arbitrary: j rule: str_find.induct)
  case (2 pat c s)
  then show ?case by (cases j) (auto split: if_splits)
qed (auto split: if_splits)

lemma str_find_eqI:
  assumes "prefix pat (drop i s)" and "i \<le> length s"
    and "\<And>j. j < i \<Longrightarrow> \<not> prefix pat (drop j s)"
  shows "str_find pat s = Some i"
proof (cases "str_find pat s")
  case None
  with assms(1) show ?thesis using str_find_None by blast
next
  case (Some k)
  with assms show ?thesis
    using str_find_Some [OF Some] str_find_first [OF Some] by (metis linorder_neqE_nat)
qed

lemma str_contains_iff: "str_contains pat s \<longleftrightarrow> sublist pat s"
proof
  assume "str_contains pat s"
  then obtain i where "str_find pat s = Some i"
    by (auto simp: str_contains_def)
  then have "prefix pat (drop i s)" by (simp add: str_find_Some)
  then obtain zs where "drop i s = pat @ zs" by (auto simp: prefix_def)
  then have "s = take i s @ pat @ zs" by (metis append_take_drop_id)
  then show "sublist pat s" by (metis sublist_appendI)
next
  assume "sublist pat s"
  then obtain ps ss where s: "s = ps @ pat @ ss" by (auto simp: sublist_def)
  then have "prefix pat (drop (length ps) s)" by simp
  then have "str_find pat s \<noteq> None" using str_find_None by blast
  then show "str_contains pat s" by (simp add: str_contains_def)
qed

text \<open>Searching for a single character.\<close>

lemma prefix_single: "prefix [c] s \<longleftrightarrow> s \<noteq> [] \<and> hd s = c"
  by (cases s) auto

lemma str_find_char:
  "c \<notin> set u \<Longrightarrow> str_find [c] (u @ c # v) = Some (length u)"
  by (induction u) auto

lemma str_find_char_None [simp]: "c \<notin> set s \<Longrightarrow> str_find [c] s = None"
  by (induction s) auto

lemma str_find_prefix [simp]: "str_find pat (pat @ s) = Some 0"
proof (cases "pat @ s")
  case Nil
  then show ?thesis by simp
next
  case (Cons c s')
  then have "prefix pat (c # s')" by (metis prefixI)
  with Cons show ?thesis by simp
qed

text \<open>Where a pattern first occurs does not depend on what follows that occurrence.\<close>

lemma prefix_iff_take: "prefix p zs \<longleftrightarrow> length p \<le> length zs \<and> take (length p) zs = p"
  by (metis append_eq_conv_conj append_take_drop_id prefix_def prefix_length_le)

lemma prefix_drop_append:
  assumes "j + length pat \<le> length xs"
  shows "prefix pat (drop j (xs @ ys)) \<longleftrightarrow> prefix pat (drop j xs)"
proof -
  have "length pat \<le> length (drop j xs)" "drop j (xs @ ys) = drop j xs @ ys" using assms by simp_all
  then show ?thesis by (auto simp: prefix_iff_take)
qed

lemma str_find_marker:
  assumes "str_find pat (pre @ pat @ suf) = Some (length pre)"
  shows "str_find pat (pre @ pat @ suf') = Some (length pre)"
proof (rule str_find_eqI)
  show "prefix pat (drop (length pre) (pre @ pat @ suf'))" by simp
  show "length pre \<le> length (pre @ pat @ suf')" by simp
  fix j assume j: "j < length pre"
  have e: "prefix pat (drop j ((pre @ pat) @ t)) \<longleftrightarrow> prefix pat (drop j (pre @ pat))" for t
    using j by (intro prefix_drop_append) simp
  have "\<not> prefix pat (drop j ((pre @ pat) @ suf))" using str_find_first [OF assms j] by simp
  then have "\<not> prefix pat (drop j ((pre @ pat) @ suf'))" by (simp only: e not_False_eq_True)
  then show "\<not> prefix pat (drop j (pre @ pat @ suf'))" by simp
qed

section \<open>Trimming and character classes\<close>

definition is_digit :: "char \<Rightarrow> bool" where
  "is_digit c \<longleftrightarrow> (let k = of_char c :: nat in 48 \<le> k \<and> k \<le> 57)"

definition is_space :: "char \<Rightarrow> bool" where
  "is_space c \<longleftrightarrow> (let k = of_char c :: nat in k = 32 \<or> (9 \<le> k \<and> k \<le> 13))"

definition to_lower :: "char \<Rightarrow> char" where
  "to_lower c = (let k = of_char c :: nat in if 65 \<le> k \<and> k \<le> 90 then char_of (k + 32) else c)"

definition CR :: char where "CR = char_of (13 :: nat)"
definition LF :: char where "LF = char_of (10 :: nat)"
definition TAB :: char where "TAB = char_of (9 :: nat)"
definition DQ :: char where "DQ = char_of (34 :: nat)"
definition SQ :: char where "SQ = char_of (39 :: nat)"

text \<open>
  \<^verbatim>\<open>s.erase(0, s.find_first_not_of(cs)); s.erase(s.find_last_not_of(cs) + 1)\<close>: when no other
  character is found the first call erases \<open>npos\<close> characters, that is all of them.
\<close>

definition erase_front :: "(char \<Rightarrow> bool) \<Rightarrow> string \<Rightarrow> string" where
  "erase_front p s = dropWhile p s"

definition erase_back :: "(char \<Rightarrow> bool) \<Rightarrow> string \<Rightarrow> string" where
  "erase_back p s = rev (dropWhile p (rev s))"

definition trim_with :: "(char \<Rightarrow> bool) \<Rightarrow> string \<Rightarrow> string" where
  "trim_with p s = erase_back p (erase_front p s)"

lemma dropWhile_noop: "xs = [] \<or> \<not> P (hd xs) \<Longrightarrow> dropWhile P xs = xs"
  by (cases xs) auto

lemma trim_with_ends:
  assumes "trim_with p s \<noteq> []"
  shows "\<not> p (hd (trim_with p s)) \<and> \<not> p (last (trim_with p s))"
proof -
  let ?t = "dropWhile p s" and ?u = "dropWhile p (rev (dropWhile p s))"
  have u: "?u \<noteq> []" using assms by (simp add: trim_with_def erase_front_def erase_back_def)
  then have "\<not> p (hd ?u)" by (rule hd_dropWhile)
  then have l: "\<not> p (last (trim_with p s))"
    using u by (simp add: trim_with_def erase_front_def erase_back_def last_rev)
  have t: "?t \<noteq> []" using u by (metis dropWhile.simps(1) rev.simps(1))
  then have "\<not> p (hd ?t)" by (rule hd_dropWhile)
  moreover have "\<exists>zs. rev ?t = zs @ ?u" by (metis takeWhile_dropWhile_id)
  then obtain zs where "rev ?t = zs @ ?u" by blast
  then have "?t = rev ?u @ rev zs" by (metis rev_append rev_rev_ident)
  then have "hd ?t = hd (rev ?u)" using u by (metis hd_append2 rev_is_Nil_conv)
  ultimately show ?thesis using l by (simp add: trim_with_def erase_front_def erase_back_def)
qed

lemma trim_with_idem: "trim_with p (trim_with p s) = trim_with p s"
proof (cases "trim_with p s = []")
  case True
  show ?thesis by (simp only: True) (simp add: trim_with_def erase_front_def erase_back_def)
next
  case False
  with trim_with_ends [OF this]
  have "dropWhile p (trim_with p s) = trim_with p s"
    and "dropWhile p (rev (trim_with p s)) = rev (trim_with p s)"
    by (auto intro!: dropWhile_noop simp: hd_rev)
  then show ?thesis
    by (simp add: trim_with_def [of p "trim_with p s"] erase_front_def erase_back_def)
qed

lemma set_trim_with: "set (trim_with p s) \<subseteq> set s"
  by (auto simp: trim_with_def erase_front_def erase_back_def dest!: set_dropWhileD)

section \<open>Numbers and text\<close>

definition digit_char :: "nat \<Rightarrow> char" where
  "digit_char d = char_of (48 + d)"

fun show_nat :: "nat \<Rightarrow> string" where
  "show_nat n = (if n < 10 then [digit_char n] else show_nat (n div 10) @ [digit_char (n mod 10)])"

declare show_nat.simps [simp del]

definition to_string :: "int \<Rightarrow> string" where
  "to_string i = (if i < 0 then ''-'' @ show_nat (nat (- i)) else show_nat (nat i))"

definition digit_val :: "char \<Rightarrow> nat" where
  "digit_val c = of_char c - 48"

fun read_digits :: "nat \<Rightarrow> string \<Rightarrow> nat" where
  "read_digits acc [] = acc"
| "read_digits acc (c # cs) = (if is_digit c then read_digits (10 * acc + digit_val c) cs else acc)"

text \<open>\<^verbatim>\<open>strtol\<close> as \<^verbatim>\<open>atoi\<close> and \<^verbatim>\<open>stoi\<close> call it: white space, a sign, digits; \<open>None\<close> when
  there is no digit.\<close>

definition parse_int :: "string \<Rightarrow> int option" where
  "parse_int s =
     (let t = dropWhile is_space s;
          neg = (t \<noteq> [] \<and> hd t = CHR ''-'');
          u = (if t \<noteq> [] \<and> (hd t = CHR ''-'' \<or> hd t = CHR ''+'') then tl t else t)
      in if u \<noteq> [] \<and> is_digit (hd u)
         then Some (if neg then - int (read_digits 0 u) else int (read_digits 0 u)) else None)"

definition INT_MAX :: int where "INT_MAX = 2147483647"
definition INT_MIN :: int where "INT_MIN = - 2147483648"

text \<open>\<^verbatim>\<open>std::stoi\<close> throws \<^verbatim>\<open>invalid_argument\<close> or \<^verbatim>\<open>out_of_range\<close>: \<open>None\<close>.\<close>

definition stoi :: "string \<Rightarrow> int option" where
  "stoi s = (case parse_int s of None \<Rightarrow> None
             | Some i \<Rightarrow> if INT_MIN \<le> i \<and> i \<le> INT_MAX then Some i else None)"

text \<open>\<^verbatim>\<open>atoi\<close> returns 0 without digits and is undefined outside \<^verbatim>\<open>int\<close>; glibc truncates the
  saturated \<^verbatim>\<open>strtol\<close> value.\<close>

definition atoi :: "string \<Rightarrow> int" where
  "atoi s = (case parse_int s of None \<Rightarrow> 0
             | Some i \<Rightarrow> sint (word_of_int (max (- (2 ^ 63)) (min (2 ^ 63 - 1) i)) :: 32 word))"

lemma show_nat_nonempty [simp]: "show_nat n \<noteq> []"
  by (subst show_nat.simps) simp

lemma digit_char_props [simp]:
  assumes "d < 10"
  shows "is_digit (digit_char d)" and "digit_val (digit_char d) = d"
  using assms by (simp_all add: is_digit_def digit_char_def digit_val_def)

lemma show_nat_digits: "c \<in> set (show_nat n) \<Longrightarrow> is_digit c"
proof (induction n rule: show_nat.induct)
  case (1 n)
  then show ?case by (subst (asm) (2) show_nat.simps) (auto split: if_splits)
qed

lemma read_digits_append:
  "(\<And>c. c \<in> set s \<Longrightarrow> is_digit c) \<Longrightarrow> read_digits acc (s @ t) = read_digits (read_digits acc s) t"
  by (induction s arbitrary: acc) auto

lemma read_show_nat [simp]: "read_digits 0 (show_nat n) = n"
proof (induction n rule: show_nat.induct)
  case (1 n)
  show ?case
  proof (cases "n < 10")
    case True
    then show ?thesis by (subst show_nat.simps) simp
  next
    case False
    then show ?thesis using "1.IH"
      by (subst show_nat.simps) (simp add: read_digits_append show_nat_digits)
  qed
qed

lemma digit_not_space: "is_digit c \<Longrightarrow> \<not> is_space c"
  by (auto simp: is_digit_def is_space_def Let_def)

lemma digit_not_sign: "is_digit c \<Longrightarrow> c \<noteq> CHR ''-'' \<and> c \<noteq> CHR ''+''"
  by (auto simp: is_digit_def Let_def)

lemma show_nat_hd [simp]: "is_digit (hd (show_nat n))"
  by (rule show_nat_digits) (rule hd_in_set, simp)

text \<open>\<^verbatim>\<open>stoi\<close> inverts \<^verbatim>\<open>to_string\<close> on the values of an \<^verbatim>\<open>int\<close>.\<close>

lemma parse_to_string [simp]: "parse_int (to_string i) = Some i"
proof (cases "i < 0")
  case True
  have "\<not> is_space CHR ''-''" by (simp add: is_space_def)
  with True show ?thesis by (simp add: parse_int_def to_string_def Let_def)
next
  case False
  let ?t = "show_nat (nat i)"
  have "dropWhile is_space ?t = ?t"
    by (rule dropWhile_noop) (simp add: digit_not_space)
  moreover have "hd ?t \<noteq> CHR ''-'' \<and> hd ?t \<noteq> CHR ''+''"
    by (rule digit_not_sign) simp
  ultimately show ?thesis using False by (simp add: parse_int_def to_string_def Let_def)
qed

lemma stoi_to_string: "INT_MIN \<le> i \<Longrightarrow> i \<le> INT_MAX \<Longrightarrow> stoi (to_string i) = Some i"
  by (simp add: stoi_def)

section \<open>The process environment\<close>

type_synonym env = "string \<Rightarrow> string option"

text \<open>The \<^verbatim>\<open>getEnvString\<close> and \<^verbatim>\<open>getEnvInt\<close> helpers treat an empty value as unset.\<close>

definition getEnvString :: "env \<Rightarrow> string \<Rightarrow> string \<Rightarrow> string" where
  "getEnvString ev name dflt =
     (case ev name of Some v \<Rightarrow> if v \<noteq> [] then v else dflt | None \<Rightarrow> dflt)"

definition getEnvInt :: "env \<Rightarrow> string \<Rightarrow> int \<Rightarrow> int option" where
  "getEnvInt ev name dflt =
     (case ev name of Some v \<Rightarrow> if v \<noteq> [] then stoi v else Some dflt | None \<Rightarrow> Some dflt)"

definition getEnvVar :: "env \<Rightarrow> string \<Rightarrow> string" where
  "getEnvVar ev key = (case ev key of Some v \<Rightarrow> v | None \<Rightarrow> [])"

text \<open>The plain \<^verbatim>\<open>getenv\<close> with a fallback for a null result only.\<close>

definition getenv_or :: "env \<Rightarrow> string \<Rightarrow> string \<Rightarrow> string" where
  "getenv_or ev name dflt = (case ev name of Some v \<Rightarrow> v | None \<Rightarrow> dflt)"

end
