(* ===== verification/Uploader.thy ===== *)
theory Uploader
  imports Wav Cpp_Std
begin

text \<open>
  Recording upload: the signed S3 request and the retry loop of \<^verbatim>\<open>R2Uploader::uploadWithHandle\<close>
  (\<^verbatim>\<open>audio_recorder.cpp\<close>), libcurl's pull of the body through \<^verbatim>\<open>ReadCallback\<close>, and the worker
  pool of \<^verbatim>\<open>upload_manager.cpp\<close> with its queue, its promises and its shutdown.
  OpenSSL's digests are the fields of a record argument, libcurl's answers and the clock are
  functions of the attempt number.
\<close>

section \<open>Configuration\<close>

record aws_config =
  AWS_REGION :: string
  AWS_ACCESS_KEY :: string
  AWS_SECRET_KEY :: string
  AWS_BUCKET_NAME :: string

definition aws_config_of :: "env \<Rightarrow> aws_config" where
  "aws_config_of ev = \<lparr>AWS_REGION = getEnvVar ev ''AWS_REGION'',
     AWS_ACCESS_KEY = getEnvVar ev ''AWS_ACCESS_KEY'',
     AWS_SECRET_KEY = getEnvVar ev ''AWS_SECRET_KEY'',
     AWS_BUCKET_NAME = getEnvVar ev ''AWS_BUCKET_NAME''\<rparr>"

definition validateR2Config :: "aws_config \<Rightarrow> bool" where
  "validateR2Config c \<longleftrightarrow> AWS_REGION c \<noteq> [] \<and> AWS_ACCESS_KEY c \<noteq> [] \<and> AWS_SECRET_KEY c \<noteq> []
     \<and> AWS_BUCKET_NAME c \<noteq> []"

section \<open>Signing\<close>

text \<open>OpenSSL: raw digests as strings of characters below 256, and the base64 filter.\<close>

record crypto =
  HMAC_SHA256 :: "string \<Rightarrow> string \<Rightarrow> string"
  SHA256_raw :: "string \<Rightarrow> string"
  MD5_raw :: "byte list \<Rightarrow> string"
  BIO_base64 :: "string \<Rightarrow> string"

definition hex_digit :: "nat \<Rightarrow> char" where
  "hex_digit d = char_of (if d < 10 then 48 + d else 87 + d)"

definition hex_byte :: "char \<Rightarrow> string" where
  "hex_byte c = (let k = of_char c :: nat in [hex_digit (k div 16), hex_digit (k mod 16)])"

definition hexDump :: "string \<Rightarrow> string" where
  "hexDump s = concat (map hex_byte s)"

definition hmacSha256 :: "crypto \<Rightarrow> string \<Rightarrow> string \<Rightarrow> string" where
  "hmacSha256 cr key data = hexDump (HMAC_SHA256 cr key data)"

definition sha256 :: "crypto \<Rightarrow> string \<Rightarrow> string" where
  "sha256 cr s = hexDump (SHA256_raw cr s)"

definition md5_base64 :: "crypto \<Rightarrow> byte list \<Rightarrow> string" where
  "md5_base64 cr data = BIO_base64 cr (MD5_raw cr data)"

definition getSigningKey :: "crypto \<Rightarrow> string \<Rightarrow> string \<Rightarrow> string \<Rightarrow> string \<Rightarrow> string" where
  "getSigningKey cr secret_key date_stamp region service =
     (let k_date = HMAC_SHA256 cr (''AWS4'' @ secret_key) date_stamp;
          k_region = HMAC_SHA256 cr k_date region;
          k_service = HMAC_SHA256 cr k_region service
      in HMAC_SHA256 cr k_service ''aws4_request'')"

definition getCanonicalRequest :: "string \<Rightarrow> string \<Rightarrow> string \<Rightarrow> string \<Rightarrow> string \<Rightarrow> string" where
  "getCanonicalRequest meth canonical_uri host amz_date content_md5 =
     meth @ [LF] @ canonical_uri @ [LF] @ [] @ [LF] @ ''content-md5:'' @ content_md5 @ [LF] @
     ''host:'' @ host @ [LF] @ ''x-amz-content-sha256:UNSIGNED-PAYLOAD'' @ [LF] @
     ''x-amz-date:'' @ amz_date @ [LF] @ [] @ [LF] @
     ''content-md5;host;x-amz-content-sha256;x-amz-date'' @ [LF] @ ''UNSIGNED-PAYLOAD''"

section \<open>One request\<close>

record put_request =
  put_url :: string
  put_headers :: "string list"
  put_body :: "byte list"

definition s3_host :: "aws_config \<Rightarrow> string" where
  "s3_host c = ''s3.'' @ AWS_REGION c @ ''.amazonaws.com''"

definition s3_uri :: "aws_config \<Rightarrow> string \<Rightarrow> string \<Rightarrow> string" where
  "s3_uri c call_id folder = ''/'' @ AWS_BUCKET_NAME c @ ''/'' @ folder @ ''/'' @ call_id @ ''.wav''"

definition string_to_sign :: "crypto \<Rightarrow> aws_config \<Rightarrow> string \<Rightarrow> string \<Rightarrow> string" where
  "string_to_sign cr c amz_date canonical_request =
     ''AWS4-HMAC-SHA256'' @ [LF] @ amz_date @ [LF] @ take 8 amz_date @ ''/'' @ AWS_REGION c @
     ''/s3/aws4_request'' @ [LF] @ sha256 cr canonical_request"

definition s3_request :: "crypto \<Rightarrow> aws_config \<Rightarrow> string \<Rightarrow> string \<Rightarrow> byte list \<Rightarrow> string \<Rightarrow> put_request" where
  "s3_request cr c call_id folder wav_data amz_date =
     (let host = s3_host c; uri = s3_uri c call_id folder; md5 = md5_base64 cr wav_data;
          date_stamp = take 8 amz_date;
          canonical = getCanonicalRequest ''PUT'' uri host amz_date md5;
          signing_key = getSigningKey cr (AWS_SECRET_KEY c) date_stamp (AWS_REGION c) ''s3'';
          signature = hexDump (HMAC_SHA256 cr signing_key (string_to_sign cr c amz_date canonical));
          credential = AWS_ACCESS_KEY c @ ''/'' @ date_stamp @ ''/'' @ AWS_REGION c @ ''/s3/aws4_request'';
          auth_header = ''AWS4-HMAC-SHA256 Credential='' @ credential @
            '', SignedHeaders=content-md5;host;x-amz-content-sha256;x-amz-date, Signature='' @ signature
      in \<lparr>put_url = ''https://'' @ host @ uri,
          put_headers = [''Content-MD5: '' @ md5, ''Host: '' @ host,
            ''X-Amz-Content-SHA256: UNSIGNED-PAYLOAD'', ''X-Amz-Date: '' @ amz_date,
            ''Authorization: '' @ auth_header,
            ''Content-Length: '' @ show_nat (length wav_data), ''Expect: 100-continue''],
          put_body = wav_data\<rparr>)"

text \<open>libcurl pulls the body through \<^verbatim>\<open>ReadCallback\<close>, which keeps an offset into the data; a return
  of 0 ends the body.\<close>

record upload_context =
  ctx_data :: "byte list"
  ctx_offset :: nat

definition ReadCallback :: "nat \<Rightarrow> nat \<Rightarrow> upload_context \<Rightarrow> byte list \<times> upload_context" where
  "ReadCallback sz nitems ctx =
     (let n = min (sz * nitems) (length (ctx_data ctx) - ctx_offset ctx)
      in if 0 < n then (take n (drop (ctx_offset ctx) (ctx_data ctx)), ctx\<lparr>ctx_offset := ctx_offset ctx + n\<rparr>)
         else ([], ctx))"

fun pull_body :: "nat list \<Rightarrow> upload_context \<Rightarrow> byte list \<times> upload_context" where
  "pull_body [] ctx = ([], ctx)"
| "pull_body (n # ns) ctx =
     (let (bs, ctx') = ReadCallback 1 n ctx; (rest, ctx'') = pull_body ns ctx' in (bs @ rest, ctx''))"

text \<open>\<^verbatim>\<open>WriteCallback\<close> appends what arrives to the response string.\<close>

definition WriteCallback :: "string \<Rightarrow> string \<Rightarrow> nat \<times> string" where
  "WriteCallback contents response = (length contents, response @ contents)"

section \<open>The retry loop\<close>

text \<open>What the loop does: a request, or a pause in seconds. libcurl's answer to an attempt is
  whether it returned \<^verbatim>\<open>CURLE_OK\<close>, and the response code.\<close>

datatype upload_event = Put put_request | Pause nat

type_synonym curl_answers = "nat \<Rightarrow> bool \<times> int"

fun upload_loop :: "(nat \<Rightarrow> put_request) \<Rightarrow> curl_answers \<Rightarrow> nat \<Rightarrow> nat \<Rightarrow> bool \<times> upload_event list" where
  "upload_loop mk net attempt 0 = (False, [])"
| "upload_loop mk net attempt (Suc left) =
     (if fst (net attempt) \<and> snd (net attempt) = 200 then (True, [Put (mk attempt)])
      else (let (ok, es) = upload_loop mk net (Suc attempt) left
            in (ok, Put (mk attempt) # (if 0 < left then [Pause (2 * 2 ^ (attempt - 1))] else []) @ es)))"

definition uploadWithHandle ::
  "bool \<Rightarrow> crypto \<Rightarrow> aws_config \<Rightarrow> (nat \<Rightarrow> string) \<Rightarrow> curl_answers \<Rightarrow> string \<Rightarrow> byte list \<Rightarrow> string \<Rightarrow> nat
   \<Rightarrow> bool \<times> upload_event list" where
  "uploadWithHandle curl cr c dates net call_id wav_data folder max_retries =
     (if \<not> curl then (False, [])
      else upload_loop (\<lambda>attempt. s3_request cr c call_id folder wav_data (dates attempt)) net 1 max_retries)"

definition is_put :: "upload_event \<Rightarrow> bool" where
  "is_put e \<longleftrightarrow> (case e of Put _ \<Rightarrow> True | Pause _ \<Rightarrow> False)"

definition puts :: "upload_event list \<Rightarrow> put_request list" where
  "puts es = concat (map (\<lambda>e. case e of Put r \<Rightarrow> [r] | Pause _ \<Rightarrow> []) es)"

definition pauses :: "upload_event list \<Rightarrow> nat list" where
  "pauses es = concat (map (\<lambda>e. case e of Put r \<Rightarrow> [] | Pause n \<Rightarrow> [n]) es)"

lemma puts_simps [simp]:
  "puts [] = []" "puts (Put r # es) = r # puts es" "puts (Pause n # es) = puts es"
  "puts (es @ fs) = puts es @ puts fs"
  by (simp_all add: puts_def)

lemma pauses_simps [simp]:
  "pauses [] = []" "pauses (Put r # es) = pauses es" "pauses (Pause n # es) = n # pauses es"
  by (simp_all add: pauses_def)

definition accepted :: "curl_answers \<Rightarrow> nat \<Rightarrow> bool" where
  "accepted net i \<longleftrightarrow> fst (net i) \<and> snd (net i) = 200"

text \<open>The loop stops at the first accepted attempt and otherwise uses all of them up.\<close>

lemma upload_loop_result:
  assumes "upload_loop mk net a n = (ok, es)"
  shows "(ok \<longrightarrow> (\<exists>k < n. accepted net (a + k) \<and> (\<forall>j < k. \<not> accepted net (a + j))
              \<and> puts es = map mk [a ..< a + Suc k]))
       \<and> (\<not> ok \<longrightarrow> (\<forall>j < n. \<not> accepted net (a + j)) \<and> puts es = map mk [a ..< a + n])"
  using assms
proof (induction n arbitrary: a ok es)
  case 0
  then show ?case by simp
next
  case (Suc n)
  show ?case
  proof (cases "accepted net a")
    case True
    with Suc.prems have "ok \<and> puts es = [mk a]" by (auto simp: accepted_def)
    with True show ?thesis by (intro conjI impI exI [of _ 0]) auto
  next
    case False
    obtain ok' es' where r: "upload_loop mk net (Suc a) n = (ok', es')" by fastforce
    with Suc.prems False have e: "ok = ok'" "puts es = mk a # puts es'"
      by (auto simp: accepted_def Let_def split: if_splits)
    have up: "a < m \<Longrightarrow> map mk [a ..< m] = mk a # map mk [Suc a ..< m]" for m
      by (simp add: upt_conv_Cons)
    show ?thesis
    proof (cases ok')
      case True
      with Suc.IH [OF r] obtain k where k: "k < n" "accepted net (Suc a + k)"
        "\<forall>j < k. \<not> accepted net (Suc a + j)" "puts es' = map mk [Suc a ..< Suc a + Suc k]" by auto
      have first: "\<not> accepted net (a + j)" if "j < Suc k" for j
        using False k(3) that by (cases j) auto
      have "puts es = map mk [a ..< a + Suc (Suc k)]"
        using up [of "a + Suc (Suc k)"] e(2) k(4) by (simp del: upt_Suc)
      with k(1,2) first e(1) True show ?thesis
        by (intro conjI impI exI [of _ "Suc k"]) auto
    next
      case notok: False
      with Suc.IH [OF r] have k: "\<forall>j < n. \<not> accepted net (Suc a + j)" "puts es' = map mk [Suc a ..< Suc a + n]"
        by auto
      have "\<not> accepted net (a + j)" if "j < Suc n" for j
        using False k(1) that by (cases j) auto
      with notok e k(2) up [of "a + Suc n"] show ?thesis by (simp del: upt_Suc)
    qed
  qed
qed

lemma upload_loop_pauses:
  "upload_loop mk net a n = (ok, es) \<Longrightarrow> length (puts es) = Suc k
   \<Longrightarrow> pauses es = map (\<lambda>i. 2 * 2 ^ (i - 1)) [a ..< a + k]"
proof (induction n arbitrary: a ok es k)
  case 0
  then show ?case by simp
next
  case (Suc n)
  show ?case
  proof (cases "accepted net a")
    case True
    with Suc.prems show ?thesis by (auto simp: accepted_def)
  next
    case False
    obtain ok' es' where r: "upload_loop mk net (Suc a) n = (ok', es')" by fastforce
    show ?thesis
    proof (cases n)
      case 0
      with Suc.prems r False show ?thesis by (auto simp: accepted_def)
    next
      case (Suc n')
      have ne: "puts es' \<noteq> []"
        using upload_loop_result [OF r] Suc by (cases ok') auto
      with Suc.prems r False Suc obtain k' where k': "k = Suc k'" "length (puts es') = Suc k'"
        by (cases k) (auto simp: accepted_def Let_def)
      have "pauses es = 2 * 2 ^ (a - 1) # pauses es'"
        using Suc.prems(1) r False Suc by (auto simp: accepted_def Let_def)
      with Suc.IH [OF r k'(2)] k' show ?thesis by (simp add: upt_conv_Cons del: upt_Suc)
    qed
  qed
qed

text \<open>The loop as a retry with a budget: outcomes in, success and number of requests out.\<close>

definition upload_run :: "(nat \<Rightarrow> put_request) \<Rightarrow> nat \<Rightarrow> (nat \<Rightarrow> bool) \<Rightarrow> bool \<times> nat" where
  "upload_run mk n f =
     (let r = upload_loop mk (\<lambda>i. (f i, 200)) 1 n in (fst r, length (puts (snd r))))"

interpretation upload: bounded_retry "upload_run mk n" n for mk n
proof unfold_locales
  fix f
  obtain ok es where r: "upload_loop mk (\<lambda>i. (f i, 200)) 1 n = (ok, es)" by fastforce
  note res = upload_loop_result [OF r]
  have run: "upload_run mk n f = (ok, length (puts es))" by (simp only: upload_run_def r Let_def fst_conv snd_conv)
  show "snd (upload_run mk n f) \<le> n"
    using res by (cases ok) (auto simp: run)
  show "0 < snd (upload_run mk n f) \<and> f (snd (upload_run mk n f))
      \<and> (\<forall>i. 0 < i \<and> i < snd (upload_run mk n f) \<longrightarrow> \<not> f i)" if "fst (upload_run mk n f)"
  proof -
    from that run have ok by simp
    with res obtain k where k: "f (1 + k)" "\<forall>j < k. \<not> f (1 + j)" "puts es = map mk [1 ..< 1 + Suc k]"
      by (auto simp: accepted_def)
    have "\<not> f i" if "0 < i" "i < Suc k" for i
      using k(2) that by (cases i) auto
    with k show ?thesis by (simp add: run del: upt_Suc)
  qed
  show "snd (upload_run mk n f) = n \<and> (\<forall>i. 0 < i \<and> i \<le> n \<longrightarrow> \<not> f i)" if "\<not> fst (upload_run mk n f)"
  proof -
    from that run have "\<not> ok" by simp
    with res have k: "\<forall>j < n. \<not> f (Suc j)" "length (puts es) = n" by (auto simp: accepted_def)
    have "\<not> f i" if "0 < i" "i \<le> n" for i
      using k(1) that by (cases i) auto
    with k(2) show ?thesis by (simp add: run)
  qed
qed

lemma upload_loop_ok_cong:
  "(\<And>i. accepted net i = accepted net' i) \<Longrightarrow> upload_loop mk net a n = upload_loop mk net' a n"
  by (induction n arbitrary: a) (simp_all add: accepted_def)

lemma upload_loop_run:
  "(fst (upload_loop mk net 1 n), length (puts (snd (upload_loop mk net 1 n)))) = upload_run mk n (accepted net)"
proof -
  have "upload_loop mk net 1 n = upload_loop mk (\<lambda>i. (accepted net i, 200)) 1 n"
    by (rule upload_loop_ok_cong) (simp add: accepted_def)
  then show ?thesis by (simp only: upload_run_def Let_def)
qed

section \<open>The worker pool\<close>

text \<open>The pool size: \<^verbatim>\<open>atoi\<close> of the variable converted to \<^verbatim>\<open>size_t\<close>, so that a negative value
  is a huge one, then clamped.\<close>

definition clamp_workers :: "string option \<Rightarrow> nat" where
  "clamp_workers v =
     (let n = (case v of Some s \<Rightarrow> nat (atoi s mod 2 ^ 64) | None \<Rightarrow> 4);
          n1 = (if n < 1 then 1 else n)
      in if 16 < n1 then 16 else n1)"

record upload_job =
  uj_call_id :: string
  uj_wav_data :: "byte list"
  uj_folder :: string
  uj_result :: nat

text \<open>A worker thread waits at the condition variable, works on a job, or has left its loop.\<close>

datatype 'j worker = Waiting | Working 'j | Exited

text \<open>A promise is its number; \<open>um_results\<close> lists the values set, in order.\<close>

record upload_mgr =
  um_queue :: "upload_job list"
  um_running :: bool
  um_workers :: "upload_job worker list"
  um_promises :: nat
  um_results :: "(nat \<times> bool) list"

definition new_upload_mgr :: "env \<Rightarrow> upload_mgr" where
  "new_upload_mgr ev = \<lparr>um_queue = [], um_running = True,
     um_workers = replicate (clamp_workers (ev ''UPLOAD_THREADS'')) Waiting,
     um_promises = 0, um_results = []\<rparr>"

definition push_job :: "upload_job \<Rightarrow> upload_mgr \<Rightarrow> upload_mgr" where
  "push_job j s = s\<lparr>um_queue := um_queue s @ [j]\<rparr>"

definition pop_job :: "upload_mgr \<Rightarrow> (upload_job \<times> upload_mgr) option" where
  "pop_job s = (case um_queue s of [] \<Rightarrow> None | j # js \<Rightarrow> Some (j, s\<lparr>um_queue := js\<rparr>))"

interpretation upload_queue: fifo_channel push_job pop_job um_queue
  by unfold_locales (auto simp: push_job_def pop_job_def split: list.splits)

definition submit :: "string \<Rightarrow> byte list \<Rightarrow> string \<Rightarrow> upload_mgr \<Rightarrow> nat \<times> upload_mgr" where
  "submit call_id wav folder s =
     (um_promises s,
      push_job \<lparr>uj_call_id = call_id, uj_wav_data = wav, uj_folder = folder, uj_result = um_promises s\<rparr>
        (s\<lparr>um_promises := um_promises s + 1\<rparr>))"

text \<open>One pass of a worker through the locked region: blocked (\<open>None\<close>) while the queue is empty and
  the pool runs, out of the loop when it is empty and the pool is stopped, a job otherwise.\<close>

definition worker_wake :: "nat \<Rightarrow> upload_mgr \<Rightarrow> upload_mgr option" where
  "worker_wake i s =
     (if i < length (um_workers s) \<and> um_workers s ! i = Waiting
      then (case pop_job s of
              None \<Rightarrow> if um_running s then None else Some (s\<lparr>um_workers := (um_workers s)[i := Exited]\<rparr>)
            | Some (j, s') \<Rightarrow> Some (s'\<lparr>um_workers := (um_workers s)[i := Working j]\<rparr>))
      else None)"

text \<open>The upload returns \<open>ok\<close>, or \<open>False\<close> when it threw; the job's promise gets the value.\<close>

definition worker_finish :: "nat \<Rightarrow> bool \<Rightarrow> upload_mgr \<Rightarrow> upload_mgr option" where
  "worker_finish i ok s =
     (if i < length (um_workers s)
      then (case um_workers s ! i of
              Working j \<Rightarrow> Some (s\<lparr>um_workers := (um_workers s)[i := Waiting],
                                 um_results := um_results s @ [(uj_result j, ok)]\<rparr>)
            | _ \<Rightarrow> None)
      else None)"

definition stop_uploads :: "upload_mgr \<Rightarrow> upload_mgr" where
  "stop_uploads s = s\<lparr>um_running := False\<rparr>"

text \<open>\<open>stop\<close> returns when every worker can be joined.\<close>

definition uploads_joined :: "upload_mgr \<Rightarrow> bool" where
  "uploads_joined s \<longleftrightarrow> list_all (\<lambda>w. w = Exited) (um_workers s)"

datatype um_event = Submit string "byte list" string | Wake nat | Finish nat bool | StopFlag

fun um_step :: "um_event \<Rightarrow> upload_mgr \<Rightarrow> upload_mgr option" where
  "um_step (Submit c w f) s = Some (snd (submit c w f s))"
| "um_step (Wake i) s = worker_wake i s"
| "um_step (Finish i ok) s = worker_finish i ok s"
| "um_step StopFlag s = Some (stop_uploads s)"

fun um_run :: "um_event list \<Rightarrow> upload_mgr \<Rightarrow> upload_mgr option" where
  "um_run [] s = Some s"
| "um_run (e # es) s = (case um_step e s of None \<Rightarrow> None | Some s' \<Rightarrow> um_run es s')"

section \<open>Every promise is accounted for\<close>

fun job_of :: "upload_job worker \<Rightarrow> nat list" where
  "job_of (Working j) = [uj_result j]"
| "job_of _ = []"

definition um_ids :: "upload_mgr \<Rightarrow> nat multiset" where
  "um_ids s = mset (map uj_result (um_queue s)) + mset (concat (map job_of (um_workers s)))
     + mset (map fst (um_results s))"

definition um_wf :: "upload_mgr \<Rightarrow> bool" where
  "um_wf s \<longleftrightarrow> um_ids s = mset [0..<um_promises s]"



lemma worker_wake_cases:
  assumes "worker_wake i s = Some s'"
  obtains (exit) "i < length (um_workers s)" "um_workers s ! i = Waiting" "um_queue s = []" "\<not> um_running s"
      "s' = s\<lparr>um_workers := (um_workers s)[i := Exited]\<rparr>"
    | (job) j js where "i < length (um_workers s)" "um_workers s ! i = Waiting" "um_queue s = j # js"
      "s' = s\<lparr>um_queue := js, um_workers := (um_workers s)[i := Working j]\<rparr>"
  using assms
  by (auto simp: worker_wake_def pop_job_def split: if_splits option.splits list.splits)

lemma worker_finish_cases:
  assumes "worker_finish i ok s = Some s'"
  obtains j where "i < length (um_workers s)" "um_workers s ! i = Working j"
      "s' = s\<lparr>um_workers := (um_workers s)[i := Waiting], um_results := um_results s @ [(uj_result j, ok)]\<rparr>"
  using assms by (auto simp: worker_finish_def split: if_splits worker.splits)

lemma um_step_wf: "um_wf s \<Longrightarrow> um_step e s = Some s' \<Longrightarrow> um_wf s'"
proof (cases e)
  case (Submit c w f)
  assume "um_wf s" and "um_step e s = Some s'"
  with Submit show ?thesis by (auto simp: um_wf_def um_ids_def submit_def push_job_def atLeast0_lessThan_Suc)
next
  case (Wake i)
  assume wf: "um_wf s" and st: "um_step e s = Some s'"
  from st Wake have "worker_wake i s = Some s'" by simp
  then show ?thesis
  proof (cases rule: worker_wake_cases)
    case exit
    with wf mset_concat_update [OF exit(1), of job_of Exited] show ?thesis
      by (simp add: um_wf_def um_ids_def)
  next
    case (job j js)
    with wf mset_concat_update [OF job(1), of job_of "Working j"] show ?thesis
      by (simp add: um_wf_def um_ids_def)
  qed
next
  case (Finish i ok)
  assume wf: "um_wf s" and st: "um_step e s = Some s'"
  from st Finish have "worker_finish i ok s = Some s'" by simp
  then obtain j where j: "i < length (um_workers s)" "um_workers s ! i = Working j"
      "s' = s\<lparr>um_workers := (um_workers s)[i := Waiting], um_results := um_results s @ [(uj_result j, ok)]\<rparr>"
    by (rule worker_finish_cases)
  have "mset (concat (map job_of (um_workers s)))
      = add_mset (uj_result j) (mset (concat (map job_of ((um_workers s)[i := Waiting]))))"
    using mset_concat_update [OF j(1), of job_of Waiting] j(2) by simp
  with wf j(3) show ?thesis by (simp add: um_wf_def um_ids_def)
next
  case StopFlag
  assume "um_wf s" and "um_step e s = Some s'"
  with StopFlag show ?thesis by (auto simp: um_wf_def um_ids_def stop_uploads_def)
qed

lemma um_run_wf: "um_wf s \<Longrightarrow> um_run es s = Some s' \<Longrightarrow> um_wf s'"
  by (induction es arbitrary: s) (auto split: option.splits dest: um_step_wf)

lemma um_run_append:
  "um_run (es @ fs) s = (case um_run es s of None \<Rightarrow> None | Some s' \<Rightarrow> um_run fs s')"
  by (induction es arbitrary: s) (auto split: option.splits)

text \<open>Workers leave only after the stop, and only when the queue is empty.\<close>

definition running_wf :: "upload_mgr \<Rightarrow> bool" where
  "running_wf s \<longleftrightarrow> um_running s \<and> Exited \<notin> set (um_workers s)"

definition drained_wf :: "upload_mgr \<Rightarrow> bool" where
  "drained_wf s \<longleftrightarrow> \<not> um_running s \<and> (Exited \<in> set (um_workers s) \<longrightarrow> um_queue s = [])"

lemma um_step_running:
  "running_wf s \<Longrightarrow> um_step e s = Some s' \<Longrightarrow> e \<noteq> StopFlag \<Longrightarrow> running_wf s'"
  by (cases e) (auto simp: running_wf_def submit_def push_job_def
      elim!: worker_wake_cases worker_finish_cases dest!: set_update_subset_insert [THEN subsetD])

fun is_submit :: "um_event \<Rightarrow> bool" where
  "is_submit (Submit c w f) = True"
| "is_submit _ = False"

lemma um_step_drained:
  "drained_wf s \<Longrightarrow> um_step e s = Some s' \<Longrightarrow> \<not> is_submit e \<Longrightarrow> drained_wf s'"
  by (cases e) (auto simp: drained_wf_def stop_uploads_def
      elim!: worker_wake_cases worker_finish_cases dest!: set_update_subset_insert [THEN subsetD])

lemma um_run_running:
  "running_wf s \<Longrightarrow> um_run es s = Some s' \<Longrightarrow> StopFlag \<notin> set es \<Longrightarrow> running_wf s'"
  by (induction es arbitrary: s) (auto split: option.splits dest: um_step_running)

lemma um_run_drained:
  "drained_wf s \<Longrightarrow> um_run es s = Some s' \<Longrightarrow> list_all (\<lambda>e. \<not> is_submit e) es \<Longrightarrow> drained_wf s'"
  by (induction es arbitrary: s) (auto split: option.splits dest: um_step_drained)

lemma um_step_length: "um_step e s = Some s' \<Longrightarrow> length (um_workers s') = length (um_workers s)"
  by (cases e) (auto simp: submit_def push_job_def stop_uploads_def
      elim!: worker_wake_cases worker_finish_cases)

lemma um_run_length: "um_run es s = Some s' \<Longrightarrow> length (um_workers s') = length (um_workers s)"
  by (induction es arbitrary: s) (auto split: option.splits dest: um_step_length)

lemma clamp_workers_bounds: "1 \<le> clamp_workers v \<and> clamp_workers v \<le> 16"
  by (auto simp: clamp_workers_def Let_def)

lemma new_upload_mgr_wf: "um_wf (new_upload_mgr ev)" "running_wf (new_upload_mgr ev)"
  by (auto simp: um_wf_def um_ids_def new_upload_mgr_def running_wf_def)






section \<open>The body\<close>

lemma pull_body_eq:
  "ctx_offset ctx \<le> length (ctx_data ctx) \<Longrightarrow>
   fst (pull_body ns ctx) = take (sum_list ns) (drop (ctx_offset ctx) (ctx_data ctx))"
proof (induction ns arbitrary: ctx)
  case Nil
  then show ?case by simp
next
  case (Cons n ns)
  let ?k = "min n (length (ctx_data ctx) - ctx_offset ctx)"
  have r: "ReadCallback (Suc 0) n ctx = (take ?k (drop (ctx_offset ctx) (ctx_data ctx)),
      ctx\<lparr>ctx_offset := ctx_offset ctx + ?k\<rparr>)"
    by (auto simp: ReadCallback_def Let_def)
  have "fst (pull_body ns (ctx\<lparr>ctx_offset := ctx_offset ctx + ?k\<rparr>))
      = take (sum_list ns) (drop (ctx_offset ctx + ?k) (ctx_data ctx))"
    using Cons.prems by (subst Cons.IH) auto
  then have "fst (pull_body (n # ns) ctx) = take ?k (drop (ctx_offset ctx) (ctx_data ctx))
      @ take (sum_list ns) (drop (ctx_offset ctx + ?k) (ctx_data ctx))"
    by (simp add: r split_beta)
  then show ?case
    by (cases "n \<le> length (ctx_data ctx) - ctx_offset ctx") (auto simp: take_add add.commute)
qed

section \<open>Properties\<close>

text \<open>C8: An upload succeeds exactly when one of its first \<open>max_retries\<close> requests is answered with
  \<^verbatim>\<open>CURLE_OK\<close> and 200; it sends the signed requests of the attempts up to that one and no other,
  pausing 2, 4, 8, ... seconds between consecutive ones.\<close>

theorem upload_retries:
  assumes "uploadWithHandle True cr c dates net call_id wav folder n = (ok, es)"
  shows "(ok \<longleftrightarrow> (\<exists>i. 0 < i \<and> i \<le> n \<and> fst (net i) \<and> snd (net i) = 200))
    \<and> length (puts es) \<le> n
    \<and> puts es = map (\<lambda>i. s3_request cr c call_id folder wav (dates i)) [1 ..< Suc (length (puts es))]
    \<and> pauses es = map (\<lambda>i. 2 ^ i) [1 ..< length (puts es)]"
proof -
  let ?mk = "\<lambda>i. s3_request cr c call_id folder wav (dates i)"
  have l: "upload_loop ?mk net 1 n = (ok, es)" using assms by (simp add: uploadWithHandle_def)
  have run: "upload_run ?mk n (accepted net) = (ok, length (puts es))"
    using upload_loop_run [of ?mk net n] l by simp
  have "ok \<longleftrightarrow> (\<exists>i. 0 < i \<and> i \<le> n \<and> accepted net i)"
    using upload.succeeds_iff [of ?mk n "accepted net"] run by simp
  moreover have "length (puts es) \<le> n"
    using upload.attempts_le [of ?mk n "accepted net"] run by simp
  moreover have "puts es = map ?mk [1 ..< Suc (length (puts es))]"
    using upload_loop_result [OF l] by (cases ok) (auto simp del: upt_Suc)
  moreover have "pauses es = map (\<lambda>i. 2 ^ i) [1 ..< length (puts es)]"
  proof (cases "length (puts es)")
    case 0
    then have "n = 0" using upload_loop_result [OF l] by (cases ok) (auto simp del: upt_Suc)
    with l 0 show ?thesis by auto
  next
    case (Suc k)
    have "pauses es = map (\<lambda>i. 2 * 2 ^ (i - 1)) [1 ..< 1 + k]" by (rule upload_loop_pauses [OF l Suc])
    also have "\<dots> = map (\<lambda>i. 2 ^ i) [1 ..< 1 + k]"
      by (rule map_cong) (auto simp: power_eq_if)
    finally show ?thesis using Suc by simp
  qed
  ultimately show ?thesis by (simp add: accepted_def)
qed

definition demo_crypto :: crypto where
  "demo_crypto = \<lparr>HMAC_SHA256 = (\<lambda>k d. take 4 (d @ k)), SHA256_raw = take 4, MD5_raw = (\<lambda>_. ''m''),
     BIO_base64 = (\<lambda>s. s)\<rparr>"

lemma upload_retries_witness:
  "(let r = uploadWithHandle True demo_crypto (aws_config_of Map.empty) (\<lambda>_. ''20250101T000000Z'')
        (\<lambda>i. (True, if i = 3 then 200 else 503)) ''c1'' [1, 2] ''sip_recordings'' 3
    in fst r \<and> pauses (snd r) = map (\<lambda>i. 2 ^ i) [1 ..< length (puts (snd r))])"
proof -
  let ?r = "uploadWithHandle True demo_crypto (aws_config_of Map.empty) (\<lambda>_. ''20250101T000000Z'')
        (\<lambda>i. (True, if i = 3 then 200 else 503)) ''c1'' [1, 2] ''sip_recordings'' 3"
  have "\<exists>i :: nat. 0 < i \<and> i \<le> 3 \<and> i = 3" by simp
  with upload_retries [of demo_crypto "aws_config_of Map.empty" "\<lambda>_. ''20250101T000000Z''"
      "\<lambda>i. (True, if i = 3 then 200 else 503)" "''c1''" "[1, 2]" "''sip_recordings''" 3 "fst ?r" "snd ?r"]
  show ?thesis by (simp add: Let_def)
qed

text \<open>C9: When the upload pool is stopped and nothing is submitted afterwards, then once all workers
  are joined every promise ever handed out has been given exactly one value: no recording is
  abandoned and none is uploaded for twice.\<close>

theorem upload_pool_drains:
  assumes "um_run (before @ StopFlag # after) (new_upload_mgr ev) = Some s"
    and "StopFlag \<notin> set before" and "list_all (\<lambda>e. \<not> is_submit e) after"
    and "uploads_joined s"
  shows "mset (map fst (um_results s)) = mset [0..<um_promises s]"
proof -
  from assms(1) obtain s1 where s1: "um_run before (new_upload_mgr ev) = Some s1"
    "um_run after (stop_uploads s1) = Some s"
    by (auto simp: um_run_append split: option.splits)
  have "running_wf s1" by (rule um_run_running [OF new_upload_mgr_wf(2) s1(1) assms(2)])
  then have "drained_wf (stop_uploads s1)"
    by (simp add: running_wf_def drained_wf_def stop_uploads_def)
  then have d: "drained_wf s" by (rule um_run_drained [OF _ s1(2) assms(3)])
  have wf: "um_wf s" by (rule um_run_wf [OF new_upload_mgr_wf(1) assms(1)])
  have len: "0 < length (um_workers s)"
    using um_run_length [OF assms(1)] clamp_workers_bounds [of "ev ''UPLOAD_THREADS''"]
    by (simp add: new_upload_mgr_def)
  then have "Exited \<in> set (um_workers s)"
    using assms(4) by (cases "um_workers s") (auto simp: uploads_joined_def)
  with d have q: "um_queue s = []" by (simp add: drained_wf_def)
  have "concat (map job_of (um_workers s)) = []"
    using assms(4) by (auto simp: uploads_joined_def list_all_iff)
  with wf q show ?thesis by (simp add: um_wf_def um_ids_def)
qed

lemma upload_pool_drains_witness:
  "\<exists>s. um_run ([Submit ''c'' [] ''f'', Submit ''d'' [] ''f'', Wake 0] @ StopFlag #
      [Finish 0 True, Wake 0, Finish 0 False, Wake 0]) (new_upload_mgr [''UPLOAD_THREADS'' \<mapsto> ''1'']) = Some s
    \<and> mset (map fst (um_results s)) = mset [0..<um_promises s]"
proof -
  have ev: "clamp_workers (Some ''1'') = 1"
    by (simp add: clamp_workers_def atoi_def parse_int_def is_space_def is_digit_def digit_val_def Let_def)
  have "um_run ([Submit ''c'' [] ''f'', Submit ''d'' [] ''f'', Wake 0] @ StopFlag #
      [Finish 0 True, Wake 0, Finish 0 False, Wake 0]) (new_upload_mgr [''UPLOAD_THREADS'' \<mapsto> ''1''])
    = Some \<lparr>um_queue = [], um_running = False, um_workers = [Exited], um_promises = 2,
            um_results = [(0, True), (1, False)]\<rparr>" (is "?run = Some ?s")
    by (simp add: new_upload_mgr_def ev submit_def push_job_def pop_job_def worker_wake_def
        worker_finish_def stop_uploads_def)
  moreover from upload_pool_drains [OF this]
  have "mset (map fst (um_results ?s)) = mset [0..<um_promises ?s]"
    by (simp add: uploads_joined_def)
  ultimately show ?thesis by blast
qed



text \<open>Whatever read sizes libcurl asks for, the body it pulls through \<^verbatim>\<open>ReadCallback\<close> is a prefix
  of the WAV data, as long as what was asked for, and the whole of it once enough was asked for.\<close>

lemma upload_body:
  "fst (pull_body sizes \<lparr>ctx_data = wav, ctx_offset = 0\<rparr>) = take (sum_list sizes) wav"
  by (subst pull_body_eq) simp_all

end
