(* ===== verification/Webhook.thy ===== *)
theory Webhook
  imports Uploader
begin

text \<open>
  \<^verbatim>\<open>WebhookManager\<close>: one queue and one worker per shard, the shard chosen by the hash of the call
  id, three attempts per event. \<^verbatim>\<open>std::hash\<close> is a function argument. A worker thread is, in turn,
  at its loop head, in the locked region, between two POSTs of an event, or gone.
\<close>

record webhook_data =
  wd_url :: string
  wd_json :: string

datatype wh_worker = AtHead | AtWait | Posting webhook_data nat | Gone

record webhook_mgr =
  wm_queues :: "webhook_data list list"
  wm_workers :: "wh_worker list"
  wm_running :: bool
  wm_posts :: "(nat \<times> webhook_data) list"

definition MAX_WEBHOOK_RETRIES :: nat where "MAX_WEBHOOK_RETRIES = 3"

definition new_webhook_mgr :: "env \<Rightarrow> webhook_mgr" where
  "new_webhook_mgr ev =
     (let n = clamp_workers (ev ''WEBHOOK_THREADS'')
      in \<lparr>wm_queues = replicate n [], wm_workers = replicate n AtHead, wm_running = True, wm_posts = []\<rparr>)"

definition shard_of :: "(string \<Rightarrow> nat) \<Rightarrow> nat \<Rightarrow> string \<Rightarrow> nat" where
  "shard_of hash num_workers key = hash key mod num_workers"

definition push_shard :: "nat \<Rightarrow> webhook_data \<Rightarrow> webhook_mgr \<Rightarrow> webhook_mgr" where
  "push_shard i d s = s\<lparr>wm_queues := (wm_queues s)[i := wm_queues s ! i @ [d]]\<rparr>"

definition send_webhook :: "(string \<Rightarrow> nat) \<Rightarrow> string \<Rightarrow> string \<Rightarrow> string \<Rightarrow> webhook_mgr \<Rightarrow> webhook_mgr" where
  "send_webhook hash key url json s =
     push_shard (shard_of hash (length (wm_queues s)) key) \<lparr>wd_url = url, wd_json = json\<rparr> s"

definition stop_webhooks :: "webhook_mgr \<Rightarrow> webhook_mgr" where
  "stop_webhooks s = s\<lparr>wm_running := False\<rparr>"

definition set_worker :: "nat \<Rightarrow> wh_worker \<Rightarrow> webhook_mgr \<Rightarrow> webhook_mgr" where
  "set_worker i w s = s\<lparr>wm_workers := (wm_workers s)[i := w]\<rparr>"

text \<open>\<^verbatim>\<open>while (running_)\<close>.\<close>

definition wh_check :: "nat \<Rightarrow> webhook_mgr \<Rightarrow> webhook_mgr option" where
  "wh_check i s =
     (if i < length (wm_workers s) \<and> wm_workers s ! i = AtHead
      then Some (set_worker i (if wm_running s then AtWait else Gone) s) else None)"

text \<open>The locked region: blocked while the shard is empty and the manager runs. An event with an
  empty URL is dropped.\<close>

definition wh_grab :: "nat \<Rightarrow> webhook_mgr \<Rightarrow> webhook_mgr option" where
  "wh_grab i s =
     (if i < length (wm_workers s) \<and> wm_workers s ! i = AtWait
      then (case wm_queues s ! i of
              [] \<Rightarrow> if wm_running s then None else Some (set_worker i Gone s)
            | d # ds \<Rightarrow> Some (set_worker i (if wd_url d = [] then AtHead else Posting d 0)
                          (s\<lparr>wm_queues := (wm_queues s)[i := ds]\<rparr>)))
      else None)"

text \<open>One pass of the attempt loop with the outcome of the POST, and leaving the loop.\<close>

definition may_post :: "nat \<Rightarrow> webhook_mgr \<Rightarrow> bool" where
  "may_post attempts s \<longleftrightarrow> attempts < MAX_WEBHOOK_RETRIES \<and> wm_running s"

definition wh_post :: "nat \<Rightarrow> bool \<Rightarrow> webhook_mgr \<Rightarrow> webhook_mgr option" where
  "wh_post i success s =
     (if i < length (wm_workers s)
      then (case wm_workers s ! i of
              Posting d attempts \<Rightarrow>
                if may_post attempts s
                then Some (set_worker i (if success then AtHead else Posting d (attempts + 1))
                       (s\<lparr>wm_posts := wm_posts s @ [(i, d)]\<rparr>))
                else None
            | _ \<Rightarrow> None)
      else None)"

definition wh_leave :: "nat \<Rightarrow> webhook_mgr \<Rightarrow> webhook_mgr option" where
  "wh_leave i s =
     (if i < length (wm_workers s)
      then (case wm_workers s ! i of
              Posting d attempts \<Rightarrow> if may_post attempts s then None else Some (set_worker i AtHead s)
            | _ \<Rightarrow> None)
      else None)"

datatype wh_event = Send string string string | Check nat | Grab nat | Post nat bool | Leave nat | Halt

fun wh_step :: "(string \<Rightarrow> nat) \<Rightarrow> wh_event \<Rightarrow> webhook_mgr \<Rightarrow> webhook_mgr option" where
  "wh_step hash (Send key url json) s = Some (send_webhook hash key url json s)"
| "wh_step hash (Check i) s = wh_check i s"
| "wh_step hash (Grab i) s = wh_grab i s"
| "wh_step hash (Post i ok) s = wh_post i ok s"
| "wh_step hash (Leave i) s = wh_leave i s"
| "wh_step hash Halt s = Some (stop_webhooks s)"

fun wh_run :: "(string \<Rightarrow> nat) \<Rightarrow> wh_event list \<Rightarrow> webhook_mgr \<Rightarrow> webhook_mgr option" where
  "wh_run hash [] s = Some s"
| "wh_run hash (e # es) s = (case wh_step hash e s of None \<Rightarrow> None | Some s' \<Rightarrow> wh_run hash es s')"

section \<open>Three attempts\<close>

text \<open>Worker \<open>i\<close> running alone on its current event; \<open>f n\<close> is the outcome of the \<open>n\<close>-th POST. Four
  units of fuel cover the three attempts and the exit.\<close>

fun deliver :: "nat \<Rightarrow> (nat \<Rightarrow> bool) \<Rightarrow> nat \<Rightarrow> webhook_mgr \<Rightarrow> bool \<times> webhook_mgr" where
  "deliver i f 0 s = (False, s)"
| "deliver i f (Suc fuel) s =
     (case wm_workers s ! i of
        Posting d n \<Rightarrow>
          (case wh_post i (f (Suc n)) s of
             Some s' \<Rightarrow> if f (Suc n) then (True, s') else deliver i f fuel s'
           | None \<Rightarrow> (False, case wh_leave i s of Some s' \<Rightarrow> s' | None \<Rightarrow> s))
      | _ \<Rightarrow> (False, s))"

definition posting_one :: "webhook_data \<Rightarrow> webhook_mgr" where
  "posting_one d = \<lparr>wm_queues = [[]], wm_workers = [Posting d 0], wm_running = True, wm_posts = []\<rparr>"

definition deliver_run :: "webhook_data \<Rightarrow> (nat \<Rightarrow> bool) \<Rightarrow> bool \<times> nat" where
  "deliver_run d f = (let r = deliver 0 f 4 (posting_one d) in (fst r, length (wm_posts (snd r))))"

lemma deliver_run_eq:
  "deliver_run d f = (if f 1 then (True, 1) else if f 2 then (True, 2) else (f 3, 3))"
  by (simp add: deliver_run_def posting_one_def eval_nat_numeral wh_post_def wh_leave_def may_post_def
      set_worker_def MAX_WEBHOOK_RETRIES_def)

lemma below_4: "(\<forall>i :: nat. 0 < i \<and> i \<le> 3 \<longrightarrow> P i) \<longleftrightarrow> P 1 \<and> P 2 \<and> P 3"
proof
  assume p: "P 1 \<and> P 2 \<and> P 3"
  show "\<forall>i. 0 < i \<and> i \<le> 3 \<longrightarrow> P i"
  proof (intro allI impI)
    fix i :: nat assume "0 < i \<and> i \<le> 3"
    then have "i = 1 \<or> i = 2 \<or> i = 3" by arith
    with p show "P i" by auto
  qed
qed simp

interpretation webhook: bounded_retry "deliver_run d" 3 for d
proof unfold_locales
  fix f
  show "snd (deliver_run d f) \<le> 3" by (simp add: deliver_run_eq)
  show "0 < snd (deliver_run d f) \<and> f (snd (deliver_run d f))
      \<and> (\<forall>i. 0 < i \<and> i < snd (deliver_run d f) \<longrightarrow> \<not> f i)" if "fst (deliver_run d f)"
  proof -
    have two: "0 < i \<and> i < 2 \<longleftrightarrow> i = 1" and three: "0 < i \<and> i < 3 \<longleftrightarrow> i = 1 \<or> i = 2" for i :: nat
      by arith+
    from that show ?thesis by (auto simp: deliver_run_eq two three split: if_splits)
  qed
  show "snd (deliver_run d f) = 3 \<and> (\<forall>i. 0 < i \<and> i \<le> 3 \<longrightarrow> \<not> f i)" if "\<not> fst (deliver_run d f)"
    using that unfolding below_4 by (auto simp: deliver_run_eq split: if_splits)
qed

lemma webhook_outcome:
  "fst (deliver_run d f) \<longleftrightarrow> (\<exists>i. 0 < i \<and> i \<le> 3 \<and> f i)"
  by (rule webhook.succeeds_iff)

section \<open>Order of delivery\<close>

text \<open>The events sent to a shard, in order.\<close>

fun sent_by :: "(string \<Rightarrow> nat) \<Rightarrow> nat \<Rightarrow> nat \<Rightarrow> wh_event \<Rightarrow> webhook_data list" where
  "sent_by hash n i (Send key url json) =
     (if shard_of hash n key = i then [\<lparr>wd_url = url, wd_json = json\<rparr>] else [])"
| "sent_by hash n i _ = []"

definition sent :: "(string \<Rightarrow> nat) \<Rightarrow> nat \<Rightarrow> nat \<Rightarrow> wh_event list \<Rightarrow> webhook_data list" where
  "sent hash n i es = concat (map (sent_by hash n i) es)"

definition posts_of :: "nat \<Rightarrow> webhook_mgr \<Rightarrow> webhook_data list" where
  "posts_of i s = map snd (filter (\<lambda>p. fst p = i) (wm_posts s))"

text \<open>\<open>ks\<close> counts the POSTs of the events taken so far.\<close>

fun repeats :: "nat list \<Rightarrow> webhook_data list \<Rightarrow> webhook_data list" where
  "repeats (k # ks) (d # ds) = replicate k d @ repeats ks ds"
| "repeats _ _ = []"

definition shard_inv :: "nat \<Rightarrow> webhook_data list \<Rightarrow> webhook_mgr \<Rightarrow> bool" where
  "shard_inv i hist s \<longleftrightarrow> (\<exists>ks. list_all (\<lambda>k. k \<le> MAX_WEBHOOK_RETRIES) ks \<and> length ks \<le> length hist
     \<and> wm_queues s ! i = drop (length ks) hist \<and> posts_of i s = repeats ks hist
     \<and> (\<forall>d n. wm_workers s ! i = Posting d n \<longrightarrow>
          ks \<noteq> [] \<and> last ks = n \<and> hist ! (length ks - 1) = d))"

definition wm_shape :: "webhook_mgr \<Rightarrow> bool" where
  "wm_shape s \<longleftrightarrow> 0 < length (wm_queues s) \<and> length (wm_workers s) = length (wm_queues s)"

lemma repeats_append: "length ks \<le> length ds \<Longrightarrow> repeats ks (ds @ es) = repeats ks ds"
  by (induction ks ds rule: repeats.induct) auto

lemma repeats_snoc:
  "length ks < length ds \<Longrightarrow> repeats (ks @ [k]) ds = repeats ks ds @ replicate k (ds ! length ks)"
proof (induction ks arbitrary: ds)
  case Nil
  then show ?case by (cases ds) auto
next
  case (Cons j ks)
  then show ?case by (cases ds) auto
qed

lemma repeats_more:
  assumes "ks \<noteq> []" and "length ks \<le> length ds"
  shows "repeats (butlast ks @ [Suc (last ks)]) ds = repeats ks ds @ [ds ! (length ks - 1)]"
proof -
  have l: "length (butlast ks) < length ds" using assms by (cases ks) auto
  have "ks = butlast ks @ [last ks]" using assms(1) by simp
  then have "repeats ks ds = repeats (butlast ks) ds @ replicate (last ks) (ds ! length (butlast ks))"
    using repeats_snoc [OF l, of "last ks"] by simp
  with repeats_snoc [OF l, of "Suc (last ks)"] show ?thesis
    by (simp add: replicate_append_same)
qed

lemma posts_of_post: "posts_of i (s\<lparr>wm_posts := wm_posts s @ [(j, d)]\<rparr>)
    = posts_of i s @ (if j = i then [d] else [])"
  by (simp add: posts_of_def)

lemma posts_of_cong: "wm_posts s' = wm_posts s \<Longrightarrow> posts_of i s' = posts_of i s"
  by (simp add: posts_of_def)

lemma wh_step_shape: "wm_shape s \<Longrightarrow> wh_step hash e s = Some s' \<Longrightarrow>
   wm_shape s' \<and> length (wm_queues s') = length (wm_queues s)"
  by (cases e) (auto simp: wm_shape_def send_webhook_def push_shard_def stop_webhooks_def wh_check_def
      wh_grab_def wh_post_def wh_leave_def set_worker_def
      split: if_splits list.splits wh_worker.splits)

lemma shard_inv_same:
  assumes "shard_inv i hist s" and "wm_queues s' ! i = wm_queues s ! i" and "posts_of i s' = posts_of i s"
    and "wm_workers s' ! i = wm_workers s ! i \<or> (\<forall>d n. wm_workers s' ! i \<noteq> Posting d n)"
  shows "shard_inv i hist s'"
  using assms unfolding shard_inv_def by metis

lemma shard_inv_send:
  assumes "shard_inv i hist s" and "wm_queues s' ! i = wm_queues s ! i @ new" and "posts_of i s' = posts_of i s"
    and "wm_workers s' ! i = wm_workers s ! i"
  shows "shard_inv i (hist @ new) s'"
proof -
  from assms(1) obtain ks where ks: "list_all (\<lambda>k. k \<le> MAX_WEBHOOK_RETRIES) ks" "length ks \<le> length hist"
     "wm_queues s ! i = drop (length ks) hist" "posts_of i s = repeats ks hist"
     "\<And>d n. wm_workers s ! i = Posting d n \<Longrightarrow> ks \<noteq> [] \<and> last ks = n \<and> hist ! (length ks - 1) = d"
    unfolding shard_inv_def by blast
  have h: "(hist @ new) ! (length ks - 1) = hist ! (length ks - 1)" if "ks \<noteq> []"
    using that ks(2) by (cases ks) (auto simp: nth_append)
  show ?thesis unfolding shard_inv_def
    using ks assms(2-4) h by (intro exI [of _ ks]) (auto simp: repeats_append)
qed

lemma shard_inv_take:
  assumes "shard_inv i hist s" and "wm_queues s ! i = d # ds" and "wm_queues s' ! i = ds"
    and "posts_of i s' = posts_of i s" and "wm_workers s' ! i = Posting d 0 \<or> wm_workers s' ! i = AtHead"
  shows "shard_inv i hist s'"
proof -
  from assms(1) obtain ks where ks: "list_all (\<lambda>k. k \<le> MAX_WEBHOOK_RETRIES) ks" "length ks \<le> length hist"
     "wm_queues s ! i = drop (length ks) hist" "posts_of i s = repeats ks hist"
    unfolding shard_inv_def by blast
  from ks(3) assms(2) have d: "drop (length ks) hist = d # ds" by simp
  then have l: "length ks < length hist" by (metis drop_eq_Nil leI list.discI)
  from d l have hd: "hist ! length ks = d" and tl: "drop (Suc (length ks)) hist = ds"
    by (metis Cons_nth_drop_Suc list.inject)+
  show ?thesis unfolding shard_inv_def
    using ks assms(3-5) l hd tl
    by (intro exI [of _ "ks @ [0]"]) (auto simp: repeats_snoc MAX_WEBHOOK_RETRIES_def)
qed

lemma shard_inv_post:
  assumes "shard_inv i hist s" and "wm_workers s ! i = Posting d n" and "n < MAX_WEBHOOK_RETRIES"
    and "wm_queues s' ! i = wm_queues s ! i" and "posts_of i s' = posts_of i s @ [d]"
    and "wm_workers s' ! i = Posting d (Suc n) \<or> wm_workers s' ! i = AtHead"
  shows "shard_inv i hist s'"
proof -
  from assms(1,2) obtain ks where ks: "list_all (\<lambda>k. k \<le> MAX_WEBHOOK_RETRIES) ks" "length ks \<le> length hist"
     "wm_queues s ! i = drop (length ks) hist" "posts_of i s = repeats ks hist"
     "ks \<noteq> []" "last ks = n" "hist ! (length ks - 1) = d"
    unfolding shard_inv_def by blast
  let ?ks = "butlast ks @ [Suc (last ks)]"
  have len: "length ?ks = length ks" using ks(5) by simp
  have b: "list_all (\<lambda>k. k \<le> MAX_WEBHOOK_RETRIES) (butlast ks)"
    using ks(1) by (auto simp: list_all_iff dest: in_set_butlastD)
  show ?thesis unfolding shard_inv_def
    using ks assms(3-6) len b repeats_more [OF ks(5,2)]
    by (intro exI [of _ ?ks]) (auto simp del: length_append length_butlast)
qed

lemma set_worker_fields [simp]:
  "wm_queues (set_worker i w s) = wm_queues s" "wm_posts (set_worker i w s) = wm_posts s"
  "wm_running (set_worker i w s) = wm_running s"
  "wm_workers (set_worker i w s) = (wm_workers s)[i := w]"
  by (simp_all add: set_worker_def)

lemma wh_step_inv:
  assumes "wm_shape s" and "i < length (wm_queues s)" and "shard_inv i hist s"
    and "wh_step hash e s = Some s'"
  shows "shard_inv i (hist @ sent_by hash (length (wm_queues s)) i e) s'"
proof -
  have wl: "length (wm_workers s) = length (wm_queues s)" using assms(1) by (simp add: wm_shape_def)
  show ?thesis
  proof (cases e)
    case (Send key url json)
    with assms(2,4) show ?thesis
      by (intro shard_inv_send [OF assms(3)])
        (auto simp: send_webhook_def push_shard_def posts_of_def nth_list_update)
  next
    case (Check j)
    with assms(2,4) wl show ?thesis
      by (auto simp: wh_check_def nth_list_update split: if_splits
          intro!: shard_inv_same [OF assms(3)] posts_of_cong)
  next
    case (Grab j)
    show ?thesis
    proof (cases "wm_queues s ! j")
      case Nil
      with Grab assms(2,4) wl show ?thesis
        by (auto simp: wh_grab_def nth_list_update split: if_splits
            intro!: shard_inv_same [OF assms(3)] posts_of_cong)
    next
      case (Cons d ds)
      show ?thesis
      proof (cases "j = i")
        case True
        with Grab Cons assms(2,4) wl show ?thesis
          by (auto simp: wh_grab_def split: if_splits
              intro!: shard_inv_take [OF assms(3), of d ds] posts_of_cong)
      next
        case False
        with Grab Cons assms(2,4) wl show ?thesis
          by (auto simp: wh_grab_def nth_list_update split: if_splits
              intro!: shard_inv_same [OF assms(3)] posts_of_cong)
      qed
    qed
  next
    case (Post j ok)
    then obtain d n where j: "j < length (wm_workers s)" "wm_workers s ! j = Posting d n" "may_post n s"
      "s' = set_worker j (if ok then AtHead else Posting d (n + 1)) (s\<lparr>wm_posts := wm_posts s @ [(j, d)]\<rparr>)"
      using assms(4) by (auto simp: wh_post_def split: if_splits wh_worker.splits)
    show ?thesis
    proof (cases "j = i")
      case True
      with j Post show ?thesis
        by (auto simp: may_post_def posts_of_def intro!: shard_inv_post [OF assms(3), of d n])
    next
      case False
      with j Post show ?thesis
        by (auto simp: posts_of_def intro!: shard_inv_same [OF assms(3)])
    qed
  next
    case (Leave j)
    then obtain d n where "j < length (wm_workers s)" "wm_workers s ! j = Posting d n"
      "s' = set_worker j AtHead s"
      using assms(4) by (auto simp: wh_leave_def split: if_splits wh_worker.splits)
    with Leave show ?thesis
      by (auto simp: nth_list_update split: if_splits
          intro!: shard_inv_same [OF assms(3)] posts_of_cong)
  next
    case Halt
    with assms(4) show ?thesis
      by (auto simp: stop_webhooks_def intro!: shard_inv_same [OF assms(3)] posts_of_cong)
  qed
qed

lemma wh_run_inv:
  assumes "wm_shape s" and "i < length (wm_queues s)" and "shard_inv i hist s"
    and "wh_run hash es s = Some s'"
  shows "shard_inv i (hist @ sent hash (length (wm_queues s)) i es) s'"
  using assms
proof (induction es arbitrary: s hist)
  case Nil
  then show ?case by (simp add: sent_def)
next
  case (Cons e es)
  then obtain t where t: "wh_step hash e s = Some t" "wh_run hash es t = Some s'"
    by (auto split: option.splits)
  with wh_step_shape [OF Cons.prems(1) t(1)] Cons.IH [of t "hist @ sent_by hash (length (wm_queues s)) i e"]
    wh_step_inv [OF Cons.prems(1-3) t(1)] Cons.prems(2)
  show ?case by (simp add: sent_def)
qed

lemma new_webhook_mgr_shape:
  "wm_shape (new_webhook_mgr ev)"
  "length (wm_queues (new_webhook_mgr ev)) = clamp_workers (ev ''WEBHOOK_THREADS'')"
  using clamp_workers_bounds [of "ev ''WEBHOOK_THREADS''"]
  by (simp_all add: wm_shape_def new_webhook_mgr_def Let_def)

lemma new_webhook_mgr_inv:
  "i < clamp_workers (ev ''WEBHOOK_THREADS'') \<Longrightarrow> shard_inv i [] (new_webhook_mgr ev)"
  by (auto simp: shard_inv_def new_webhook_mgr_def posts_of_def Let_def)

lemma wh_step_stopped:
  "\<not> wm_running s \<Longrightarrow> wh_step hash e s = Some s' \<Longrightarrow> \<not> wm_running s' \<and> wm_posts s' = wm_posts s"
  by (cases e) (auto simp: send_webhook_def push_shard_def stop_webhooks_def wh_check_def wh_grab_def
      wh_post_def wh_leave_def may_post_def set_worker_def split: if_splits list.splits wh_worker.splits)

lemma wh_run_stopped: "\<not> wm_running s \<Longrightarrow> wh_run hash es s = Some s' \<Longrightarrow> wm_posts s' = wm_posts s"
proof (induction es arbitrary: s)
  case (Cons e es)
  from Cons.prems(2) obtain u where u: "wh_step hash e s = Some u" "wh_run hash es u = Some s'"
    by (auto split: option.splits)
  with wh_step_stopped [OF Cons.prems(1) u(1)] Cons.IH [of u] show ?case by simp
qed simp

section \<open>Properties\<close>

text \<open>C11: Per-call order: whatever the interleaving of producers and workers, the POSTs of a shard are
  those of the events sent to it, in the order they were sent, each event at most three times
  in a row; what is not yet taken waits in the queue in order. Events of one call share a shard.\<close>

theorem webhook_order:
  assumes "wh_run hash es (new_webhook_mgr ev) = Some s"
    and "n = clamp_workers (ev ''WEBHOOK_THREADS'')" and "i = shard_of hash n key"
  shows "\<exists>ks. list_all (\<lambda>k. k \<le> 3) ks \<and> length ks \<le> length (sent hash n i es)
    \<and> posts_of i s = repeats ks (sent hash n i es)
    \<and> wm_queues s ! i = drop (length ks) (sent hash n i es)"
proof -
  have i: "i < n" using assms(2,3) clamp_workers_bounds [of "ev ''WEBHOOK_THREADS''"]
    by (simp add: shard_of_def)
  have "shard_inv i (sent hash n i es) s"
    using wh_run_inv [OF new_webhook_mgr_shape(1) _ _ assms(1), of i "[]"] i assms(2)
      new_webhook_mgr_inv [of i ev] by (simp add: new_webhook_mgr_shape)
  then show ?thesis unfolding shard_inv_def MAX_WEBHOOK_RETRIES_def by blast
qed

lemma webhook_order_witness:
  "\<exists>s ks. wh_run length [Send ''c'' ''u'' ''1'', Send ''c'' ''u'' ''2'', Check 1, Grab 1, Post 1 False,
      Post 1 True] (new_webhook_mgr Map.empty) = Some s
    \<and> list_all (\<lambda>k. k \<le> 3) ks
    \<and> posts_of 1 s = repeats ks [\<lparr>wd_url = ''u'', wd_json = ''1''\<rparr>, \<lparr>wd_url = ''u'', wd_json = ''2''\<rparr>]"
proof -
  let ?es = "[Send ''c'' ''u'' ''1'', Send ''c'' ''u'' ''2'', Check 1, Grab 1, Post 1 False, Post 1 True]"
  have n: "clamp_workers (Map.empty ''WEBHOOK_THREADS'') = 4" by (simp add: clamp_workers_def)
  have m: "new_webhook_mgr Map.empty = \<lparr>wm_queues = [[], [], [], []],
      wm_workers = [AtHead, AtHead, AtHead, AtHead], wm_running = True, wm_posts = []\<rparr>"
    by (simp add: new_webhook_mgr_def n clamp_workers_def eval_nat_numeral)
  have "\<exists>s. wh_run length ?es (new_webhook_mgr Map.empty) = Some s"
    by (simp add: m send_webhook_def push_shard_def shard_of_def wh_check_def wh_grab_def wh_post_def
        may_post_def set_worker_def MAX_WEBHOOK_RETRIES_def)
  then obtain s where s: "wh_run length ?es (new_webhook_mgr Map.empty) = Some s" by blast
  have h: "sent length 4 1 ?es = [\<lparr>wd_url = ''u'', wd_json = ''1''\<rparr>, \<lparr>wd_url = ''u'', wd_json = ''2''\<rparr>]"
    by (simp add: sent_def shard_of_def)
  from webhook_order [OF s, of 4 1 "''c''"] s show ?thesis
    unfolding n h by (auto simp: shard_of_def)
qed

text \<open>\<open>stop\<close> does not drain: from the moment the manager is stopped no run of it makes another
  POST, so an event still queued, or between two attempts, is never delivered.\<close>

lemma webhooks_stop_silent:
  "wh_run hash es (stop_webhooks s) = Some s' \<Longrightarrow> wm_posts s' = wm_posts s"
  using wh_run_stopped [of "stop_webhooks s" hash es s'] by (simp add: stop_webhooks_def)

end
