(* ===== verification/Http_Json.thy ===== *)
theory Http_Json
  imports Cpp_Std
begin

text \<open>
  What the HTTP side shares: JSON values that are sent, the accessors of the JSON library on what is
  received (\<open>Inl\<close> is an exception with its message), and responses.
\<close>

datatype jv = JvStr string | JvInt int | JvBool bool | JvObj "(string \<times> jv) list" | JvArr "jv list" | JvNull

text \<open>The library on received JSON: \<open>jl_string j k\<close> is \<^verbatim>\<open>std::string x = j[k]\<close>, \<open>jl_value_int\<close> and
  \<open>jl_value_string\<close> are \<^verbatim>\<open>j.value(k, default)\<close>, \<open>jl_at\<close> is \<^verbatim>\<open>j[k]\<close>.\<close>

record 'j json_libs =
  jl_parse :: "string \<Rightarrow> string + 'j"
  jl_string :: "'j \<Rightarrow> string \<Rightarrow> string + string"
  jl_value_int :: "'j \<Rightarrow> string \<Rightarrow> int \<Rightarrow> string + int"
  jl_value_string :: "'j \<Rightarrow> string \<Rightarrow> string \<Rightarrow> string + string"
  jl_contains :: "'j \<Rightarrow> string \<Rightarrow> bool"
  jl_at :: "'j \<Rightarrow> string \<Rightarrow> string + 'j"
  jl_get_bool :: "'j \<Rightarrow> bool option"
  jl_get_string :: "'j \<Rightarrow> string option"

text \<open>Running on unless an exception was thrown.\<close>

definition on_ok :: "string + 'a \<Rightarrow> ('a \<Rightarrow> string + 'b) \<Rightarrow> string + 'b" where
  "on_ok r f = (case r of Inl e \<Rightarrow> Inl e | Inr x \<Rightarrow> f x)"

lemma on_ok_simps [simp]: "on_ok (Inl e) f = Inl e" "on_ok (Inr x) f = f x"
  by (simp_all add: on_ok_def)

lemma on_ok_Inr: "on_ok r f = Inr y \<longleftrightarrow> (\<exists>x. r = Inr x \<and> f x = Inr y)"
  by (cases r) auto

text \<open>Several string fields, in order.\<close>

fun jl_strings :: "'j json_libs \<Rightarrow> 'j \<Rightarrow> string list \<Rightarrow> string + string list" where
  "jl_strings L j [] = Inr []"
| "jl_strings L j (k # ks) =
     on_ok (jl_string L j k) (\<lambda>v. on_ok (jl_strings L j ks) (\<lambda>vs. Inr (v # vs)))"

text \<open>An integer read from the environment may throw as well.\<close>

definition env_int :: "env \<Rightarrow> string \<Rightarrow> int \<Rightarrow> string + int" where
  "env_int e k dflt = (case getEnvInt e k dflt of None \<Rightarrow> Inl ''stoi'' | Some i \<Rightarrow> Inr i)"

datatype body = Text string | Json jv

datatype response = Response nat body

definition OK :: nat where "OK = 200"
definition BAD_REQUEST :: nat where "BAD_REQUEST = 400"
definition NOT_FOUND :: nat where "NOT_FOUND = 404"
definition SERVER_ERROR :: nat where "SERVER_ERROR = 500"
definition UNAVAILABLE :: nat where "UNAVAILABLE = 503"

text \<open>The catch clause around every handler.\<close>

definition answer_or :: "string \<Rightarrow> string + response \<Rightarrow> response" where
  "answer_or what r = (case r of Inl e \<Rightarrow> Response SERVER_ERROR (Text (what @ e)) | Inr resp \<Rightarrow> resp)"

definition success_body :: "string \<Rightarrow> (string \<times> jv) list \<Rightarrow> body" where
  "success_body message extra = Json (JvObj ([(''status'', JvStr ''success''), (''message'', JvStr message)] @ extra))"

end
