(* ===== verification/Load_Balancer.thy ===== *)
theory Load_Balancer
  imports Http_Json
begin

text \<open>
  \<^verbatim>\<open>LoadBalancer\<close> of \<^verbatim>\<open>loadbalancer.cpp\<close> and the registration callback of \<^verbatim>\<open>account.cpp\<close> that
  uses it: the container announces itself to the load balancer after each successful registration.
  The environment, the registrar's answer and curl's outcome are arguments.
\<close>

datatype lb_effect = LbPost string jv

definition extractContactUri :: "string \<Rightarrow> string" where
  "extractContactUri status_text =
     (case str_find ''Contact:'' status_text of
        None \<Rightarrow> []
      | Some pos \<Rightarrow>
          (case str_find_from ''<'' status_text pos of
             None \<Rightarrow> []
           | Some start \<Rightarrow>
               (case str_find_from ''>'' status_text start of
                  None \<Rightarrow> []
                | Some fin \<Rightarrow> take (fin - start - 1) (drop (start + 1) status_text))))"

text \<open>The first 256 bytes of the host name; it always ends in a zero here.\<close>

definition getContainerName :: "string \<Rightarrow> string" where
  "getContainerName hostname = hostname"

definition getLocalIP :: "env \<Rightarrow> string" where
  "getLocalIP e = getEnvString e ''PUBLIC_IP'' ''127.0.0.1''"

definition sendRegistrationRequest :: "env \<Rightarrow> bool \<Rightarrow> bool \<Rightarrow> jv \<Rightarrow> bool \<times> lb_effect list" where
  "sendRegistrationRequest e curl_init curl_ok payload =
     (if curl_init
      then (curl_ok, [LbPost (getenv_or e ''LOADBALANCER_ENDPOINT'' ''http://localhost:8080'' @ ''/register-container'') payload])
      else (False, []))"

definition container_name :: "env \<Rightarrow> string" where
  "container_name e =
     getenv_or e ''SIP_USERNAME'' ''pjsip_client'' @ ''-'' @ getenv_or e ''PUBLIC_IP'' ''34.21.21.165'' @ ''-'' @
     getenv_or e ''HTTP_PORT'' ''8086''"

definition container_payload :: "env \<Rightarrow> string \<Rightarrow> jv" where
  "container_payload e contact =
     JvObj [(''name'', JvStr (container_name e)), (''host'', JvStr (getenv_or e ''PUBLIC_IP'' ''34.21.21.165'')),
            (''port'', JvInt (atoi (getenv_or e ''HTTP_PORT'' ''8086''))),
            (''aor'', JvStr (getenv_or e ''SIP_USERNAME'' ''pjsip_client'')), (''contact_uri'', JvStr contact)]"

definition notifyLoadBalancer :: "env \<Rightarrow> bool \<Rightarrow> bool \<Rightarrow> string \<Rightarrow> lb_effect list" where
  "notifyLoadBalancer e curl_init curl_ok status_text =
     (let contact = extractContactUri status_text
      in if contact = [] then []
         else snd (sendRegistrationRequest e curl_init curl_ok (container_payload e contact)))"

text \<open>The response that is passed in is not looked at.\<close>

definition extractContactFromSipResponse :: "env \<Rightarrow> string \<Rightarrow> string" where
  "extractContactFromSipResponse e sip_response =
     ''sip:'' @ getenv_or e ''SIP_USERNAME'' ''pjsip_client'' @ ''@'' @ getLocalIP e @ '':'' @
     getenv_or e ''SIP_PORT'' ''5060'' @ '';ob''"

definition notifyLoadBalancerWithResponse :: "env \<Rightarrow> bool \<Rightarrow> bool \<Rightarrow> string \<Rightarrow> lb_effect list" where
  "notifyLoadBalancerWithResponse e curl_init curl_ok sip_response =
     (let found = extractContactFromSipResponse e sip_response;
          contact = (if found = []
                     then ''sip:'' @ getenv_or e ''SIP_USERNAME'' ''pjsip_client'' @ ''@'' @
                          getenv_or e ''PUBLIC_IP'' ''34.21.21.165'' @ '':'' @ getenv_or e ''HTTP_PORT'' ''8086''
                     else found)
      in snd (sendRegistrationRequest e curl_init curl_ok (container_payload e contact)))"

text \<open>The registration callback: \<open>active\<close> is whether the account is registered, \<open>None\<close> when asking
  throws.\<close>

definition onRegState :: "env \<Rightarrow> bool \<Rightarrow> bool \<Rightarrow> int \<Rightarrow> bool option \<Rightarrow> string \<Rightarrow> lb_effect list" where
  "onRegState e curl_init curl_ok code active msg =
     (if code = 0 then []
      else (case active of
              None \<Rightarrow> []
            | Some False \<Rightarrow> []
            | Some True \<Rightarrow>
                if code = 200 \<and> msg \<noteq> [] then notifyLoadBalancerWithResponse e curl_init curl_ok msg else []))"

section \<open>Properties\<close>

text \<open>The announcement is made exactly when an account is registered with a 200 that carries a
  message, and what it announces depends on the environment only: the contact never comes from the
  response, and the fallback made from the HTTP port is never used.\<close>

lemma announcement_from_environment:
  "onRegState e True curl_ok code active msg =
     (if code = 200 \<and> active = Some True \<and> msg \<noteq> []
      then [LbPost (getenv_or e ''LOADBALANCER_ENDPOINT'' ''http://localhost:8080'' @ ''/register-container'')
              (container_payload e (''sip:'' @ getenv_or e ''SIP_USERNAME'' ''pjsip_client'' @ ''@'' @ getLocalIP e @ '':'' @
                 getenv_or e ''SIP_PORT'' ''5060'' @ '';ob''))]
      else [])"
  by (cases active)
    (auto simp: onRegState_def notifyLoadBalancerWithResponse_def extractContactFromSipResponse_def
      sendRegistrationRequest_def Let_def split: bool.splits)

end
