(* ===== verification/Ringing.thy ===== *)
theory Ringing
  imports Wav Cpp_Std
begin

text \<open>
  \<^verbatim>\<open>RingingAudioProvider\<close> of \<^verbatim>\<open>human_ringing.cpp\<close>: the queue music played while a transfer is
  pending. The file system is an argument: a path gives the bytes of the file, or nothing
  when it can't be opened. An index outside the sample vector is undefined behaviour, the
  value \<open>None\<close> of the frame loop.
\<close>

record ringing =
  ringing_buffer :: "sample list"
  current_position :: nat
  loaded :: bool

type_synonym file_system = "string \<Rightarrow> byte list option"

definition new_ringing :: "int \<Rightarrow> ringing" where
  "new_ringing sample_rate = \<lparr>ringing_buffer = [], current_position = 0, loaded = False\<rparr>"

definition ringing_path :: "int \<Rightarrow> string option" where
  "ringing_path rate =
     (if rate = 8000 then Some ''assets/queue_music_8k.wav''
      else if rate = 16000 then Some ''assets/queue_music_16k.wav'' else None)"

definition loadRingingFile :: "file_system \<Rightarrow> int \<Rightarrow> ringing \<Rightarrow> bool \<times> ringing" where
  "loadRingingFile fs rate r =
     (case ringing_path rate of None \<Rightarrow> (False, r)
      | Some path \<Rightarrow>
         (case fs path of None \<Rightarrow> (False, r)
          | Some bytes \<Rightarrow>
             (let buf = pcm_samples (drop 44 bytes); r' = r\<lparr>ringing_buffer := buf\<rparr>
              in if buf = [] then (False, r')
                 else (True, r'\<lparr>current_position := 0, loaded := True\<rparr>))))"

text \<open>The low and the high byte as the code computes them, by masks and an arithmetic shift.\<close>

definition ring_bytes :: "sample \<Rightarrow> byte list" where
  "ring_bytes s = [ucast (s AND 0xFF), ucast (signed_drop_bit 8 s AND 0xFF)]"

fun ring_loop :: "nat \<Rightarrow> sample list \<Rightarrow> nat \<Rightarrow> byte list \<Rightarrow> (byte list \<times> nat) option" where
  "ring_loop 0 buf pos out = Some (out, pos)"
| "ring_loop (Suc n) buf pos out =
     (if pos < length buf
      then ring_loop n buf (if length buf \<le> pos + 1 then 0 else pos + 1) (out @ ring_bytes (buf ! pos))
      else None)"

definition getRingingFrame :: "nat \<Rightarrow> ringing \<Rightarrow> (byte list \<times> ringing) option" where
  "getRingingFrame frame_size r =
     (if \<not> loaded r \<or> ringing_buffer r = [] then Some (replicate frame_size 0, r)
      else (case ring_loop (frame_size div 2) (ringing_buffer r) (current_position r) [] of
              None \<Rightarrow> None
            | Some (out, pos) \<Rightarrow> Some (out, r\<lparr>current_position := pos\<rparr>)))"

definition isReady :: "ringing \<Rightarrow> bool" where
  "isReady r \<longleftrightarrow> loaded r \<and> ringing_buffer r \<noteq> []"

definition reset_ringing :: "ringing \<Rightarrow> ringing" where
  "reset_ringing r = r\<lparr>current_position := 0\<rparr>"

section \<open>The read position stays inside the buffer\<close>

text \<open>
  \<open>loaded\<close> is set only together with a position inside a non-empty buffer. A later load of an
  empty file empties the buffer and leaves \<open>loaded\<close> set, so emptiness is tested as well.
\<close>

definition ring_wf :: "ringing \<Rightarrow> bool" where
  "ring_wf r \<longleftrightarrow> ringing_buffer r = [] \<or> current_position r < length (ringing_buffer r)"

datatype ring_op = LoadFile file_system int | NextFrame nat | ResetPos

fun ring_step :: "ring_op \<Rightarrow> ringing \<Rightarrow> ringing" where
  "ring_step (LoadFile fs rate) r = snd (loadRingingFile fs rate r)"
| "ring_step (NextFrame n) r = (case getRingingFrame n r of None \<Rightarrow> r | Some (_, r') \<Rightarrow> r')"
| "ring_step ResetPos r = reset_ringing r"

text \<open>The reference: the buffer read cyclically.\<close>

definition cyclic :: "sample list \<Rightarrow> nat \<Rightarrow> nat \<Rightarrow> sample list" where
  "cyclic buf pos n = map (\<lambda>i. buf ! ((pos + i) mod length buf)) [0..<n]"

lemma ring_bytes_le16 [simp]: "ring_bytes s = le16_bytes s"
proof -
  have m: "(0xFF :: sample) = mask 8" by (simp add: mask_eq_exp_minus_1)
  have "ucast (s AND 0xFF) = (ucast s :: byte)"
    unfolding m by (rule bit_word_eqI) (auto simp: bit_simps)
  moreover have "ucast (signed_drop_bit 8 s AND 0xFF) = (ucast (drop_bit 8 s) :: byte)"
    unfolding m by (rule bit_word_eqI) (auto simp: bit_simps)
  ultimately show ?thesis by (simp add: ring_bytes_def le16_bytes_def)
qed

lemma next_pos: "pos < n \<Longrightarrow> (if n \<le> pos + 1 then 0 else pos + 1) = (pos + 1) mod (n :: nat)"
  by (auto simp: le_Suc_eq)

lemma cyclic_Suc:
  "pos < length buf \<Longrightarrow> cyclic buf pos (Suc n) = buf ! pos # cyclic buf ((pos + 1) mod length buf) n"
proof -
  assume "pos < length buf"
  then have "cyclic buf pos (Suc n) = buf ! pos # map (\<lambda>i. buf ! ((pos + Suc i) mod length buf)) [0..<n]"
    by (simp add: cyclic_def upt_conv_Cons map_Suc_upt [symmetric] del: upt_Suc)
  then show ?thesis by (simp add: cyclic_def mod_simps)
qed

lemma ring_loop_cyclic:
  "pos < length buf \<Longrightarrow>
   ring_loop n buf pos out = Some (out @ pcm_bytes (cyclic buf pos n), (pos + n) mod length buf)"
proof (induction n arbitrary: pos out)
  case 0
  then show ?case by (simp add: cyclic_def)
next
  case (Suc n)
  have "ring_loop (Suc n) buf pos out
      = ring_loop n buf ((pos + 1) mod length buf) (out @ ring_bytes (buf ! pos))"
    by (simp only: ring_loop.simps next_pos [OF Suc.prems] Suc.prems if_True)
  moreover have "(pos + 1) mod length buf < length buf"
    using Suc.prems by (intro mod_less_divisor) auto
  ultimately show ?case using Suc.prems
    by (simp only: Suc.IH cyclic_Suc) (simp add: mod_simps)
qed

lemma getRingingFrame_ready:
  assumes "isReady r" and "ring_wf r"
  shows "getRingingFrame n r =
    Some (pcm_bytes (cyclic (ringing_buffer r) (current_position r) (n div 2)),
          r\<lparr>current_position := (current_position r + n div 2) mod length (ringing_buffer r)\<rparr>)"
  using assms by (simp add: isReady_def ring_wf_def getRingingFrame_def ring_loop_cyclic)

lemma getRingingFrame_silent: "\<not> isReady r \<Longrightarrow> getRingingFrame n r = Some (replicate n 0, r)"
  by (auto simp: isReady_def getRingingFrame_def)

lemma getRingingFrame_length:
  assumes "ring_wf r" and "getRingingFrame n r = Some (bs, r')"
  shows "length bs = (if isReady r then 2 * (n div 2) else n)"
  using assms by (cases "isReady r") (auto simp: getRingingFrame_ready getRingingFrame_silent cyclic_def)

lemma getRingingFrame_wf:
  assumes "ring_wf r" and "getRingingFrame n r = Some (bs, r')"
  shows "ring_wf r'"
proof (cases "isReady r")
  case True
  with assms have "r' = r\<lparr>current_position := (current_position r + n div 2) mod length (ringing_buffer r)\<rparr>"
    by (simp add: getRingingFrame_ready)
  with True show ?thesis by (simp add: ring_wf_def isReady_def)
next
  case False
  with assms show ?thesis by (simp add: getRingingFrame_silent)
qed

lemma loadRingingFile_wf: "ring_wf r \<Longrightarrow> ring_wf (snd (loadRingingFile fs rate r))"
  by (auto simp: loadRingingFile_def ring_wf_def Let_def simp del: length_pcm_samples split: option.splits)

lemma loadRingingFile_ready: "fst (loadRingingFile fs rate r) \<Longrightarrow> isReady (snd (loadRingingFile fs rate r))"
  by (auto simp: loadRingingFile_def isReady_def Let_def split: option.splits if_splits)

lemma new_ringing_wf [simp]: "ring_wf (new_ringing rate)"
  by (simp add: ring_wf_def new_ringing_def)

interpretation ring: inv_machine ring_step "\<lambda>_. True" ring_wf
proof unfold_locales
  fix e r assume "ring_wf r"
  then show "ring_wf (ring_step e r)"
    by (cases e) (auto simp: loadRingingFile_wf reset_ringing_def ring_wf_def [of "reset_ringing r"]
        ring_wf_def [of "r\<lparr>current_position := 0\<rparr>"]
        dest: getRingingFrame_wf split: option.splits)
qed

text \<open>Consecutive frames, as the media clock pulls them.\<close>

fun ring_frames :: "nat list \<Rightarrow> ringing \<Rightarrow> byte list option" where
  "ring_frames [] r = Some []"
| "ring_frames (n # ns) r =
     (case getRingingFrame n r of None \<Rightarrow> None
      | Some (bs, r') \<Rightarrow> map_option ((@) bs) (ring_frames ns r'))"

lemma cyclic_add:
  "buf \<noteq> [] \<Longrightarrow> cyclic buf pos (m + n) = cyclic buf pos m @ cyclic buf ((pos + m) mod length buf) n"
proof -
  assume "buf \<noteq> []"
  have "[0..<m + n] = [0..<m] @ [m..<m + n]" by (rule upt_add_eq_append) simp
  then have "cyclic buf pos (m + n) = cyclic buf pos m @ map (\<lambda>i. buf ! ((pos + i) mod length buf)) [m..<m + n]"
    by (simp only: cyclic_def map_append)
  also have "map (\<lambda>i. buf ! ((pos + i) mod length buf)) [m..<m + n]
      = map (\<lambda>i. buf ! ((pos + (m + i)) mod length buf)) [0..<n]"
    by (rule nth_equalityI) auto
  also have "\<dots> = cyclic buf ((pos + m) mod length buf) n"
    by (simp add: cyclic_def mod_simps add.assoc)
  finally show ?thesis .
qed

lemma ring_frames_cyclic:
  "isReady r \<Longrightarrow> ring_wf r \<Longrightarrow> ring_frames ns r
    = Some (pcm_bytes (cyclic (ringing_buffer r) (current_position r) (sum_list (map (\<lambda>n. n div 2) ns))))"
proof (induction ns arbitrary: r)
  case Nil
  then show ?case by (simp add: cyclic_def)
next
  case (Cons n ns)
  let ?r = "r\<lparr>current_position := (current_position r + n div 2) mod length (ringing_buffer r)\<rparr>"
  have g: "getRingingFrame n r = Some (pcm_bytes (cyclic (ringing_buffer r) (current_position r) (n div 2)), ?r)"
    using Cons.prems by (rule getRingingFrame_ready)
  have ne: "ringing_buffer r \<noteq> []" using Cons.prems by (simp add: isReady_def)
  have "isReady ?r" using Cons.prems(1) by (simp add: isReady_def)
  moreover have "ring_wf ?r" by (rule getRingingFrame_wf [OF Cons.prems(2) g])
  ultimately show ?case using g ne by (simp add: Cons.IH cyclic_add)
qed

text \<open>The loader reads everything from byte 44 on as samples.\<close>

lemma loadRingingFile_reads:
  assumes "ringing_path rate = Some path" and "fs path = Some bytes" and "pcm_samples (drop 44 bytes) \<noteq> []"
  shows "loadRingingFile fs rate r
    = (True, r\<lparr>ringing_buffer := pcm_samples (drop 44 bytes), current_position := 0, loaded := True\<rparr>)"
  using assms by (simp add: loadRingingFile_def Let_def)

lemma pcm_samples_even_append:
  "even (length xs) \<Longrightarrow> pcm_samples (xs @ ys) = pcm_samples xs @ pcm_samples ys"
  by (induction xs rule: pcm_samples.induct) auto

text \<open>The image \<^verbatim>\<open>convertToWav\<close> makes has the layout of the property with no chunk in between.\<close>

lemma convertToWav_layout:
  assumes "length raw < 2 ^ 31"
  shows "\<exists>riff tag. convertToWav raw rate = riff @ [] @ tag @ pcm_bytes raw \<and> length riff = 36 \<and> length tag = 8"
proof -
  let ?h = "wav_header_bytes (make_wav_header raw rate)"
  have "unat (data_bytes (make_wav_header raw rate)) = 2 * length raw" using assms by (simp add: unat_data_bytes)
  then have "convertToWav raw rate = take 36 ?h @ [] @ drop 36 ?h @ pcm_bytes raw"
    by (simp add: convertToWav_def Let_def)
  then show ?thesis
    by (intro exI [of _ "take 36 ?h"] exI [of _ "drop 36 ?h"]) (simp add: WAV_HEADER_SIZE_def)
qed

text \<open>C16: What the ringback plays, for a WAV file with any chunks between its format and its data: loading
  succeeds, and however many frames of whatever size are pulled, every one is defined and together
  they are what the file holds from byte 44 on, repeated from its start. Without chunks that is the
  PCM of the file. With them it is the bytes from the ninth of the chunks to the end of the data
  chunk's header, played as audio at each repetition, and then the PCM; the two queue music files of
  the repository hold such a chunk of 34 bytes.\<close>

theorem ringback_plays_file:
  assumes "ringing_path rate = Some path" and "fs path = Some (riff @ extra @ tag @ pcm_bytes raw)"
    and "length riff = 36" and "length tag = 8" and "even (length extra)" and "raw \<noteq> []"
  shows "fst (loadRingingFile fs rate r)
    \<and> (\<exists>noise. length noise = length extra div 2 \<and> pcm_bytes noise = drop 8 (extra @ tag)
         \<and> ring_frames ns (snd (loadRingingFile fs rate r))
           = Some (pcm_bytes (cyclic (noise @ raw) 0 (sum_list (map (\<lambda>n. n div 2) ns)))))"
proof -
  let ?noise = "pcm_samples (drop 8 (extra @ tag))"
  have e: "even (length (drop 8 (extra @ tag)))" using assms(4,5) by simp
  have "drop 44 (riff @ extra @ tag @ pcm_bytes raw) = drop 8 (extra @ tag) @ pcm_bytes raw"
    using assms(3,4) by simp
  then have p: "pcm_samples (drop 44 (riff @ extra @ tag @ pcm_bytes raw)) = ?noise @ raw"
    using pcm_samples_even_append [OF e] by simp
  then have l: "loadRingingFile fs rate r
      = (True, r\<lparr>ringing_buffer := ?noise @ raw, current_position := 0, loaded := True\<rparr>)"
    using loadRingingFile_reads [of rate path fs "riff @ extra @ tag @ pcm_bytes raw" r] assms(1,2,6)
    by (simp del: drop_append)
  have "isReady (snd (loadRingingFile fs rate r))" "ring_wf (snd (loadRingingFile fs rate r))"
    using assms(6) by (simp_all add: l isReady_def ring_wf_def)
  from ring_frames_cyclic [OF this, of ns] have
    "ring_frames ns (snd (loadRingingFile fs rate r)) = Some (pcm_bytes (cyclic (?noise @ raw) 0 (sum_list (map (\<lambda>n. n div 2) ns))))"
    by (simp add: l)
  moreover have "pcm_bytes ?noise = drop 8 (extra @ tag)" using e by (rule pcm_bytes_samples)
  moreover have "length ?noise = length extra div 2" using assms(4) by simp
  ultimately show ?thesis using l by (intro conjI exI [of _ ?noise]) simp_all
qed

text \<open>The layout of \<^verbatim>\<open>queue_music_8k.wav\<close>, with two samples of music.\<close>

definition list_chunk :: "byte list" where
  "list_chunk = ascii ''LIST'' @ [26, 0, 0, 0] @ ascii ''INFOISFT'' @ [13, 0, 0, 0] @ ascii ''Lavf62.3.100'' @ [0, 0]"

lemma ringback_plays_file_witness:
  "\<exists>noise. length noise = 17 \<and> pcm_bytes noise = drop 8 (list_chunk @ ascii ''data'' @ [4, 0, 0, 0])
     \<and> ring_frames [38] (snd (loadRingingFile [''assets/queue_music_8k.wav''
         \<mapsto> replicate 36 0 @ list_chunk @ (ascii ''data'' @ [4, 0, 0, 0]) @ pcm_bytes [1, 2]] 8000 (new_ringing 8000)))
       = Some (pcm_bytes (noise @ [1, 2]))"
proof -
  let ?tag = "ascii ''data'' @ [4, 0, 0, 0] :: byte list"
  let ?fs = "[''assets/queue_music_8k.wav'' \<mapsto> replicate 36 0 @ list_chunk @ ?tag @ pcm_bytes [1, 2]]"
  have path: "ringing_path 8000 = Some ''assets/queue_music_8k.wav''" by (simp add: ringing_path_def)
  have len: "length list_chunk = 34" "length ?tag = 8" by (simp_all add: list_chunk_def)
  obtain noise where n: "length noise = 17" "pcm_bytes noise = drop 8 (list_chunk @ ?tag)"
    "ring_frames [38] (snd (loadRingingFile ?fs 8000 (new_ringing 8000)))
      = Some (pcm_bytes (cyclic (noise @ [1, 2]) 0 19))"
    using ringback_plays_file [OF path, of ?fs "replicate 36 0" list_chunk ?tag "[1, 2]" "new_ringing 8000" "[38]"] len
    by (auto simp del: length_append)
  have "cyclic (noise @ [1, 2]) 0 19 = noise @ [1, 2]"
    using n(1) by (intro nth_equalityI) (simp_all add: cyclic_def del: upt_Suc)
  with n show ?thesis by (intro exI [of _ noise]) simp
qed

end
