(* ===== verification/Ws_State.thy ===== *)
theory Ws_State
  imports Ringing
begin

text \<open>
  The state of \<^verbatim>\<open>WebSocketAudioHandler\<close> (\<^verbatim>\<open>websocket_handler.hpp\<close>), one record with the
  class's fields, and the calls it makes on other objects, recorded in order as effects. A
  pointer or callback the class only tests and calls through is the boolean that says whether
  it is set.
\<close>

record handler =
  connected :: bool
  ws_uri :: string
  h_sample_rate :: int
  bytes_per_frame :: nat
  audio_queue :: "byte list list"
  partial_frame :: "byte list"
  real_time_audio :: bool
  sequence_number :: "64 word"
  stream_id :: string
  checkpoint_received :: bool
  clear_audio_called :: bool
  hangup_received :: bool
  intentional_close :: bool
  reconnect_attempts :: int
  log_misalignment_done :: bool
  pending_stream_name :: string
  pending_stream_id :: string
  has_callback :: bool
  has_med_port :: bool
  current_agent_id :: string
  agent_transfer_in_progress :: bool
  ringing_provider :: ringing
  ringing_active :: bool

definition MAX_QUEUE_SIZE_RUPTURE :: nat where "MAX_QUEUE_SIZE_RUPTURE = 15"
definition MAX_QUEUE_SIZE_DEFAULT :: nat where "MAX_QUEUE_SIZE_DEFAULT = 3000"
definition MAX_RECONNECT_ATTEMPTS :: int where "MAX_RECONNECT_ATTEMPTS = 3"

datatype ws_effect =
    SendPlayedStream string string \<comment> \<open>streamId, name\<close>
  | SendStart string int
  | SendMedia "64 word" "byte list" string
  | SendDtmfMsg string string
  | CloseWs string
  | InvokeDisconnect
  | SetHangupSource string
  | ForwardDtmf string
  | StartNumberTransfer string
  | DiscardRecording
  | SpawnAgentTransfer string
  | SpawnHumanTransfer string
  | SpawnNumberTransfer string
  | SpawnReconnect

text \<open>\<open>agent=<id>_<rest>\<close> in the URI names the agent; without the underscore the field keeps its
  value.\<close>

definition setAgentId :: "handler \<Rightarrow> handler" where
  "setAgentId h =
     (if ws_uri h = [] then h\<lparr>current_agent_id := []\<rparr>
      else (case str_find ''agent='' (ws_uri h) of
              None \<Rightarrow> h\<lparr>current_agent_id := []\<rparr>
            | Some p \<Rightarrow>
                (let agent_value = drop (p + 6) (ws_uri h)
                 in case str_find ''_'' agent_value of
                      None \<Rightarrow> h
                    | Some u \<Rightarrow> h\<lparr>current_agent_id := take u agent_value\<rparr>)))"

text \<open>\<^verbatim>\<open>static_cast<size_t>\<close> of the rate, then unsigned 64-bit arithmetic.\<close>

definition frame_bytes :: "int \<Rightarrow> nat" where
  "frame_bytes rate = (nat (rate mod 2 ^ 64) * 20 * 2) mod 2 ^ 64 div 1000"

text \<open>The constructor; \<open>stamp\<close> is the clock reading printed into the stream id.\<close>

definition new_handler :: "int \<Rightarrow> string \<Rightarrow> string \<Rightarrow> handler" where
  "new_handler rate uri stamp = setAgentId
     \<lparr>connected = False, ws_uri = uri, h_sample_rate = rate, bytes_per_frame = frame_bytes rate,
      audio_queue = [], partial_frame = [], real_time_audio = str_contains ''rupture'' uri,
      sequence_number = 0, stream_id = ''MZ'' @ stamp, checkpoint_received = False,
      clear_audio_called = False, hangup_received = False, intentional_close = False,
      reconnect_attempts = 0, log_misalignment_done = False, pending_stream_name = [],
      pending_stream_id = [], has_callback = False, has_med_port = False, current_agent_id = [],
      agent_transfer_in_progress = False, ringing_provider = new_ringing rate,
      ringing_active = False\<rparr>"

definition setDisconnectCallback :: "handler \<Rightarrow> handler" where
  "setDisconnectCallback h = h\<lparr>has_callback := True\<rparr>"

definition setMediaPort :: "handler \<Rightarrow> handler" where
  "setMediaPort h = h\<lparr>has_med_port := True\<rparr>"

definition startRinging :: "file_system \<Rightarrow> handler \<Rightarrow> handler" where
  "startRinging fs h =
     (let (ok, r) = loadRingingFile fs (h_sample_rate h) (ringing_provider h);
          h' = h\<lparr>ringing_provider := r\<rparr>
      in if ok then h'\<lparr>ringing_active := True\<rparr> else h')"

definition stopRinging :: "handler \<Rightarrow> handler" where
  "stopRinging h = h\<lparr>ringing_active := False\<rparr>"

definition handler_getRingingFrame :: "nat \<Rightarrow> handler \<Rightarrow> (byte list \<times> handler) option" where
  "handler_getRingingFrame n h =
     (case getRingingFrame n (ringing_provider h) of None \<Rightarrow> None
      | Some (bs, r) \<Rightarrow> Some (bs, h\<lparr>ringing_provider := r\<rparr>))"

lemmas ws_simple_defs [op_defs] =
  setDisconnectCallback_def setMediaPort_def stopRinging_def

lemma setAgentId_fields [frame_simps]:
  "audio_queue (setAgentId h) = audio_queue h" "partial_frame (setAgentId h) = partial_frame h"
  "bytes_per_frame (setAgentId h) = bytes_per_frame h" "ws_uri (setAgentId h) = ws_uri h"
  "clear_audio_called (setAgentId h) = clear_audio_called h"
  "real_time_audio (setAgentId h) = real_time_audio h"
  "ringing_provider (setAgentId h) = ringing_provider h"
  "ringing_active (setAgentId h) = ringing_active h"
  "reconnect_attempts (setAgentId h) = reconnect_attempts h"
  by (auto simp: setAgentId_def Let_def split: option.splits)

lemma startRinging_fields [frame_simps]:
  "audio_queue (startRinging fs h) = audio_queue h" "partial_frame (startRinging fs h) = partial_frame h"
  "bytes_per_frame (startRinging fs h) = bytes_per_frame h" "ws_uri (startRinging fs h) = ws_uri h"
  "clear_audio_called (startRinging fs h) = clear_audio_called h"
  "real_time_audio (startRinging fs h) = real_time_audio h"
  "reconnect_attempts (startRinging fs h) = reconnect_attempts h"
  "connected (startRinging fs h) = connected h"
  "agent_transfer_in_progress (startRinging fs h) = agent_transfer_in_progress h"
  "has_callback (startRinging fs h) = has_callback h"
  "has_med_port (startRinging fs h) = has_med_port h"
  "current_agent_id (startRinging fs h) = current_agent_id h"
  "sequence_number (startRinging fs h) = sequence_number h"
  "stream_id (startRinging fs h) = stream_id h"
  "intentional_close (startRinging fs h) = intentional_close h"
  "hangup_received (startRinging fs h) = hangup_received h"
  "h_sample_rate (startRinging fs h) = h_sample_rate h"
  by (simp_all add: startRinging_def Let_def split_beta)

text \<open>Ringing is active only with audio loaded, at a valid position.\<close>

definition ringing_ok :: "handler \<Rightarrow> bool" where
  "ringing_ok h \<longleftrightarrow> ring_wf (ringing_provider h)"

lemma startRinging_ok [wf_intros]: "ringing_ok h \<Longrightarrow> ringing_ok (startRinging fs h)"
  by (simp add: ringing_ok_def startRinging_def Let_def split_beta loadRingingFile_wf)

lemma startRinging_active:
  "ringing_active (startRinging fs h) \<Longrightarrow> ringing_active h \<or> isReady (ringing_provider (startRinging fs h))"
  using loadRingingFile_ready [of fs "h_sample_rate h" "ringing_provider h"]
  by (simp add: startRinging_def Let_def split_beta split: if_splits)

lemma new_handler_ok: "ringing_ok (new_handler rate uri stamp)"
  by (simp add: ringing_ok_def new_handler_def frame_simps)

lemma frame_bytes_8k [simp]: "frame_bytes 8000 = 320"
  and frame_bytes_16k [simp]: "frame_bytes 16000 = 640"
  by (simp_all add: frame_bytes_def)

end
