(* ===== verification/Ws_Queue.thy ===== *)
theory Ws_Queue
  imports Ws_State
begin

text \<open>
  The playback queue of \<^verbatim>\<open>WebSocketAudioHandler\<close>: received PCM is cut into media frames with a
  carry-over, the frames wait in a bounded queue, the media clock takes one every 20 ms, and a
  checkpoint is acknowledged when the queue runs empty.
\<close>

section \<open>The operations\<close>

definition resetCheckpointState :: "handler \<Rightarrow> handler" where
  "resetCheckpointState h = h\<lparr>checkpoint_received := False, clear_audio_called := False,
     pending_stream_name := [], pending_stream_id := []\<rparr>"

definition clearAudioQueue :: "handler \<Rightarrow> handler" where
  "clearAudioQueue h = resetCheckpointState
     (h\<lparr>audio_queue := [], partial_frame := [], log_misalignment_done := False,
        clear_audio_called := True\<rparr>)"

text \<open>
  The framing loop. The offset advances before the capacity test, so the frame that finds the
  queue full is lost and the loop ends there. The guard \<open>0 < bpf\<close> is the early return of
  \<^verbatim>\<open>enqueueAudio\<close>.
\<close>

function enqueue_loop :: "nat \<Rightarrow> bool \<Rightarrow> byte list \<Rightarrow> byte list list \<Rightarrow> nat \<Rightarrow> byte list list \<times> nat" where
  "enqueue_loop bpf rt part q off =
     (if 0 < bpf \<and> bpf \<le> length part - off then
        (let frame = take bpf (drop off part); off' = off + bpf in
         if rt then
           enqueue_loop bpf rt part ((if MAX_QUEUE_SIZE_RUPTURE \<le> length q then tl q else q) @ [frame]) off'
         else if length q < MAX_QUEUE_SIZE_DEFAULT then
           enqueue_loop bpf rt part (q @ [frame]) off'
         else (q, off'))
      else (q, off))"
  by pat_completeness auto
termination
  by (relation "measure (\<lambda>(bpf, rt, part, q, off). length part - off)") auto

declare enqueue_loop.simps [simp del]

definition drop_odd :: "byte list \<Rightarrow> byte list" where
  "drop_odd pcm = (if odd (length pcm) then butlast pcm else pcm)"

definition enqueueAudio :: "byte list \<Rightarrow> handler \<Rightarrow> handler" where
  "enqueueAudio pcm0 h =
     (if bytes_per_frame h = 0 then h
      else
        (let pcm = drop_odd pcm0;
             h1 = (if \<not> log_misalignment_done h \<and> length pcm mod bytes_per_frame h \<noteq> 0
                   then h\<lparr>log_misalignment_done := True\<rparr> else h);
             part = partial_frame h @ pcm;
             (q, off) = enqueue_loop (bytes_per_frame h) (real_time_audio h) part (audio_queue h) 0
         in h1\<lparr>audio_queue := q, partial_frame := drop off part\<rparr>))"

definition sendPlayedStreamEvent :: "handler \<Rightarrow> handler \<times> ws_effect list" where
  "sendPlayedStreamEvent h =
     (if \<not> connected h \<or> pending_stream_id h = [] then (h, [])
      else (resetCheckpointState h, [SendPlayedStream (pending_stream_id h) (pending_stream_name h)]))"

definition getAudioFrame :: "handler \<Rightarrow> byte list option \<times> handler \<times> ws_effect list" where
  "getAudioFrame h =
     (case audio_queue h of [] \<Rightarrow> (None, h, [])
      | f # q \<Rightarrow>
          (let h1 = h\<lparr>audio_queue := q\<rparr> in
           if checkpoint_received h1 \<and> q = [] \<and> \<not> clear_audio_called h1
           then (let (h2, es) = sendPlayedStreamEvent h1 in (Some f, h2, es))
           else (Some f, h1, [])))"

section \<open>The framing loop in closed form\<close>

lemma length_drop_odd: "length (drop_odd pcm) = 2 * (length pcm div 2)"
  by (auto simp: drop_odd_def elim: oddE)

lemma drop_odd_even [simp]: "even (length pcm) \<Longrightarrow> drop_odd pcm = pcm"
  by (simp add: drop_odd_def)

lemma div_step: "0 < b \<Longrightarrow> b \<le> n - off \<Longrightarrow> (n - off) div b = Suc ((n - (off + b)) div (b :: nat))"
  by (simp add: le_div_geq)

lemma enqueue_loop_stop: "\<not> (0 < bpf \<and> bpf \<le> length part - off) \<Longrightarrow> enqueue_loop bpf rt part q off = (q, off)"
  by (subst enqueue_loop.simps) auto

lemma lastn_push_max:
  "(if n \<le> length xs then tl xs else xs) @ [x] = lastn (max n (length xs)) (xs @ [x])"
  if "0 < n"
  using that by (cases xs) (auto simp: lastn_def)

lemma enqueue_loop_realtime:
  assumes "0 < bpf"
  shows "enqueue_loop bpf True part q off =
    (let k = (length part - off) div bpf in
     (lastn (max MAX_QUEUE_SIZE_RUPTURE (length q)) (q @ chunks bpf k (drop off part)), off + bpf * k))"
  using assms
proof (induction bpf "True" part q off rule: enqueue_loop.induct)
  case (1 bpf part q off)
  show ?case
  proof (cases "bpf \<le> length part - off")
    case True
    let ?frame = "take bpf (drop off part)"
    let ?q = "(if MAX_QUEUE_SIZE_RUPTURE \<le> length q then tl q else q) @ [?frame]"
    let ?m = "max MAX_QUEUE_SIZE_RUPTURE (length q)"
    have q: "?q = lastn ?m (q @ [?frame])"
      by (rule lastn_push_max) (simp add: MAX_QUEUE_SIZE_RUPTURE_def)
    have m: "max MAX_QUEUE_SIZE_RUPTURE (length ?q) = ?m"
      by (cases q) (auto simp: MAX_QUEUE_SIZE_RUPTURE_def)
    have "enqueue_loop bpf True part q off = enqueue_loop bpf True part ?q (off + bpf)"
      using True "1.prems" by (subst enqueue_loop.simps) (simp add: Let_def)
    also have "\<dots> = (let k = (length part - (off + bpf)) div bpf in
       (lastn ?m (?q @ chunks bpf k (drop (off + bpf) part)), off + bpf + bpf * k))"
      using "1.hyps"(1) [OF _ refl refl] True "1.prems" unfolding m [symmetric] by simp
    finally show ?thesis using True "1.prems"
      unfolding q by (simp add: Let_def div_step add.commute)
  next
    case False
    with "1.prems" show ?thesis by (simp add: enqueue_loop_stop)
  qed
qed

lemma enqueue_loop_default:
  assumes "0 < bpf" and "length q \<le> MAX_QUEUE_SIZE_DEFAULT"
  shows "enqueue_loop bpf False part q off =
    (let k = (length part - off) div bpf; room = MAX_QUEUE_SIZE_DEFAULT - length q in
     if k \<le> room then (q @ chunks bpf k (drop off part), off + bpf * k)
     else (q @ chunks bpf room (drop off part), off + bpf * Suc room))"
  using assms
proof (induction bpf "False" part q off rule: enqueue_loop.induct)
  case (1 bpf part q off)
  show ?case
  proof (cases "bpf \<le> length part - off")
    case fits: True
    show ?thesis
    proof (cases "length q < MAX_QUEUE_SIZE_DEFAULT")
      case True
      let ?q = "q @ [take bpf (drop off part)]"
      have "enqueue_loop bpf False part q off = enqueue_loop bpf False part ?q (off + bpf)"
        using fits True "1.prems" by (subst enqueue_loop.simps) (simp add: Let_def)
      also have "\<dots> = (let k = (length part - (off + bpf)) div bpf; room = MAX_QUEUE_SIZE_DEFAULT - length ?q in
         if k \<le> room then (?q @ chunks bpf k (drop (off + bpf) part), off + bpf + bpf * k)
         else (?q @ chunks bpf room (drop (off + bpf) part), off + bpf + bpf * Suc room))"
        using "1.hyps"(2) [OF _ refl refl _ True] fits True "1.prems" by simp
      finally have e: "enqueue_loop bpf False part q off = \<dots>" .
      have k: "(length part - off) div bpf = Suc ((length part - (off + bpf)) div bpf)"
        using fits "1.prems" by (simp add: div_step)
      have r: "MAX_QUEUE_SIZE_DEFAULT - length q = Suc (MAX_QUEUE_SIZE_DEFAULT - length ?q)"
        using True by simp
      show ?thesis unfolding e k r by (simp add: Let_def add.commute)
    next
      case False
      with fits "1.prems" show ?thesis
        by (subst enqueue_loop.simps) (simp add: Let_def div_step)
    qed
  next
    case False
    with "1.prems" show ?thesis by (simp add: enqueue_loop_stop)
  qed
qed


section \<open>What each operation does to the queue and the carry-over\<close>

lemma sendPlayedStreamEvent_fields [frame_simps]:
  "audio_queue (fst (sendPlayedStreamEvent h)) = audio_queue h"
  "partial_frame (fst (sendPlayedStreamEvent h)) = partial_frame h"
  "bytes_per_frame (fst (sendPlayedStreamEvent h)) = bytes_per_frame h"
  "real_time_audio (fst (sendPlayedStreamEvent h)) = real_time_audio h"
  "ringing_provider (fst (sendPlayedStreamEvent h)) = ringing_provider h"
  "\<not> clear_audio_called h \<Longrightarrow> \<not> clear_audio_called (fst (sendPlayedStreamEvent h))"
  by (simp_all add: sendPlayedStreamEvent_def resetCheckpointState_def)

lemma enqueueAudio_fields [frame_simps]:
  "bytes_per_frame (enqueueAudio pcm h) = bytes_per_frame h"
  "real_time_audio (enqueueAudio pcm h) = real_time_audio h"
  "clear_audio_called (enqueueAudio pcm h) = clear_audio_called h"
  "checkpoint_received (enqueueAudio pcm h) = checkpoint_received h"
  "pending_stream_id (enqueueAudio pcm h) = pending_stream_id h"
  "pending_stream_name (enqueueAudio pcm h) = pending_stream_name h"
  "ringing_provider (enqueueAudio pcm h) = ringing_provider h"
  "ringing_active (enqueueAudio pcm h) = ringing_active h"
  "connected (enqueueAudio pcm h) = connected h"
  by (simp_all add: enqueueAudio_def Let_def split_beta)

lemma clearAudioQueue_fields [frame_simps]:
  "audio_queue (clearAudioQueue h) = []" "partial_frame (clearAudioQueue h) = []"
  "\<not> clear_audio_called (clearAudioQueue h)" "\<not> checkpoint_received (clearAudioQueue h)"
  "pending_stream_id (clearAudioQueue h) = []" "pending_stream_name (clearAudioQueue h) = []"
  "bytes_per_frame (clearAudioQueue h) = bytes_per_frame h"
  "real_time_audio (clearAudioQueue h) = real_time_audio h"
  "ringing_provider (clearAudioQueue h) = ringing_provider h"
  "connected (clearAudioQueue h) = connected h" "ws_uri (clearAudioQueue h) = ws_uri h"
  "current_agent_id (clearAudioQueue h) = current_agent_id h"
  "reconnect_attempts (clearAudioQueue h) = reconnect_attempts h"
  by (simp_all add: clearAudioQueue_def resetCheckpointState_def)

text \<open>The carry-over with the new chunk behind it.\<close>

definition incoming :: "byte list \<Rightarrow> handler \<Rightarrow> byte list" where
  "incoming pcm h = partial_frame h @ drop_odd pcm"

lemma enqueueAudio_incoming:
  "0 < bytes_per_frame h \<Longrightarrow> audio_queue (enqueueAudio pcm h) =
     fst (enqueue_loop (bytes_per_frame h) (real_time_audio h) (incoming pcm h) (audio_queue h) 0)"
  "0 < bytes_per_frame h \<Longrightarrow> partial_frame (enqueueAudio pcm h) =
     drop (snd (enqueue_loop (bytes_per_frame h) (real_time_audio h) (incoming pcm h) (audio_queue h) 0))
       (incoming pcm h)"
  by (simp_all add: enqueueAudio_def Let_def split_beta incoming_def)

lemma enqueueAudio_realtime:
  fixes pcm :: "byte list" and h :: handler
  assumes "0 < bytes_per_frame h" and "real_time_audio h"
  defines "k \<equiv> length (incoming pcm h) div bytes_per_frame h"
  shows "audio_queue (enqueueAudio pcm h) =
      lastn (max MAX_QUEUE_SIZE_RUPTURE (length (audio_queue h)))
        (audio_queue h @ chunks (bytes_per_frame h) k (incoming pcm h))"
    and "partial_frame (enqueueAudio pcm h) = drop (bytes_per_frame h * k) (incoming pcm h)"
  using assms(1,2) by (simp_all add: enqueueAudio_incoming enqueue_loop_realtime Let_def k_def)

lemma enqueueAudio_default:
  fixes pcm :: "byte list" and h :: handler
  assumes "0 < bytes_per_frame h" and "\<not> real_time_audio h"
    and "length (audio_queue h) \<le> MAX_QUEUE_SIZE_DEFAULT"
  defines "k \<equiv> length (incoming pcm h) div bytes_per_frame h"
    and "room \<equiv> MAX_QUEUE_SIZE_DEFAULT - length (audio_queue h)"
  shows "audio_queue (enqueueAudio pcm h) =
      audio_queue h @ chunks (bytes_per_frame h) (min k room) (incoming pcm h)"
    and "partial_frame (enqueueAudio pcm h) =
      drop (bytes_per_frame h * (if k \<le> room then k else Suc room)) (incoming pcm h)"
  using assms(1,2,3)
  by (simp_all add: enqueueAudio_incoming enqueue_loop_default Let_def k_def room_def min_def)

lemma enqueueAudio_zero: "bytes_per_frame h = 0 \<Longrightarrow> enqueueAudio pcm h = h"
  by (simp add: enqueueAudio_def)

lemmas enqueueAudio_closed = enqueueAudio_realtime enqueueAudio_default

section \<open>Well-formed queues\<close>

text \<open>
  Every queued frame is exactly one media frame long, the queue respects its cap, and
  \<open>clear_audio_called\<close> never stays set, because \<open>clearAudioQueue\<close> resets it itself.
\<close>

definition queue_wf :: "handler \<Rightarrow> bool" where
  "queue_wf h \<longleftrightarrow> (\<forall>f \<in> set (audio_queue h). length f = bytes_per_frame h)
     \<and> length (audio_queue h) \<le> MAX_QUEUE_SIZE_DEFAULT \<and> \<not> clear_audio_called h"

datatype audio_op = Enqueue "byte list" | Clear | Fetch

fun audio_step :: "audio_op \<Rightarrow> handler \<Rightarrow> handler" where
  "audio_step (Enqueue pcm) h = enqueueAudio pcm h"
| "audio_step Clear h = clearAudioQueue h"
| "audio_step Fetch h = fst (snd (getAudioFrame h))"

lemma chunk_in_incoming:
  assumes "f \<in> set (chunks b j xs)" and "j \<le> length xs div b"
  shows "length f = b"
proof -
  have "b * j \<le> length xs"
    using assms(2) by (metis div_times_less_eq_dividend mult.commute mult_le_mono1 order_trans)
  with assms(1) show ?thesis by (rule chunks_length_elem [rotated])
qed

lemma enqueueAudio_frames:
  assumes "queue_wf h" and "f \<in> set (audio_queue (enqueueAudio pcm h))"
  shows "length f = bytes_per_frame h"
proof (cases "bytes_per_frame h = 0")
  case True
  with assms show ?thesis by (simp add: enqueueAudio_zero queue_wf_def)
next
  case False
  let ?k = "length (incoming pcm h) div bytes_per_frame h"
  have "f \<in> set (audio_queue h) \<or> (\<exists>j \<le> ?k. f \<in> set (chunks (bytes_per_frame h) j (incoming pcm h)))"
  proof (cases "real_time_audio h")
    case True
    with assms(2) False show ?thesis
      using set_lastn by (fastforce simp: enqueueAudio_realtime)
  next
    case rt: False
    with assms False have "f \<in> set (audio_queue h) \<or> f \<in> set (chunks (bytes_per_frame h)
        (min ?k (MAX_QUEUE_SIZE_DEFAULT - length (audio_queue h))) (incoming pcm h))"
      by (simp add: enqueueAudio_default queue_wf_def)
    then show ?thesis by (meson min.cobounded1)
  qed
  then show ?thesis using assms(1) chunk_in_incoming [of f "bytes_per_frame h" _ "incoming pcm h"]
    by (auto simp: queue_wf_def)
qed

lemma enqueueAudio_bounded:
  assumes "queue_wf h"
  shows "length (audio_queue (enqueueAudio pcm h)) \<le> MAX_QUEUE_SIZE_DEFAULT"
proof (cases "bytes_per_frame h = 0")
  case True
  with assms show ?thesis by (simp add: enqueueAudio_zero queue_wf_def)
next
  case False
  with assms show ?thesis
    by (cases "real_time_audio h")
      (auto simp: enqueueAudio_realtime enqueueAudio_default queue_wf_def
        MAX_QUEUE_SIZE_DEFAULT_def MAX_QUEUE_SIZE_RUPTURE_def)
qed

lemma enqueueAudio_wf [wf_intros]: "queue_wf h \<Longrightarrow> queue_wf (enqueueAudio pcm h)"
  using enqueueAudio_frames [of h _ pcm] enqueueAudio_bounded [of h pcm]
  by (simp add: queue_wf_def frame_simps)

lemma clearAudioQueue_wf [wf_intros]: "queue_wf (clearAudioQueue h)"
  by (simp add: queue_wf_def frame_simps)

lemma getAudioFrame_state:
  "fst (snd (getAudioFrame h)) =
    (case audio_queue h of [] \<Rightarrow> h
     | f # q \<Rightarrow> (if checkpoint_received h \<and> q = [] \<and> \<not> clear_audio_called h
                then fst (sendPlayedStreamEvent (h\<lparr>audio_queue := q\<rparr>)) else h\<lparr>audio_queue := q\<rparr>))"
  by (simp add: getAudioFrame_def Let_def split_beta split: list.split)

lemma getAudioFrame_result: "fst (getAudioFrame h) = (case audio_queue h of [] \<Rightarrow> None | f # q \<Rightarrow> Some f)"
  by (simp add: getAudioFrame_def Let_def split_beta split: list.split)

lemma getAudioFrame_fields [frame_simps]:
  "audio_queue (fst (snd (getAudioFrame h))) = tl (audio_queue h)"
  "partial_frame (fst (snd (getAudioFrame h))) = partial_frame h"
  "bytes_per_frame (fst (snd (getAudioFrame h))) = bytes_per_frame h"
  "real_time_audio (fst (snd (getAudioFrame h))) = real_time_audio h"
  "ringing_provider (fst (snd (getAudioFrame h))) = ringing_provider h"
  "\<not> clear_audio_called h \<Longrightarrow> \<not> clear_audio_called (fst (snd (getAudioFrame h)))"
  by (simp_all add: getAudioFrame_state frame_simps split: list.split)

lemma getAudioFrame_wf [wf_intros]: "queue_wf h \<Longrightarrow> queue_wf (fst (snd (getAudioFrame h)))"
  by (cases "audio_queue h") (auto simp: queue_wf_def frame_simps)

lemma audio_step_wf: "queue_wf h \<Longrightarrow> queue_wf (audio_step e h)"
  by (cases e) (auto intro: wf_intros)

lemma audio_step_bpf: "bytes_per_frame (audio_step e h) = bytes_per_frame h"
  by (cases e) (auto simp: frame_simps)

interpretation audio: observed_machine audio_step "\<lambda>_. True" queue_wf bytes_per_frame
  by unfold_locales (auto intro: audio_step_wf simp: audio_step_bpf)

lemma new_handler_queue_wf: "queue_wf (new_handler rate uri stamp)"
  by (simp add: queue_wf_def new_handler_def frame_simps)

lemma new_handler_bpf: "bytes_per_frame (new_handler rate uri stamp) = frame_bytes rate"
  by (simp add: new_handler_def frame_simps)

section \<open>The queue as a byte stream\<close>

text \<open>The abstraction: all bytes waiting, in the order they will be played.\<close>

definition handler_stream :: "handler \<Rightarrow> byte list" where
  "handler_stream h = concat (audio_queue h) @ partial_frame h"

fun payload :: "audio_op \<Rightarrow> byte list" where
  "payload (Enqueue pcm) = drop_odd pcm"
| "payload _ = []"

fun playback :: "audio_op list \<Rightarrow> handler \<Rightarrow> byte list \<times> handler" where
  "playback [] h = ([], h)"
| "playback (e # es) h =
     (let out = (case e of Fetch \<Rightarrow> (case fst (getAudioFrame h) of None \<Rightarrow> [] | Some f \<Rightarrow> f) | _ \<Rightarrow> []);
          (rest, h') = playback es (audio_step e h)
      in (out @ rest, h'))"

lemma concat_frames_length:
  "\<forall>f \<in> set q. length f = b \<Longrightarrow> length (concat q) = b * length q"
  by (induction q) auto

lemma enqueue_stream:
  assumes wf: "queue_wf h" and b: "0 < bytes_per_frame h" and d: "\<not> real_time_audio h"
    and fit: "length (handler_stream h) + length (drop_odd pcm) \<le> MAX_QUEUE_SIZE_DEFAULT * bytes_per_frame h"
  shows "handler_stream (enqueueAudio pcm h) = handler_stream h @ drop_odd pcm"
proof -
  let ?b = "bytes_per_frame h" and ?q = "audio_queue h" and ?x = "incoming pcm h"
  let ?k = "length ?x div ?b"
  have q: "length ?q \<le> MAX_QUEUE_SIZE_DEFAULT" using wf by (simp add: queue_wf_def)
  have "?b * length ?q + length ?x \<le> MAX_QUEUE_SIZE_DEFAULT * ?b"
    using wf fit concat_frames_length [of ?q ?b] by (simp add: handler_stream_def queue_wf_def incoming_def)
  then have "length ?x \<le> ?b * (MAX_QUEUE_SIZE_DEFAULT - length ?q)"
    by (simp add: diff_mult_distrib2 mult.commute [of MAX_QUEUE_SIZE_DEFAULT])
  then have "?k \<le> MAX_QUEUE_SIZE_DEFAULT - length ?q"
    using b by (metis div_le_mono nonzero_mult_div_cancel_left not_gr_zero)
  then have "handler_stream (enqueueAudio pcm h) = concat ?q @ ?x"
    using q b d
    by (simp add: handler_stream_def enqueueAudio_default min_absorb1 concat_chunks)
  then show ?thesis by (simp add: handler_stream_def incoming_def)
qed

lemma fetch_stream:
  "handler_stream h = (case fst (getAudioFrame h) of None \<Rightarrow> [] | Some f \<Rightarrow> f)
     @ handler_stream (fst (snd (getAudioFrame h)))"
  by (cases "audio_queue h") (auto simp: handler_stream_def frame_simps getAudioFrame_result)


section \<open>Properties\<close>

text \<open>C2: Until the cap is reached, default-mode playback is a first-in first-out byte stream: over
  any schedule of arriving chunks and media-clock fetches, the bytes played followed by the
  bytes still waiting are the bytes that were waiting followed by all bytes received (an odd
  trailing byte of a chunk aside). Nothing is lost, repeated or reordered by the re-framing.\<close>

theorem playback_fifo:
  assumes "queue_wf h" and "0 < bytes_per_frame h" and "\<not> real_time_audio h"
    and "Clear \<notin> set es"
    and "length (handler_stream h) + length (concat (map payload es))
           \<le> MAX_QUEUE_SIZE_DEFAULT * bytes_per_frame h"
    and "playback es h = (out, h')"
  shows "out @ handler_stream h' = handler_stream h @ concat (map payload es)"
  using assms
proof (induction es arbitrary: h out)
  case Nil
  then show ?case by simp
next
  case (Cons e es)
  obtain rest where rest: "playback es (audio_step e h) = (rest, h')"
    using Cons.prems(6) by (auto simp: Let_def split: prod.splits)
  have wf: "queue_wf (audio_step e h)" and b: "0 < bytes_per_frame (audio_step e h)"
    using Cons.prems(1,2) by (simp_all add: audio_step_wf audio_step_bpf)
  show ?case
  proof (cases e)
    case (Enqueue pcm)
    have step: "handler_stream (audio_step e h) = handler_stream h @ drop_odd pcm"
      using Cons.prems Enqueue by (simp add: enqueue_stream)
    have "rest @ handler_stream h' = handler_stream (audio_step e h) @ concat (map payload es)"
      using Cons.IH [OF wf b _ _ _ rest] Cons.prems Enqueue step by (simp add: frame_simps)
    then show ?thesis using Cons.prems(6) rest Enqueue step by (simp add: Let_def)
  next
    case Fetch
    let ?f = "case fst (getAudioFrame h) of None \<Rightarrow> [] | Some f \<Rightarrow> f"
    have step: "handler_stream h = ?f @ handler_stream (audio_step e h)"
      using Fetch fetch_stream [of h] by simp
    then have "length (handler_stream (audio_step e h)) \<le> length (handler_stream h)"
      by (metis length_append le_add2)
    then have IH: "rest @ handler_stream h' = handler_stream (audio_step e h) @ concat (map payload es)"
      using Cons.IH [OF wf b _ _ _ rest] Cons.prems Fetch by (simp add: frame_simps)
    have "out = ?f @ rest" using Cons.prems(6) rest Fetch by (simp add: Let_def)
    then have "out @ handler_stream h' = (?f @ handler_stream (audio_step e h)) @ concat (map payload es)"
      using IH by simp
    then have "out @ handler_stream h' = handler_stream h @ concat (map payload es)"
      unfolding step .
    then show ?thesis using Fetch by simp
  next
    case Clear
    with Cons.prems show ?thesis by simp
  qed
qed

lemma playback_fifo_witness:
  "fst (playback [Enqueue (replicate 321 7), Fetch, Enqueue [9, 9], Fetch]
      (new_handler 8000 ''wss://a'' ''0''))
   @ handler_stream (snd (playback [Enqueue (replicate 321 7), Fetch, Enqueue [9, 9], Fetch]
      (new_handler 8000 ''wss://a'' ''0'')))
   = replicate 320 7 @ [9, 9]"
proof -
  let ?h = "new_handler 8000 ''wss://a'' ''0''"
  let ?es = "[Enqueue (replicate 321 7), Fetch, Enqueue [9, 9], Fetch]"
  have b: "bytes_per_frame ?h = 320" and rt: "\<not> real_time_audio ?h" and e: "handler_stream ?h = []"
    by (simp_all add: new_handler_def frame_simps handler_stream_def str_contains_def)
  have p: "concat (map payload ?es) = replicate 320 7 @ [9, 9]"
    by (simp add: drop_odd_def butlast_conv_take)
  show ?thesis
    using playback_fifo [of ?h ?es "fst (playback ?es ?h)" "snd (playback ?es ?h)"]
    unfolding p e by (simp add: new_handler_queue_wf b rt MAX_QUEUE_SIZE_DEFAULT_def del: playback.simps)
qed

text \<open>When a chunk does not fit, default mode loses exactly one frame, the first that finds the
  queue full, and keeps everything behind it in the carry-over buffer, which no cap bounds.\<close>

lemma enqueue_overflow:
  fixes pcm :: "byte list" and h :: handler
  assumes "queue_wf h" and "0 < bytes_per_frame h" and "\<not> real_time_audio h"
    and "MAX_QUEUE_SIZE_DEFAULT - length (audio_queue h) < length (incoming pcm h) div bytes_per_frame h"
  defines "h' \<equiv> enqueueAudio pcm h"
  shows "\<exists>lost. length lost = bytes_per_frame h
       \<and> handler_stream h @ drop_odd pcm = concat (audio_queue h') @ lost @ partial_frame h'
       \<and> length (audio_queue h') = MAX_QUEUE_SIZE_DEFAULT
       \<and> length (partial_frame h') = length (incoming pcm h)
           - bytes_per_frame h * Suc (MAX_QUEUE_SIZE_DEFAULT - length (audio_queue h))"
proof -
  let ?b = "bytes_per_frame h" and ?x = "incoming pcm h"
  let ?room = "MAX_QUEUE_SIZE_DEFAULT - length (audio_queue h)"
  have q: "length (audio_queue h) \<le> MAX_QUEUE_SIZE_DEFAULT" using assms(1) by (simp add: queue_wf_def)
  have a: "audio_queue h' = audio_queue h @ chunks ?b ?room ?x"
    and p: "partial_frame h' = drop (?b * Suc ?room) ?x"
    using assms(2-4) q by (simp_all add: h'_def enqueueAudio_default)
  let ?lost = "take ?b (drop (?b * ?room) ?x)"
  have "Suc ?room \<le> length ?x div ?b" using assms(4) by simp
  then have "?b * Suc ?room \<le> length ?x"
    using assms(2) by (metis less_eq_div_iff_mult_less_eq mult.commute)
  then have len: "length ?lost = ?b" by simp
  have "?x = take (?b * ?room) ?x @ ?lost @ partial_frame h'"
    unfolding p by (metis append_take_drop_id drop_drop mult_Suc_right)
  then have "concat (audio_queue h) @ ?x = concat (audio_queue h') @ ?lost @ partial_frame h'"
    by (simp add: a concat_chunks)
  then have "handler_stream h @ drop_odd pcm = concat (audio_queue h') @ ?lost @ partial_frame h'"
    by (simp add: handler_stream_def incoming_def)
  then show ?thesis using len q by (intro exI [of _ ?lost]) (simp add: a p)
qed

text \<open>C5: In realtime mode the queue after a chunk is the newest 15 frames of what was queued followed
  by the chunk's complete frames, the oldest frames being evicted, and less than one frame of
  bytes is carried over.\<close>

theorem enqueue_realtime_newest:
  fixes pcm :: "byte list" and h :: handler
  assumes "0 < bytes_per_frame h" and "real_time_audio h"
    and "length (audio_queue h) \<le> MAX_QUEUE_SIZE_RUPTURE"
  defines "k \<equiv> length (incoming pcm h) div bytes_per_frame h"
  shows "audio_queue (enqueueAudio pcm h)
       = lastn 15 (audio_queue h @ chunks (bytes_per_frame h) k (incoming pcm h))
     \<and> length (partial_frame (enqueueAudio pcm h)) < bytes_per_frame h"
proof -
  have "length (incoming pcm h) - bytes_per_frame h * k = length (incoming pcm h) mod bytes_per_frame h"
    unfolding k_def by (simp add: minus_mult_div_eq_mod)
  then show ?thesis
    using assms(1-3)
    by (simp add: enqueueAudio_realtime k_def max_absorb1 MAX_QUEUE_SIZE_RUPTURE_def del: length_append)
qed

lemma enqueue_realtime_newest_witness:
  "audio_queue (enqueueAudio (replicate 321 1) (new_handler 8000 ''wss://rupture'' ''0''))
     = [replicate 320 1]"
proof -
  let ?h = "new_handler 8000 ''wss://rupture'' ''0''"
  have h: "bytes_per_frame ?h = 320" "real_time_audio ?h" "audio_queue ?h = []" "partial_frame ?h = []"
    by (simp_all add: new_handler_def frame_simps str_contains_def)
  have d: "drop_odd (replicate 321 (1::byte)) = replicate 320 1"
    by (simp add: drop_odd_def butlast_conv_take)
  show ?thesis
    using enqueue_realtime_newest [of ?h "replicate 321 1"] h
    by (simp add: d incoming_def MAX_QUEUE_SIZE_RUPTURE_def)
qed

text \<open>Whatever chunks, clears and fetches a handler goes through, every queued frame is exactly one
  media frame long, the queue holds at most 3000 frames, and \<open>clear_audio_called\<close> is never left
  set, so the test of it before a checkpoint acknowledgement never fails.\<close>

lemma audio_run_invariant:
  "(\<forall>f \<in> set (audio_queue (fold audio_step es (new_handler rate uri stamp))).
      length f = frame_bytes rate)
   \<and> length (audio_queue (fold audio_step es (new_handler rate uri stamp))) \<le> 3000
   \<and> \<not> clear_audio_called (fold audio_step es (new_handler rate uri stamp))"
proof -
  let ?h = "fold audio_step es (new_handler rate uri stamp)"
  have "queue_wf ?h" by (rule audio.run_inv) (simp_all add: list_all_iff new_handler_queue_wf)
  moreover have "bytes_per_frame ?h = frame_bytes rate"
    by (subst audio.run_obs) (simp_all add: list_all_iff new_handler_queue_wf new_handler_bpf)
  ultimately show ?thesis by (simp add: queue_wf_def MAX_QUEUE_SIZE_DEFAULT_def)
qed

text \<open>A checkpoint is acknowledged by the fetch that empties the queue and by no other: the effect
  is one \<open>playedStream\<close> message with the checkpoint's stream id and name, after which the
  checkpoint is forgotten; a checkpoint that arrives when nothing is queued is not acknowledged.\<close>

lemma fetch_acknowledges:
  "snd (snd (getAudioFrame h)) =
     (if checkpoint_received h \<and> length (audio_queue h) = 1 \<and> \<not> clear_audio_called h
         \<and> connected h \<and> pending_stream_id h \<noteq> []
      then [SendPlayedStream (pending_stream_id h) (pending_stream_name h)] else [])
   \<and> (snd (snd (getAudioFrame h)) \<noteq> []
      \<longrightarrow> \<not> checkpoint_received (fst (snd (getAudioFrame h)))
        \<and> pending_stream_id (fst (snd (getAudioFrame h))) = [])"
  by (cases "audio_queue h")
    (auto simp: getAudioFrame_def sendPlayedStreamEvent_def resetCheckpointState_def Let_def)

end
