(* ===== verification/Volume.thy ===== *)
theory Volume
  imports Ringing
begin

text \<open>
  \<^verbatim>\<open>adjustVolume\<close> and \<^verbatim>\<open>convertFromMulaw\<close> of \<^verbatim>\<open>websocket_handler.cpp\<close>. A 32-bit float is a
  mantissa and a binary exponent, an infinity, or not a number; the product with a sample is
  rounded to 24 bits, ties to even, as the hardware does. Products that leave the exponent range
  do not need a case of their own: a huge one is clamped and a tiny one truncated to 0 either
  way. The mu-law table is a function argument.
\<close>

datatype f32 = Fin int int | PosInf | NegInf | NaN

text \<open>Number of binary digits.\<close>

fun bitlen :: "nat \<Rightarrow> nat" where
  "bitlen n = (if n = 0 then 0 else Suc (bitlen (n div 2)))"

declare bitlen.simps [simp del]

text \<open>Rounding a natural number to 24 significant bits: the kept bits and the shift.\<close>

definition round24 :: "nat \<Rightarrow> nat \<times> nat" where
  "round24 p =
     (let k = bitlen p - 24; q = p div 2 ^ k; r = p mod 2 ^ k; half = 2 ^ k div 2
      in if k = 0 then (p, 0)
         else (if half < r \<or> (r = half \<and> odd q) then q + 1 else q, k))"

text \<open>The integer part of \<open>q * 2 ^ e\<close>, and whether that value exceeds \<open>b\<close>.\<close>

definition scaled_trunc :: "nat \<Rightarrow> int \<Rightarrow> nat" where
  "scaled_trunc q e = (if 0 \<le> e then q * 2 ^ nat e else q div 2 ^ nat (- e))"

definition scaled_gt :: "nat \<Rightarrow> int \<Rightarrow> nat \<Rightarrow> bool" where
  "scaled_gt q e b \<longleftrightarrow> (if 0 \<le> e then b < q * 2 ^ nat e else b * 2 ^ nat (- e) < q)"

text \<open>One sample: the float product, the clamp and the truncating conversion.\<close>

definition scale_sample :: "int \<Rightarrow> int \<Rightarrow> int \<Rightarrow> int" where
  "scale_sample m e s =
     (let p = s * m; (q, k) = round24 (nat \<bar>p\<bar>); ex = e + int k
      in if 0 \<le> p then (if scaled_gt q ex 32767 then 32767 else int (scaled_trunc q ex))
         else (if scaled_gt q ex 32768 then - 32768 else - int (scaled_trunc q ex)))"

text \<open>An infinite volume gives an infinity, or not a number on silence, whose conversion to an
  integer is undefined: \<open>None\<close>. Comparisons with not a number are false.\<close>

definition scale_inf :: "int \<Rightarrow> int option" where
  "scale_inf s = (if s = 0 then None else Some (if 0 < s then 32767 else - 32768))"

definition map_samples :: "(int \<Rightarrow> int) \<Rightarrow> byte list \<Rightarrow> byte list" where
  "map_samples f bs = pcm_bytes (map (\<lambda>s. word_of_int (f (sint s))) (pcm_samples bs))
     @ drop (2 * (length bs div 2)) bs"

text \<open>\<open>|volume - 1| < 0.001f\<close>, where \<^verbatim>\<open>0.001f\<close> is 8589935 / 2^33; the difference of two floats this
  close to each other is exact.\<close>

definition near_one :: "int \<Rightarrow> int \<Rightarrow> bool" where
  "near_one m e \<longleftrightarrow>
     (if 0 \<le> e then \<bar>m * 2 ^ nat e - 1\<bar> * 2 ^ 33 < 8589935
      else \<bar>m - 2 ^ nat (- e)\<bar> * 2 ^ 33 < 8589935 * 2 ^ nat (- e))"

definition adjustVolume :: "byte list \<Rightarrow> f32 \<Rightarrow> byte list option" where
  "adjustVolume audio volume =
     (if audio = [] then Some []
      else (case volume of
              Fin m e \<Rightarrow> (let m' = max m 0
                          in if near_one m' e then Some audio else Some (map_samples (scale_sample m' e) audio))
            | NegInf \<Rightarrow> Some (map_samples (\<lambda>s. 0) audio)
            | PosInf \<Rightarrow> (if list_all (\<lambda>s. s \<noteq> 0) (pcm_samples audio)
                         then Some (map_samples (\<lambda>s. the (scale_inf s)) audio) else None)
            | NaN \<Rightarrow> if length audio < 2 then Some audio else None))"

text \<open>\<^verbatim>\<open>convertFromMulaw\<close>: the two bytes of each sample by mask and shift.\<close>

definition convertFromMulaw :: "(byte \<Rightarrow> sample) \<Rightarrow> byte list \<Rightarrow> byte list" where
  "convertFromMulaw ulaw_to_linear mulaw_data = concat (map (\<lambda>b. ring_bytes (ulaw_to_linear b)) mulaw_data)"

section \<open>Facts\<close>

lemma length_map_samples [simp]: "length (map_samples f bs) = length bs"
  by (simp add: map_samples_def)

lemma adjustVolume_length: "adjustVolume bs v = Some bs' \<Longrightarrow> length bs' = length bs"
  by (auto simp: adjustVolume_def Let_def split: if_splits f32.splits)

lemma convertFromMulaw_samples [simp]:
  "pcm_samples (convertFromMulaw ul bs) = map ul bs" "length (convertFromMulaw ul bs) = 2 * length bs"
  by (induction bs) (auto simp: convertFromMulaw_def le16_bytes_def)

lemma bitlen_less: "n < 2 ^ k \<Longrightarrow> bitlen n \<le> k"
proof (induction n arbitrary: k rule: bitlen.induct)
  case (1 n)
  show ?case
  proof (cases k)
    case 0
    with 1 show ?thesis by (simp add: bitlen.simps)
  next
    case (Suc j)
    with "1.prems" have "n div 2 < 2 ^ j" by auto
    with "1.IH" Suc show ?thesis by (subst bitlen.simps) auto
  qed
qed

lemma round24_exact: "p < 2 ^ 24 \<Longrightarrow> round24 p = (p, 0)"
  using bitlen_less [of p 24] by (simp add: round24_def Let_def)

lemma scale_sample_range: "- 32768 \<le> scale_sample m e s \<and> scale_sample m e s \<le> 32767"
proof -
  have t: "\<not> scaled_gt q ex b \<Longrightarrow> scaled_trunc q ex \<le> b" for q ex b
  proof (cases "0 \<le> ex")
    case False
    assume "\<not> scaled_gt q ex b"
    with False have "q \<le> b * 2 ^ nat (- ex)" by (simp add: scaled_gt_def)
    then have "q div 2 ^ nat (- ex) \<le> b * 2 ^ nat (- ex) div 2 ^ nat (- ex)" by (rule div_le_mono)
    with False show ?thesis by (simp add: scaled_trunc_def)
  qed (auto simp: scaled_gt_def scaled_trunc_def)
  obtain q k where r: "round24 (nat \<bar>s * m\<bar>) = (q, k)" by fastforce
  show ?thesis
    using t [of q "e + int k" 32767] t [of q "e + int k" 32768]
    by (auto simp: scale_sample_def r Let_def)
qed

lemma sint_word_sample: "- 32768 \<le> i \<Longrightarrow> i \<le> 32767 \<Longrightarrow> sint (word_of_int i :: sample) = i"
proof -
  assume "- 32768 \<le> i" and "i \<le> 32767"
  then have "signed_take_bit 15 i = i" by (intro signed_take_bit_int_eq_self) auto
  then show ?thesis by (simp add: sint_sbintrunc')
qed

lemma map_samples_samples:
  "pcm_samples (map_samples f bs) = map (\<lambda>s. word_of_int (f (sint s))) (pcm_samples bs)"
proof -
  have p: "pcm_samples (pcm_bytes xs @ ys) = xs @ pcm_samples ys" for xs ys
    by (induction xs) (auto simp: le16_bytes_def)
  have "length (drop (2 * (length bs div 2)) bs) < 2" by simp
  then have "pcm_samples (drop (2 * (length bs div 2)) bs) = []"
    using length_pcm_samples [of "drop (2 * (length bs div 2)) bs"] by (metis div_less length_0_conv)
  then show ?thesis by (simp add: map_samples_def p)
qed

lemma scale_sample_exact:
  assumes "\<bar>s\<bar> \<le> 32768" and "0 \<le> m" and "m < 512"
  shows "scale_sample m (- int n) s
    = max (- 32768) (min 32767 (sgn s * (\<bar>s\<bar> * m div 2 ^ n)))"
proof -
  have "\<bar>s\<bar> * m \<le> 32768 * 511" using assms by (intro mult_mono) auto
  then have "nat \<bar>s * m\<bar> < 2 ^ 24" using assms(2) by (simp add: abs_mult)
  then have r: "round24 (nat \<bar>s * m\<bar>) = (nat \<bar>s * m\<bar>, 0)" by (rule round24_exact)
  have tr: "int (scaled_trunc q (- int n)) = int q div 2 ^ n" for q
    by (cases "n = 0") (simp_all add: scaled_trunc_def zdiv_int)
  have gt: "scaled_gt q (- int n) b \<longleftrightarrow> int b * 2 ^ n < int q" for q b
  proof -
    have "scaled_gt q (- int n) b \<longleftrightarrow> b * 2 ^ n < q" by (cases "n = 0") (simp_all add: scaled_gt_def)
    also have "\<dots> \<longleftrightarrow> int (b * 2 ^ n) < int q" by (simp only: of_nat_less_iff)
    finally show ?thesis by simp
  qed
  define x where "x = \<bar>s\<bar> * m"
  define t where "t = x div 2 ^ n"
  have x: "int (nat \<bar>s * m\<bar>) = x" using assms(2) by (simp add: x_def abs_mult)
  have sc: "scale_sample m (- int n) s =
      (if 0 \<le> s * m then (if 32767 * 2 ^ n < x then 32767 else t)
       else (if 32768 * 2 ^ n < x then - 32768 else - t))"
  proof -
    define p where "p = nat \<bar>s * m\<bar>"
    have "scale_sample m (- int n) s =
      (if 0 \<le> s * m then (if scaled_gt p (- int n) 32767 then 32767 else int (scaled_trunc p (- int n)))
       else (if scaled_gt p (- int n) 32768 then - 32768 else - int (scaled_trunc p (- int n))))"
      using r unfolding scale_sample_def Let_def p_def [symmetric] by simp
    moreover have "int p = x" using x by (simp add: p_def)
    ultimately show ?thesis by (simp add: gt tr t_def)
  qed
  have big: "b \<le> t" if "b * 2 ^ n < x" for b
    using zdiv_mono1 [of "b * 2 ^ n" x "2 ^ n"] that by (simp add: t_def)
  have small: "t \<le> b" if "\<not> b * 2 ^ n < x" for b
    using zdiv_mono1 [of x "b * 2 ^ n" "2 ^ n"] that by (simp add: t_def)
  have nn: "0 \<le> t" using assms(2) by (simp add: t_def x_def pos_imp_zdiv_nonneg_iff)
  have goal: "sgn s * (\<bar>s\<bar> * m div 2 ^ n) = sgn s * t" by (simp add: t_def x_def)
  consider (zero) "s = 0 \<or> m = 0" | (pos) "0 < s" "0 < m" | (neg) "s < 0" "0 < m"
    using assms(2) by fastforce
  then show ?thesis
  proof cases
    case zero
    then have "x = 0" and "t = 0" and "s * m = 0" by (auto simp: x_def t_def)
    then show ?thesis unfolding goal by (simp add: sc)
  next
    case pos
    then have p: "0 \<le> s * m" "sgn s = 1" by auto
    show ?thesis
    proof (cases "32767 * 2 ^ n < x")
      case True
      with big [OF this] p show ?thesis unfolding goal by (simp add: sc)
    next
      case False
      with small [OF this] nn p show ?thesis unfolding goal by (simp add: sc)
    qed
  next
    case neg
    then have p: "\<not> 0 \<le> s * m" "sgn s = -1" by (auto simp: zero_le_mult_iff)
    show ?thesis
    proof (cases "32768 * 2 ^ n < x")
      case True
      with big [OF this] p show ?thesis unfolding goal by (simp add: sc)
    next
      case False
      with small [OF this] nn p show ?thesis unfolding goal by (simp add: sc)
    qed
  qed
qed

section \<open>Properties\<close>

text \<open>Scaling by a volume \<open>m / 2^n\<close> with \<open>m < 512\<close> that is not within a thousandth of 1 is exact:
  each sample becomes its product with the volume, truncated towards zero and clamped to the
  16-bit range; the buffer keeps its length and a trailing odd byte.\<close>

lemma volume_scales:
  assumes "0 \<le> m" and "m < 512" and "\<not> near_one m (- int n)"
    and "adjustVolume audio (Fin m (- int n)) = Some out"
  shows "length out = length audio
    \<and> map sint (pcm_samples out) =
        map (\<lambda>s. max (- 32768) (min 32767 (sgn (sint s) * (\<bar>sint s\<bar> * m div 2 ^ n)))) (pcm_samples audio)"
proof -
  have range: "\<bar>sint s\<bar> \<le> 32768" for s :: sample
    using sint_greater_eq [of s] sint_less [of s] by simp
  have one: "sint (word_of_int (scale_sample m (- int n) (sint s)) :: sample)
      = max (- 32768) (min 32767 (sgn (sint s) * (\<bar>sint s\<bar> * m div 2 ^ n)))" for s :: sample
    using scale_sample_range [of m "- int n" "sint s"] scale_sample_exact [OF range [of s] assms(1,2)]
    by (simp add: sint_word_sample)
  show ?thesis
  proof (cases "audio = []")
    case True
    with assms(4) show ?thesis by (simp add: adjustVolume_def)
  next
    case False
    with assms have out: "out = map_samples (scale_sample m (- int n)) audio"
      by (simp add: adjustVolume_def Let_def max_def split: if_splits)
    show ?thesis by (simp add: out map_samples_samples one)
  qed
qed

end
