(* ===== verification/Ws_Session.thy ===== *)
theory Ws_Session
  imports Ws_Queue Volume Cpp_Std
begin

text \<open>
  The WebSocket session of \<^verbatim>\<open>WebSocketAudioHandler\<close>: connecting and disconnecting, the open, close
  and message handlers, reconnecting after a drop, sending, and the three transfers. Every
  operation returns the new handler and the calls it made on other objects, in order. What
  comes from outside is an argument: the JSON library and the decoders (record \<open>ws_libs\<close>), the
  outcome of a connection attempt, clock stamps, the file system for the ringing audio, the
  environment, and the hangup source the media port reports.
\<close>

section \<open>Connecting\<close>

definition sendStartEvent :: "handler \<Rightarrow> ws_effect list" where
  "sendStartEvent h = (if connected h then [SendStart (stream_id h) (h_sample_rate h)] else [])"

definition open_handler :: "handler \<Rightarrow> handler \<times> ws_effect list" where
  "open_handler h = (let h' = h\<lparr>connected := True\<rparr> in (h', sendStartEvent h'))"

text \<open>A connection attempt: refused by \<^verbatim>\<open>get_connection\<close>, an exception, or a client thread whose open
  handler has run by the \<open>i\<close>-th test of \<open>connected\<close> when \<open>f i\<close>.\<close>

datatype conn = CreateError | ConnectThrows | ClientRuns "nat \<Rightarrow> bool"

definition CONNECT_POLLS :: nat where "CONNECT_POLLS = 50"

fun poll_loop :: "(nat \<Rightarrow> bool) \<Rightarrow> nat \<Rightarrow> nat \<Rightarrow> handler \<Rightarrow> handler \<times> ws_effect list" where
  "poll_loop f i 0 h = (if \<not> connected h \<and> f i then open_handler h else (h, []))"
| "poll_loop f i (Suc timeout) h =
     (if connected h then (h, []) else if f i then open_handler h else poll_loop f (Suc i) timeout h)"

definition ws_connect :: "file_system \<Rightarrow> conn \<Rightarrow> string \<Rightarrow> handler \<Rightarrow> bool \<times> handler \<times> ws_effect list" where
  "ws_connect fs c uri h =
     (if uri = ''TEST_SIPP_RINGING'' then (True, (startRinging fs h)\<lparr>connected := True\<rparr>, [])
      else (case c of
              CreateError \<Rightarrow> (False, h, [])
            | ConnectThrows \<Rightarrow> (False, h, [])
            | ClientRuns f \<Rightarrow> (let (h', es) = poll_loop f 0 CONNECT_POLLS h in (connected h', h', es))))"

text \<open>Closing the connection, with its reason, and \<^verbatim>\<open>disconnect\<close>.\<close>

definition close_ws :: "string \<Rightarrow> handler \<Rightarrow> handler \<times> ws_effect list" where
  "close_ws reason h = (if connected h then (h\<lparr>connected := False\<rparr>, [CloseWs reason]) else (h, []))"

definition ws_disconnect :: "handler \<Rightarrow> handler \<times> ws_effect list" where
  "ws_disconnect h =
     (if connected h then (h\<lparr>intentional_close := True, connected := False\<rparr>, [CloseWs ''Call ended'']) else (h, []))"

section \<open>A dropped connection\<close>

definition invoke_callback :: "handler \<Rightarrow> ws_effect list" where
  "invoke_callback h = (if has_callback h then [InvokeDisconnect] else [])"

text \<open>Blame the WebSocket unless somebody has been blamed already.\<close>

definition blame :: "string \<Rightarrow> string \<Rightarrow> handler \<Rightarrow> ws_effect list" where
  "blame reason src h = (if has_med_port h \<and> src \<noteq> [] \<and> src = ''none'' then [SetHangupSource reason] else [])"

definition may_reconnect :: "handler \<Rightarrow> bool" where
  "may_reconnect h \<longleftrightarrow> \<not> str_contains ''rupture2'' (ws_uri h) \<and> reconnect_attempts h < MAX_RECONNECT_ATTEMPTS"

text \<open>\<open>con_ok\<close> is false when \<^verbatim>\<open>get_con_from_hdl\<close> throws.\<close>

definition close_handler :: "bool \<Rightarrow> string \<Rightarrow> handler \<Rightarrow> handler \<times> ws_effect list" where
  "close_handler con_ok src h0 =
     (if \<not> con_ok then (h0, [])
      else
        (let h = h0\<lparr>connected := False\<rparr>
         in if agent_transfer_in_progress h then (h, [])
            else if hangup_received h \<or> intentional_close h
            then (h\<lparr>hangup_received := False\<rparr>, invoke_callback h)
            else if may_reconnect h
            then (h\<lparr>reconnect_attempts := reconnect_attempts h + 1\<rparr>, [SpawnReconnect])
            else (h, blame ''Websocket'' src h @ invoke_callback h)))"

definition reconnect_uri :: "string \<Rightarrow> string" where
  "reconnect_uri uri =
     (if str_contains ''reconnect='' uri then uri
      else uri @ (if str_contains ''?'' uri then ''&reconnect=true'' else ''?reconnect=true''))"

text \<open>The reconnect thread: \<open>new_uri\<close> was computed when the thread started, the rest runs 500 ms
  later, on the handler as it is then.\<close>

definition attemptReconnect :: "file_system \<Rightarrow> conn \<Rightarrow> string \<Rightarrow> string \<Rightarrow> string \<Rightarrow> handler \<Rightarrow> handler \<times> ws_effect list" where
  "attemptReconnect fs c stamp src new_uri h =
     (if intentional_close h then (h, [])
      else
        (let h1 = h\<lparr>sequence_number := 0, stream_id := ''MZ'' @ stamp, ws_uri := new_uri\<rparr>;
             (ok, h2, es) = ws_connect fs c new_uri h1
         in if ok then (h2, es)
            else if \<not> intentional_close h2 \<and> reconnect_attempts h2 < MAX_RECONNECT_ATTEMPTS
            then (h2\<lparr>reconnect_attempts := reconnect_attempts h2 + 1\<rparr>, es @ [SpawnReconnect])
            else (h2, es @ blame ''Websocket'' src h2 @ invoke_callback h2)))"

section \<open>Sending\<close>

text \<open>\<open>ec\<close> says whether \<^verbatim>\<open>send\<close> reported an error.\<close>

definition sendAudioFrame :: "bool \<Rightarrow> byte list \<Rightarrow> handler \<Rightarrow> handler \<times> ws_effect list" where
  "sendAudioFrame ec data h =
     (if \<not> connected h then (h, [])
      else
        (let n = sequence_number h + 1; h1 = h\<lparr>sequence_number := n\<rparr>
         in (if ec then h1\<lparr>connected := False\<rparr> else h1, [SendMedia n data (stream_id h)])))"

definition sendDtmfEvent :: "char \<Rightarrow> handler \<Rightarrow> ws_effect list" where
  "sendDtmfEvent digit h = (if connected h then [SendDtmfMsg [digit] (stream_id h)] else [])"

section \<open>Messages\<close>

text \<open>
  The libraries: the JSON parser and accessors, where \<open>None\<close> is an exception, and the decoders.
  \<open>json_at j k\<close> is \<^verbatim>\<open>j[k]\<close>, which gives null for a missing key; \<open>json_str\<close> throws on what is not
  a string.
\<close>

record 'j ws_libs =
  json_parse :: "string \<Rightarrow> 'j option"
  json_at :: "'j \<Rightarrow> string \<Rightarrow> 'j option"
  json_has :: "'j \<Rightarrow> string \<Rightarrow> bool"
  json_str :: "'j \<Rightarrow> string option"
  json_float :: "'j \<Rightarrow> f32 option"
  base64_decode :: "string \<Rightarrow> byte list"
  ulaw_to_linear :: "byte \<Rightarrow> sample"

definition json_field :: "'j ws_libs \<Rightarrow> 'j \<Rightarrow> string \<Rightarrow> string option" where
  "json_field L j k = Option.bind (json_at L j k) (json_str L)"

text \<open>\<open>playAudio\<close>: the first audio after a transfer ends the ringing. The outer \<open>None\<close> is the
  undefined conversion of \<open>adjustVolume\<close>.\<close>

definition stop_ringing_on_audio :: "handler \<Rightarrow> handler" where
  "stop_ringing_on_audio h =
     (if ringing_active h \<and> has_med_port h then clearAudioQueue (stopRinging h) else h)"

definition decode_media :: "'j ws_libs \<Rightarrow> 'j \<Rightarrow> byte list option option" where
  "decode_media L media =
     (case (json_field L media ''payload'', json_field L media ''contentType'') of
        (Some text, Some contentType) \<Rightarrow>
          (let raw = base64_decode L text;
               decoded = (if contentType = ''audio/x-mulaw'' then convertFromMulaw (ulaw_to_linear L) raw else raw)
           in if json_has L media ''volume''
              then (case Option.bind (json_at L media ''volume'') (json_float L) of
                      None \<Rightarrow> Some (Some decoded)
                    | Some v \<Rightarrow> (case adjustVolume decoded v of None \<Rightarrow> None | Some d \<Rightarrow> Some (Some d)))
              else Some (Some decoded))
      | _ \<Rightarrow> Some None)"

definition on_playAudio :: "'j ws_libs \<Rightarrow> 'j \<Rightarrow> handler \<Rightarrow> handler option" where
  "on_playAudio L j h =
     (case json_at L j ''media'' of
        None \<Rightarrow> Some h
      | Some media \<Rightarrow>
          (let h1 = stop_ringing_on_audio h
           in case decode_media L media of
                None \<Rightarrow> None
              | Some None \<Rightarrow> Some h1
              | Some (Some decoded) \<Rightarrow> Some (enqueueAudio decoded h1)))"

definition on_hangup :: "'j ws_libs \<Rightarrow> 'j \<Rightarrow> string \<Rightarrow> handler \<Rightarrow> handler \<times> ws_effect list" where
  "on_hangup L j src h0 =
     (let h = h0\<lparr>hangup_received := True\<rparr>
      in if has_med_port h
         then (case json_field L j ''hangupType'' of
                 None \<Rightarrow> (h, [])
               | Some reason \<Rightarrow> (h, blame reason src h @ invoke_callback h))
         else (h, invoke_callback h))"

definition on_sendDtmf :: "'j ws_libs \<Rightarrow> 'j \<Rightarrow> handler \<Rightarrow> ws_effect list" where
  "on_sendDtmf L j h =
     (if json_has L j ''text''
      then (case json_field L j ''text'' of
              None \<Rightarrow> [] | Some t \<Rightarrow> if has_med_port h then [ForwardDtmf t] else [])
      else [])"

definition on_checkpoint :: "'j ws_libs \<Rightarrow> 'j \<Rightarrow> handler \<Rightarrow> handler" where
  "on_checkpoint L j h0 =
     (let h = h0\<lparr>checkpoint_received := True\<rparr>;
          set_name = (\<lambda>g. if json_has L j ''name''
                          then (case json_field L j ''name'' of None \<Rightarrow> g | Some n \<Rightarrow> g\<lparr>pending_stream_name := n\<rparr>)
                          else g)
      in if json_has L j ''streamId''
         then (case json_field L j ''streamId'' of
                 None \<Rightarrow> h
               | Some s \<Rightarrow> set_name (h\<lparr>pending_stream_id := s\<rparr>))
         else set_name h)"

definition on_agentTransfer :: "'j ws_libs \<Rightarrow> 'j \<Rightarrow> handler \<Rightarrow> handler \<times> ws_effect list" where
  "on_agentTransfer L j h0 =
     (let h = h0\<lparr>agent_transfer_in_progress := True\<rparr>
      in if json_has L j ''agentId''
         then (case json_field L j ''agentId'' of None \<Rightarrow> (h, []) | Some a \<Rightarrow> (h, [SpawnAgentTransfer a]))
         else (h\<lparr>agent_transfer_in_progress := False\<rparr>, []))"

definition on_humanTransfer :: "'j ws_libs \<Rightarrow> 'j \<Rightarrow> handler \<Rightarrow> handler \<times> ws_effect list" where
  "on_humanTransfer L j h0 =
     (let h = h0\<lparr>agent_transfer_in_progress := True\<rparr>
      in if json_has L j ''humanNumber''
         then (case json_field L j ''humanNumber'' of None \<Rightarrow> (h, []) | Some n \<Rightarrow> (h, [SpawnNumberTransfer n]))
         else if json_has L j ''humanId''
         then (case json_field L j ''humanId'' of None \<Rightarrow> (h, []) | Some i \<Rightarrow> (h, [SpawnHumanTransfer i]))
         else (h\<lparr>agent_transfer_in_progress := False\<rparr>, []))"

definition dispatch :: "'j ws_libs \<Rightarrow> 'j \<Rightarrow> string \<Rightarrow> string \<Rightarrow> handler \<Rightarrow> (handler \<times> ws_effect list) option" where
  "dispatch L j event src h =
     (if event = ''playAudio'' then map_option (\<lambda>h'. (h', [])) (on_playAudio L j h)
      else Some
        (if event = ''clearAudio'' then (clearAudioQueue h, [])
         else if event = ''hangup'' then on_hangup L j src h
         else if event = ''sendDtmf'' then (h, on_sendDtmf L j h)
         else if event = ''checkpoint'' then (on_checkpoint L j h, [])
         else if event = ''agentTransfer'' then on_agentTransfer L j h
         else if event = ''humanTransfer'' then on_humanTransfer L j h
         else (h, [])))"

definition message_handler :: "'j ws_libs \<Rightarrow> bool \<Rightarrow> string \<Rightarrow> string \<Rightarrow> handler \<Rightarrow> (handler \<times> ws_effect list) option" where
  "message_handler L is_text msg src h =
     (if \<not> is_text then Some (h, [])
      else (case json_parse L msg of
              None \<Rightarrow> Some (h, [])
            | Some j \<Rightarrow> (case json_field L j ''event'' of
                           None \<Rightarrow> Some (h, [])
                         | Some event \<Rightarrow> dispatch L j event src h)))"

section \<open>Transfers\<close>

text \<open>
  \<open>performAgentTransfer\<close>: the new URI is spliced from the old one around the agent id. Both
  positions are used without a test for \<open>npos\<close>; \<^verbatim>\<open>substr\<close> throws (\<open>None\<close>) past the end, and the
  \<^verbatim>\<open>catch\<close> ends the transfer and the call.
\<close>

definition agent_transfer_uri :: "string \<Rightarrow> string \<Rightarrow> string \<Rightarrow> string option" where
  "agent_transfer_uri uri cur new_id =
     (case substr_from uri (sz_add (sz_add (find_npos cur uri) (length cur)) 1) of
        None \<Rightarrow> None
      | Some call_id_part \<Rightarrow>
          Some (take (sz_add (find_npos ''agent='' uri) 6) uri @ new_id @ ''_'' @ call_id_part))"

definition abort_transfer :: "handler \<Rightarrow> handler \<times> ws_effect list" where
  "abort_transfer h = (h\<lparr>agent_transfer_in_progress := False\<rparr>, invoke_callback h)"

definition performAgentTransfer ::
  "file_system \<Rightarrow> conn \<Rightarrow> string \<Rightarrow> string \<Rightarrow> handler \<Rightarrow> handler \<times> ws_effect list" where
  "performAgentTransfer fs c stamp new_id h0 =
     (let h = clearAudioQueue h0
      in case agent_transfer_uri (ws_uri h) (current_agent_id h) new_id of
           None \<Rightarrow> abort_transfer h
         | Some new_uri \<Rightarrow>
             (let (h1, es1) = close_ws ''Agent transfer'' h;
                  h2 = h1\<lparr>ws_uri := new_uri,
                          real_time_audio := real_time_audio h1 \<or> str_contains ''rupture'' new_uri,
                          current_agent_id := new_id, sequence_number := 0, stream_id := ''MZ'' @ stamp\<rparr>;
                  (ok, h3, es3) = ws_connect fs c new_uri h2
              in if ok then (h3\<lparr>agent_transfer_in_progress := False\<rparr>, es1 @ es3)
                 else (let (h4, es4) = abort_transfer (stopRinging h3) in (h4, es1 @ es3 @ es4))))"

text \<open>\<open>performHumanTransfer\<close>: the target and the call id parsed from the URI; \<open>None\<close> is the early
  return when it cannot be parsed and no override is configured.\<close>

definition human_base :: "env \<Rightarrow> string \<times> bool" where
  "human_base ev = (case ev ''HUMAN_TRANSFER_WS_URL'' of
      Some u \<Rightarrow> if u \<noteq> [] then (u, True) else (''wss://rupture2.chatwoot.store/ws'', False)
    | None \<Rightarrow> (''wss://rupture2.chatwoot.store/ws'', False))"

definition human_call_id :: "bool \<Rightarrow> string \<Rightarrow> string option" where
  "human_call_id is_override uri =
     (let dflt = (if is_override then Some ''local'' else None)
      in case str_find ''agent='' uri of
           None \<Rightarrow> dflt
         | Some p \<Rightarrow>
             (let agent_value = drop (p + 6) uri
              in case str_find ''_'' agent_value of
                   None \<Rightarrow> dflt
                 | Some u \<Rightarrow>
                     (let remaining = drop (u + 1) agent_value
                      in Some (case str_find ''_'' remaining of None \<Rightarrow> remaining | Some n \<Rightarrow> take n remaining))))"

definition human_ws_uri :: "env \<Rightarrow> handler \<Rightarrow> string option" where
  "human_ws_uri ev h =
     (let (base, is_override) = human_base ev
      in map_option (\<lambda>call_id. base @ (if str_contains ''?'' base then ''&'' else ''?'') @ ''callId='' @ call_id @
           ''&sampleRate='' @ to_string (h_sample_rate h)) (human_call_id is_override (ws_uri h)))"

definition performHumanTransfer ::
  "env \<Rightarrow> file_system \<Rightarrow> conn \<Rightarrow> string \<Rightarrow> string \<Rightarrow> handler \<Rightarrow> handler \<times> ws_effect list" where
  "performHumanTransfer ev fs c stamp human_id h0 =
     (let h = startRinging fs (clearAudioQueue h0)
      in case human_ws_uri ev h of
           None \<Rightarrow> (h\<lparr>agent_transfer_in_progress := False\<rparr>, [])
         | Some uri \<Rightarrow>
             (let (h1, es1) = close_ws ''Human transfer'' h;
                  h2 = h1\<lparr>ws_uri := uri, real_time_audio := True, current_agent_id := ''HUMAN_'' @ human_id,
                          sequence_number := 0, stream_id := ''HT'' @ stamp\<rparr>;
                  (ok, h3, es3) = ws_connect fs c uri h2
              in if ok
                 then (h3\<lparr>agent_transfer_in_progress := False\<rparr>,
                       es1 @ es3 @ (if has_med_port h3 then [DiscardRecording] else []))
                 else (let (h4, es4) = abort_transfer (stopRinging h3) in (h4, es1 @ es3 @ es4))))"

definition performHumanNumberTransfer :: "file_system \<Rightarrow> string \<Rightarrow> handler \<Rightarrow> handler \<times> ws_effect list" where
  "performHumanNumberTransfer fs number h0 =
     (let (h, es) = close_ws ''Human phone transfer'' (startRinging fs (clearAudioQueue h0))
      in if has_med_port h then (h, es @ [StartNumberTransfer number])
         else ((stopRinging h)\<lparr>agent_transfer_in_progress := False\<rparr>, es))"

section \<open>Facts about connecting\<close>

lemma open_handler_eq:
  "open_handler h = (h\<lparr>connected := True\<rparr>, [SendStart (stream_id h) (h_sample_rate h)])"
  by (simp add: open_handler_def sendStartEvent_def Let_def)

lemma poll_loop_eq:
  "poll_loop f i n h =
     (if \<not> connected h \<and> (\<exists>k \<le> n. f (i + k)) then open_handler h else (h, []))"
proof (induction f i n h rule: poll_loop.induct)
  case (2 f i n h)
  have "(\<exists>k \<le> Suc n. f (i + k)) \<longleftrightarrow> f i \<or> (\<exists>k \<le> n. f (Suc i + k))"
  proof
    assume "\<exists>k \<le> Suc n. f (i + k)"
    then obtain k where "k \<le> Suc n" "f (i + k)" by blast
    then show "f i \<or> (\<exists>k \<le> n. f (Suc i + k))" by (cases k) auto
  qed (metis Suc_le_mono add_Suc_right add_Suc le0 add_0_right)
  with 2 show ?case by auto
qed auto

lemma ws_connect_frame:
  assumes "ws_connect fs c uri h = (ok, h', es)"
  shows "reconnect_attempts h' = reconnect_attempts h" "intentional_close h' = intentional_close h"
    "agent_transfer_in_progress h' = agent_transfer_in_progress h" "has_callback h' = has_callback h"
    "has_med_port h' = has_med_port h" "current_agent_id h' = current_agent_id h" "ws_uri h' = ws_uri h"
    "SpawnReconnect \<notin> set es" "InvokeDisconnect \<notin> set es" "hangup_received h' = hangup_received h"
    "ok \<longrightarrow> connected h'"
  using assms
  by (auto simp: ws_connect_def poll_loop_eq open_handler_eq Let_def frame_simps split: if_splits conn.splits)

lemma ws_connect_ok:
  assumes "ws_connect fs c uri h = (ok, h', es)" and "uri \<noteq> ''TEST_SIPP_RINGING''" and "\<not> connected h"
  shows "ok \<longleftrightarrow> (\<exists>f. c = ClientRuns f \<and> (\<exists>k \<le> CONNECT_POLLS. f k))"
    and "es = (if ok then [SendStart (stream_id h) (h_sample_rate h)] else [])"
  using assms
  by (auto simp: ws_connect_def poll_loop_eq open_handler_eq Let_def split: if_splits conn.splits)

text \<open>An attempt that opens in time.\<close>

definition conn_opens :: "conn \<Rightarrow> bool" where
  "conn_opens c \<longleftrightarrow> (case c of ClientRuns f \<Rightarrow> list_ex f [0 ..< Suc CONNECT_POLLS] | _ \<Rightarrow> False)"

lemma conn_opens_iff: "conn_opens c \<longleftrightarrow> (\<exists>f. c = ClientRuns f \<and> (\<exists>k \<le> CONNECT_POLLS. f k))"
  by (auto simp: conn_opens_def list_ex_iff less_Suc_eq_le simp del: upt_Suc split: conn.splits)

lemma ws_connect_eq:
  assumes "uri \<noteq> ''TEST_SIPP_RINGING''" and "\<not> connected h"
  shows "ws_connect fs c uri h =
    (if conn_opens c then (True, h\<lparr>connected := True\<rparr>, [SendStart (stream_id h) (h_sample_rate h)]) else (False, h, []))"
  using assms by (auto simp: ws_connect_def poll_loop_eq open_handler_eq conn_opens_iff Let_def split: conn.splits)

lemma clearAudioQueue_session [frame_simps]:
  "connected (clearAudioQueue h) = connected h" "ws_uri (clearAudioQueue h) = ws_uri h"
  "current_agent_id (clearAudioQueue h) = current_agent_id h"
  "has_callback (clearAudioQueue h) = has_callback h" "has_med_port (clearAudioQueue h) = has_med_port h"
  "agent_transfer_in_progress (clearAudioQueue h) = agent_transfer_in_progress h"
  "reconnect_attempts (clearAudioQueue h) = reconnect_attempts h"
  "h_sample_rate (clearAudioQueue h) = h_sample_rate h"
  "intentional_close (clearAudioQueue h) = intentional_close h"
  by (simp_all add: clearAudioQueue_def resetCheckpointState_def)

lemma close_ws_fields [frame_simps]:
  "connected (fst (close_ws r h)) = False" "ws_uri (fst (close_ws r h)) = ws_uri h"
  "reconnect_attempts (fst (close_ws r h)) = reconnect_attempts h"
  "has_callback (fst (close_ws r h)) = has_callback h" "has_med_port (fst (close_ws r h)) = has_med_port h"
  "intentional_close (fst (close_ws r h)) = intentional_close h"
  "snd (close_ws r h) = (if connected h then [CloseWs r] else [])"
  by (auto simp: close_ws_def)

section \<open>A session\<close>

text \<open>What happens to a handler over its life, as far as the reconnect budget is concerned.\<close>

datatype session_event =
    Opened | Closed bool string | ReconnectRuns file_system conn string string string | Disconnect
  | AgentTransfer file_system conn string string | HumanTransfer env file_system conn string string

fun session_step :: "session_event \<Rightarrow> handler \<Rightarrow> handler \<times> ws_effect list" where
  "session_step Opened h = open_handler h"
| "session_step (Closed ok src) h = close_handler ok src h"
| "session_step (ReconnectRuns fs c stamp src uri) h = attemptReconnect fs c stamp src uri h"
| "session_step Disconnect h = ws_disconnect h"
| "session_step (AgentTransfer fs c stamp a) h = performAgentTransfer fs c stamp a h"
| "session_step (HumanTransfer ev fs c stamp i) h = performHumanTransfer ev fs c stamp i h"

fun session_run :: "session_event list \<Rightarrow> handler \<Rightarrow> handler \<times> ws_effect list" where
  "session_run [] h = (h, [])"
| "session_run (e # es) h =
     (let (h1, a) = session_step e h; (h2, b) = session_run es h1 in (h2, a @ b))"

definition reconnects :: "ws_effect list \<Rightarrow> int" where
  "reconnects es = int (length (filter (\<lambda>e. e = SpawnReconnect) es))"

lemma reconnects_simps [simp]:
  "reconnects [] = 0" "reconnects (xs @ ys) = reconnects xs + reconnects ys"
  "reconnects (invoke_callback h) = 0" "reconnects (blame r s h) = 0"
  "reconnects (e # es) = (if e = SpawnReconnect then 1 else 0) + reconnects es"
  by (simp_all add: reconnects_def invoke_callback_def blame_def)

lemma reconnects_none: "SpawnReconnect \<notin> set es \<Longrightarrow> reconnects es = 0"
  by (auto simp: reconnects_def filter_empty_conv)

lemma attemptReconnect_budget:
  assumes "attemptReconnect fs c stamp src uri h = (h', es)" and "reconnect_attempts h \<le> 3"
  shows "reconnect_attempts h' = reconnect_attempts h + reconnects es \<and> reconnect_attempts h' \<le> 3"
proof (cases "intentional_close h")
  case True
  with assms show ?thesis by (simp add: attemptReconnect_def)
next
  case False
  let ?h1 = "h\<lparr>sequence_number := 0, stream_id := ''MZ'' @ stamp, ws_uri := uri\<rparr>"
  obtain ok h2 e2 where c: "ws_connect fs c uri ?h1 = (ok, h2, e2)" by (cases "ws_connect fs c uri ?h1") auto
  have "reconnect_attempts h2 = reconnect_attempts h" "reconnects e2 = 0"
    using ws_connect_frame(1,8) [OF c] by (simp_all add: reconnects_none)
  with assms False c show ?thesis
    by (auto simp: attemptReconnect_def Let_def MAX_RECONNECT_ATTEMPTS_def split: if_splits)
qed

lemma close_handler_budget:
  "close_handler ok src h = (h', es) \<Longrightarrow> reconnect_attempts h \<le> 3 \<Longrightarrow>
   reconnect_attempts h' = reconnect_attempts h + reconnects es \<and> reconnect_attempts h' \<le> 3"
  by (auto simp: close_handler_def may_reconnect_def MAX_RECONNECT_ATTEMPTS_def Let_def split: if_splits)

lemma abort_transfer_fields [simp]:
  "reconnect_attempts (fst (abort_transfer h)) = reconnect_attempts h"
  "reconnects (snd (abort_transfer h)) = 0"
  by (simp_all add: abort_transfer_def)

lemma performAgentTransfer_budget:
  "reconnect_attempts (fst (performAgentTransfer fs c stamp a h)) = reconnect_attempts h
   \<and> reconnects (snd (performAgentTransfer fs c stamp a h)) = 0"
proof (cases "agent_transfer_uri (ws_uri h) (current_agent_id h) a")
  case None
  then show ?thesis by (simp add: performAgentTransfer_def Let_def frame_simps)
next
  case (Some uri)
  obtain h1 es1 where h1: "close_ws ''Agent transfer'' (clearAudioQueue h) = (h1, es1)" by fastforce
  then have p: "reconnect_attempts h1 = reconnect_attempts h" "reconnects es1 = 0"
    by (auto simp: close_ws_def frame_simps split: if_splits)
  let ?h2 = "h1\<lparr>ws_uri := uri, real_time_audio := real_time_audio h1 \<or> str_contains ''rupture'' uri,
      current_agent_id := a, sequence_number := 0, stream_id := ''MZ'' @ stamp\<rparr>"
  obtain ok h3 es3 where c: "ws_connect fs c uri ?h2 = (ok, h3, es3)" by (cases "ws_connect fs c uri ?h2") auto
  have q: "reconnect_attempts h3 = reconnect_attempts h1" "reconnects es3 = 0"
    using ws_connect_frame(1,8) [OF c] by (simp_all add: reconnects_none)
  from Some h1 c p q show ?thesis
    by (simp add: performAgentTransfer_def Let_def frame_simps split_beta stopRinging_def)
qed

lemma performHumanTransfer_budget:
  "reconnect_attempts (fst (performHumanTransfer ev fs c stamp i h)) = reconnect_attempts h
   \<and> reconnects (snd (performHumanTransfer ev fs c stamp i h)) = 0"
proof (cases "human_ws_uri ev (startRinging fs (clearAudioQueue h))")
  case None
  then show ?thesis by (simp add: performHumanTransfer_def Let_def frame_simps)
next
  case (Some uri)
  obtain h1 es1 where h1: "close_ws ''Human transfer'' (startRinging fs (clearAudioQueue h)) = (h1, es1)" by fastforce
  then have p: "reconnect_attempts h1 = reconnect_attempts h" "reconnects es1 = 0"
    by (auto simp: close_ws_def frame_simps split: if_splits)
  let ?h2 = "h1\<lparr>ws_uri := uri, real_time_audio := True, current_agent_id := ''HUMAN_'' @ i,
      sequence_number := 0, stream_id := ''HT'' @ stamp\<rparr>"
  obtain ok h3 es3 where c: "ws_connect fs c uri ?h2 = (ok, h3, es3)" by (cases "ws_connect fs c uri ?h2") auto
  have q: "reconnect_attempts h3 = reconnect_attempts h1" "reconnects es3 = 0"
    using ws_connect_frame(1,8) [OF c] by (simp_all add: reconnects_none)
  from Some h1 c p q show ?thesis
    by (simp add: performHumanTransfer_def Let_def frame_simps split_beta stopRinging_def)
qed

lemma session_step_budget:
  assumes "session_step e h = (h', es)" and "reconnect_attempts h \<le> 3"
  shows "reconnect_attempts h' = reconnect_attempts h + reconnects es \<and> reconnect_attempts h' \<le> 3"
proof (cases e)
  case Opened
  with assms show ?thesis by (auto simp: open_handler_eq)
next
  case (Closed ok src)
  with assms show ?thesis by (auto dest: close_handler_budget)
next
  case (ReconnectRuns fs c stamp src uri)
  with assms show ?thesis by (auto dest: attemptReconnect_budget)
next
  case Disconnect
  with assms show ?thesis by (auto simp: ws_disconnect_def split: if_splits)
next
  case (AgentTransfer fs c stamp a)
  with assms performAgentTransfer_budget [of fs c stamp a h] show ?thesis by simp
next
  case (HumanTransfer ev fs c stamp i)
  with assms performHumanTransfer_budget [of ev fs c stamp i h] show ?thesis by simp
qed

lemma session_run_budget:
  "session_run es h = (h', out) \<Longrightarrow> reconnect_attempts h \<le> 3 \<Longrightarrow>
   reconnect_attempts h' = reconnect_attempts h + reconnects out \<and> reconnect_attempts h' \<le> 3"
proof (induction es arbitrary: h out)
  case (Cons e es)
  obtain h1 a where s: "session_step e h = (h1, a)" by fastforce
  obtain h2 b where r: "session_run es h1 = (h2, b)" by fastforce
  from session_step_budget [OF s Cons.prems(2)] Cons.IH [of h1 b] r s Cons.prems(1) show ?case
    by (auto simp: Let_def)
qed simp

section \<open>URIs\<close>

text \<open>The first \<open>agent=\<close> of a URI does not depend on what follows it.\<close>

definition agent_uri :: "string \<Rightarrow> string \<Rightarrow> string" where
  "agent_uri pre suf = pre @ ''agent='' @ suf"

lemma agent_uri_find:
  assumes "str_find ''agent='' (agent_uri pre suf) = Some (length pre)"
  shows "str_find ''agent='' (agent_uri pre suf') = Some (length pre)"
  using assms unfolding agent_uri_def by (rule str_find_marker)

lemma agent_uri_drop [simp]: "drop (length pre + 6) (agent_uri pre suf) = suf"
  by (simp add: agent_uri_def)

lemma setAgentId_agent_uri:
  assumes "str_find ''agent='' (agent_uri pre (aid @ ''_'' @ rest)) = Some (length pre)"
    and "CHR ''_'' \<notin> set aid" and "ws_uri h = agent_uri pre (aid @ ''_'' @ rest)"
  shows "current_agent_id (setAgentId h) = aid"
proof -
  have "str_find ''_'' (aid @ ''_'' @ rest) = Some (length aid)"
    using str_find_char [OF assms(2), of rest] by simp
  moreover have "ws_uri h \<noteq> []" using assms(3) by (simp add: agent_uri_def)
  ultimately show ?thesis using assms(1,3) by (simp add: setAgentId_def Let_def)
qed

lemma agent_transfer_uri_eq:
  assumes "str_find ''agent='' uri = Some (length pre)" and "str_find old uri = Some (length pre + 6)"
    and "uri = agent_uri pre (old @ ''_'' @ rest)" and "length uri < 2 ^ 63"
  shows "agent_transfer_uri uri old new_id = Some (agent_uri pre (new_id @ ''_'' @ rest))"
proof -
  have len: "length uri = length pre + 6 + length old + 1 + length rest"
    using assms(3) by (simp add: agent_uri_def)
  then have sm: "sz_add (sz_add (length pre + 6) (length old)) 1 = length pre + 6 + length old + 1"
    "sz_add (length pre) 6 = length pre + 6"
    using assms(4) by (simp_all add: sz_add_def)
  have "drop (length pre + 6 + length old + 1) uri = drop (length old + 1) (drop (length pre + 6) uri)"
    by (simp add: add.commute add.left_commute)
  also have "\<dots> = rest" unfolding assms(3) agent_uri_drop by simp
  finally have "drop (length pre + 6 + length old + 1) uri = rest" .
  moreover have "take (length pre + 6) uri = pre @ ''agent=''"
    using assms(3) by (simp add: agent_uri_def)
  ultimately show ?thesis
    using assms(1,2) sm len
    by (simp add: agent_transfer_uri_def find_npos_def substr_from_def agent_uri_def)
qed

section \<open>Properties\<close>

definition demo_handler :: "string \<Rightarrow> handler" where
  "demo_handler uri = (setMediaPort (setDisconnectCallback (new_handler 8000 uri ''0'')))\<lparr>connected := True\<rparr>"

lemma demo_handler_fields [simp]:
  "has_callback (demo_handler uri)" "has_med_port (demo_handler uri)" "connected (demo_handler uri)"
  "\<not> agent_transfer_in_progress (demo_handler uri)" "\<not> hangup_received (demo_handler uri)"
  "\<not> intentional_close (demo_handler uri)" "reconnect_attempts (demo_handler uri) = 0"
  "ws_uri (demo_handler uri) = uri" "h_sample_rate (demo_handler uri) = 8000"
  "sequence_number (demo_handler uri) = 0"
  by (auto simp: demo_handler_def setMediaPort_def setDisconnectCallback_def new_handler_def setAgentId_def
      Let_def split: option.splits)

text \<open>C18: The reconnect budget is for the handler's lifetime: over any interleaving of opens, closes,
  reconnect threads with whatever outcome, teardowns and transfers, at most three reconnects
  are ever started, and the counter is exactly their number.\<close>

theorem reconnect_budget:
  assumes "session_run es (new_handler rate uri stamp) = (h', out)"
  shows "reconnects out \<le> 3 \<and> reconnect_attempts h' = reconnects out"
proof -
  have "reconnect_attempts (new_handler rate uri stamp) = 0"
    by (simp add: new_handler_def frame_simps)
  with session_run_budget [OF assms] show ?thesis by simp
qed

lemma reconnect_budget_witness:
  "reconnects (snd (session_run [Opened, Closed True ''none'',
      ReconnectRuns Map.empty CreateError ''1'' ''none'' ''wss://a?reconnect=true''] (new_handler 8000 ''wss://a'' ''0''))) \<le> 3"
proof -
  let ?es = "[Opened, Closed True ''none'', ReconnectRuns Map.empty CreateError ''1'' ''none'' ''wss://a?reconnect=true'']"
  let ?r = "session_run ?es (new_handler 8000 ''wss://a'' ''0'')"
  from reconnect_budget [of ?es 8000 "''wss://a''" "''0''" "fst ?r" "snd ?r"] show ?thesis
    by (simp only: prod.collapse)
qed

text \<open>The URI of a reconnect extends the old one by the reconnect flag, once: it carries the flag,
  keeps the old URI as a prefix, and reconnecting again changes nothing more.\<close>

lemma reconnect_uri_once:
  "str_contains ''reconnect='' (reconnect_uri uri) \<and> prefix uri (reconnect_uri uri)
   \<and> reconnect_uri (reconnect_uri uri) = reconnect_uri uri"
proof -
  have "str_contains ''reconnect='' (reconnect_uri uri)"
  proof (cases "str_contains ''reconnect='' uri")
    case False
    have "sublist ''reconnect='' (uri @ ''?reconnect=true'')" "sublist ''reconnect='' (uri @ ''&reconnect=true'')"
      using sublist_appendI [of "''reconnect=''" "uri @ ''?''" "''true''"]
        sublist_appendI [of "''reconnect=''" "uri @ ''&''" "''true''"] by simp_all
    with False show ?thesis by (simp add: reconnect_uri_def str_contains_iff)
  qed (simp add: reconnect_uri_def)
  moreover have "prefix uri (reconnect_uri uri)" by (simp add: reconnect_uri_def)
  ultimately show ?thesis by (simp add: reconnect_uri_def [of "reconnect_uri uri"])
qed

end
