(* ===== verification/Ws_Transfer.thy ===== *)
theory Ws_Transfer
  imports Ws_Session
begin

text \<open>
  What the transfers and the messages of a WebSocket session achieve: where an agent transfer
  and a human transfer connect to, what is left when one fails, the numbering of sent frames,
  and the messages whose malformed variants leave the session in a bad state.
\<close>

section \<open>Where the transfers go\<close>

text \<open>A production URI names the agent and the call: \<open>pre agent= <agent>_<call>_ rest\<close>.\<close>

definition call_uri :: "string \<Rightarrow> string \<Rightarrow> string \<Rightarrow> string \<Rightarrow> string" where
  "call_uri pre agent call_id rest = agent_uri pre (agent @ ''_'' @ call_id @ ''_'' @ rest)"

lemma human_call_id_uri:
  assumes "str_find ''agent='' (call_uri pre agent call_id rest) = Some (length pre)"
    and "CHR ''_'' \<notin> set agent" and "CHR ''_'' \<notin> set call_id"
  shows "human_call_id ov (call_uri pre agent call_id rest) = Some call_id"
proof -
  have d: "drop (length pre + 6) (call_uri pre agent call_id rest) = agent @ ''_'' @ call_id @ ''_'' @ rest"
    by (simp add: call_uri_def)
  have u: "str_find ''_'' (agent @ ''_'' @ call_id @ ''_'' @ rest) = Some (length agent)"
    using str_find_char [OF assms(2)] by simp
  have v: "drop (length agent + 1) (agent @ ''_'' @ call_id @ ''_'' @ rest) = call_id @ ''_'' @ rest" by simp
  have w: "str_find ''_'' (call_id @ ''_'' @ rest) = Some (length call_id)"
    using str_find_char [OF assms(3)] by simp
  show ?thesis unfolding human_call_id_def Let_def assms(1) option.case d u v w by simp
qed

text \<open>The handler after a transfer, whether the new connection opens or not.\<close>

lemma performAgentTransfer_outcome:
  assumes "agent_transfer_uri (ws_uri h) (current_agent_id h) new_id = Some uri"
    and "uri \<noteq> ''TEST_SIPP_RINGING''" and "performAgentTransfer fs c stamp new_id h = (h', es)"
  shows "ws_uri h' = uri \<and> current_agent_id h' = new_id \<and> connected h' = conn_opens c \<and> \<not> agent_transfer_in_progress h'
    \<and> audio_queue h' = [] \<and> partial_frame h' = [] \<and> sequence_number h' = 0
    \<and> es = (if connected h then [CloseWs ''Agent transfer''] else [])
         @ (if conn_opens c then [SendStart (''MZ'' @ stamp) (h_sample_rate h)] else invoke_callback h)"
proof -
  have q: "audio_queue (clearAudioQueue h) = []" "partial_frame (clearAudioQueue h) = []"
    by (simp_all add: clearAudioQueue_def resetCheckpointState_def)
  show ?thesis
    using assms q
    by (auto simp: performAgentTransfer_def ws_connect_eq close_ws_def abort_transfer_def stopRinging_def
        invoke_callback_def frame_simps Let_def split: if_splits)
qed

lemma performHumanTransfer_outcome:
  assumes "human_ws_uri ev h = Some uri" and "uri \<noteq> ''TEST_SIPP_RINGING''"
    and "performHumanTransfer ev fs c stamp human_id h = (h', es)"
  shows "ws_uri h' = uri \<and> real_time_audio h' \<and> connected h' = conn_opens c \<and> \<not> agent_transfer_in_progress h'
    \<and> audio_queue h' = [] \<and> (\<not> conn_opens c \<longrightarrow> \<not> ringing_active h')
    \<and> es = (if connected h then [CloseWs ''Human transfer''] else [])
         @ (if conn_opens c then SendStart (''HT'' @ stamp) (h_sample_rate h) # (if has_med_port h then [DiscardRecording] else [])
            else invoke_callback h)"
proof -
  have q: "audio_queue (clearAudioQueue h) = []"
    by (simp add: clearAudioQueue_def resetCheckpointState_def)
  have "human_ws_uri ev (startRinging fs (clearAudioQueue h)) = Some uri"
    using assms(1) by (simp add: human_ws_uri_def frame_simps)
  then show ?thesis
    using assms(2,3) q
    by (auto simp: performHumanTransfer_def ws_connect_eq close_ws_def abort_transfer_def stopRinging_def
        invoke_callback_def frame_simps Let_def split: if_splits)
qed

section \<open>Sending a stream of frames\<close>

fun send_frames :: "byte list list \<Rightarrow> handler \<Rightarrow> handler \<times> ws_effect list" where
  "send_frames [] h = (h, [])"
| "send_frames (d # ds) h =
     (let (h1, a) = sendAudioFrame False d h; (h2, b) = send_frames ds h1 in (h2, a @ b))"

lemma send_frames_eq:
  "connected h \<Longrightarrow> send_frames ds h =
     (h\<lparr>sequence_number := sequence_number h + of_nat (length ds)\<rparr>,
      map (\<lambda>(i, d). SendMedia (sequence_number h + of_nat i) d (stream_id h)) (zip [1 ..< Suc (length ds)] ds))"
proof (induction ds arbitrary: h)
  case Nil
  then show ?case by simp
next
  case (Cons d ds)
  let ?h1 = "h\<lparr>sequence_number := sequence_number h + 1\<rparr>"
  have z: "zip [1 ..< Suc (length (d # ds))] (d # ds)
      = (1, d) # map (\<lambda>(i, x). (Suc i, x)) (zip [1 ..< Suc (length ds)] ds)"
    by (auto simp: upt_conv_Cons zip_map1 map_Suc_upt [symmetric] split_beta simp del: upt_Suc)
  have "send_frames (d # ds) h = (let (h2, b) = send_frames ds ?h1
      in (h2, SendMedia (sequence_number h + 1) d (stream_id h) # b))"
    using Cons.prems by (simp add: sendAudioFrame_def Let_def split_beta)
  also have "\<dots> = (h\<lparr>sequence_number := sequence_number h + of_nat (length (d # ds))\<rparr>,
      map (\<lambda>(i, d). SendMedia (sequence_number h + of_nat i) d (stream_id h)) (zip [1 ..< Suc (length (d # ds))] (d # ds)))"
    unfolding z using Cons.IH [of ?h1] Cons.prems
    by (simp add: comp_def split_beta add.assoc)
  finally show ?case .
qed

section \<open>A JSON library\<close>

text \<open>Objects with string, number and object members: enough to evaluate the message handler. The
  messages are given already parsed, under a name.\<close>

datatype json = JNull | JStr string | JNum int int | JObj "(string \<times> json) list"

fun jat :: "json \<Rightarrow> string \<Rightarrow> json option" where
  "jat (JObj kvs) k = (case map_of kvs k of None \<Rightarrow> Some JNull | Some v \<Rightarrow> Some v)"
| "jat JNull k = Some JNull"
| "jat _ k = None"

fun jhas :: "json \<Rightarrow> string \<Rightarrow> bool" where
  "jhas (JObj kvs) k = (map_of kvs k \<noteq> None)"
| "jhas _ k = False"

fun jstr :: "json \<Rightarrow> string option" where
  "jstr (JStr s) = Some s"
| "jstr _ = None"

fun jfloat :: "json \<Rightarrow> f32 option" where
  "jfloat (JNum m e) = Some (Fin m e)"
| "jfloat _ = None"

definition demo_libs :: "(string \<Rightarrow> json option) \<Rightarrow> json ws_libs" where
  "demo_libs parse = \<lparr>json_parse = parse, json_at = jat, json_has = jhas, json_str = jstr, json_float = jfloat,
     base64_decode = map (\<lambda>c. of_nat (of_char c)), ulaw_to_linear = (\<lambda>b. ucast b)\<rparr>"

section \<open>Properties\<close>

text \<open>C19: An agent transfer replaces exactly the agent id of the URI. From a URI
  \<open>pre agent=old_rest\<close>, with \<open>old\<close> the current agent and neither \<open>agent=\<close> nor \<open>old\<close> occurring earlier,
  a transfer to an id without an underscore empties the queue, closes the old connection, restarts
  the numbering, moves to \<open>pre agent=new_rest\<close>, from which the new agent's id is read back, and lowers
  the transfer flag. If the new connection opens within the 50 polls the handler is connected and
  has sent a new start event; if it does not, the callback that ends the call is invoked.\<close>

theorem agent_transfer_switches:
  assumes "ws_uri h = agent_uri pre (old @ ''_'' @ rest)" and "current_agent_id h = old"
    and "str_find ''agent='' (ws_uri h) = Some (length pre)" and "str_find old (ws_uri h) = Some (length pre + 6)"
    and "length (ws_uri h) < 2 ^ 63" and "CHR ''_'' \<notin> set new_id"
    and "performAgentTransfer fs c stamp new_id h = (h', es)"
  shows "ws_uri h' = agent_uri pre (new_id @ ''_'' @ rest) \<and> current_agent_id (setAgentId h') = new_id
    \<and> current_agent_id h' = new_id \<and> \<not> agent_transfer_in_progress h' \<and> audio_queue h' = []
    \<and> sequence_number h' = 0 \<and> connected h' = conn_opens c
    \<and> es = (if connected h then [CloseWs ''Agent transfer''] else [])
         @ (if conn_opens c then [SendStart (''MZ'' @ stamp) (h_sample_rate h)] else if has_callback h then [InvokeDisconnect] else [])"
proof -
  let ?new = "agent_uri pre (new_id @ ''_'' @ rest)"
  have u: "agent_transfer_uri (ws_uri h) (current_agent_id h) new_id = Some ?new"
    using agent_transfer_uri_eq [OF assms(3,4,1,5)] assms(2) by simp
  have f: "str_find ''agent='' ?new = Some (length pre)"
    using assms(3) unfolding assms(1) by (rule agent_uri_find)
  have eq: "CHR ''='' \<in> set ?new" by (simp add: agent_uri_def)
  have ne: "?new \<noteq> ''TEST_SIPP_RINGING''"
  proof
    assume e: "?new = ''TEST_SIPP_RINGING''"
    have "CHR ''='' \<in> set ''TEST_SIPP_RINGING''" using eq unfolding e .
    then show False by simp
  qed
  from performAgentTransfer_outcome [OF u ne assms(7)] setAgentId_agent_uri [OF f assms(6), of h']
  show ?thesis by (simp add: invoke_callback_def)
qed

lemma agent_transfer_switches_witness:
  "ws_uri (fst (performAgentTransfer Map.empty (ClientRuns (\<lambda>i. i = 7)) ''9'' ''bot2''
     ((demo_handler ''wss://h/ws?agent=bot1_c42_8000'')))) = ''wss://h/ws?agent=bot2_c42_8000''"
proof -
  let ?h = "demo_handler ''wss://h/ws?agent=bot1_c42_8000''"
  let ?r = "performAgentTransfer Map.empty (ClientRuns (\<lambda>i. i = 7)) ''9'' ''bot2'' ?h"
  have u: "ws_uri ?h = agent_uri ''wss://h/ws?'' (''bot1'' @ ''_'' @ ''c42_8000'')" by (simp add: agent_uri_def)
  have f: "str_find ''agent='' (ws_uri ?h) = Some (length ''wss://h/ws?'')"
    "str_find ''bot1'' (ws_uri ?h) = Some (length ''wss://h/ws?'' + 6)"
    by simp_all
  have a: "current_agent_id ?h = ''bot1''"
    by (simp add: demo_handler_def setMediaPort_def setDisconnectCallback_def new_handler_def setAgentId_def Let_def)
  have l: "length (ws_uri ?h) < 2 ^ 63" by simp
  from agent_transfer_switches [OF u a f l, of "''bot2''" Map.empty "ClientRuns (\<lambda>i. i = 7)" "''9''" "fst ?r" "snd ?r"]
  show ?thesis by (simp add: agent_uri_def)
qed

text \<open>An agent transfer on a URI that names no agent does not fail: the missing positions wrap, and
  the handler connects to the first five characters of the old URI, the new id, an underscore
  and the old URI without its first character.\<close>

lemma agent_transfer_garbles:
  assumes "\<not> str_contains ''agent='' (ws_uri h)" and "current_agent_id h = []" and "ws_uri h \<noteq> []"
    and "conn_opens c" and "performAgentTransfer fs c stamp new_id h = (h', es)"
  shows "connected h' \<and> ws_uri h' = take 5 (ws_uri h) @ new_id @ ''_'' @ tl (ws_uri h)"
proof -
  have "find_npos ''agent='' (ws_uri h) = npos" using assms(1) by (simp add: find_npos_def str_contains_def)
  moreover have "sz_add npos 6 = 5" by (simp add: sz_add_def npos_def)
  moreover have "find_npos [] (ws_uri h) = 0" by (cases "ws_uri h") (simp_all add: find_npos_def)
  moreover have "1 \<le> length (ws_uri h)" using assms(3) by (cases "ws_uri h") auto
  ultimately have u: "agent_transfer_uri (ws_uri h) (current_agent_id h) new_id
      = Some (take 5 (ws_uri h) @ new_id @ ''_'' @ tl (ws_uri h))"
    using assms(2) by (simp add: agent_transfer_uri_def substr_from_def sz_add_def drop_Suc)
  let ?new = "take 5 (ws_uri h) @ new_id @ ''_'' @ tl (ws_uri h)"
  show ?thesis
  proof (cases "?new = ''TEST_SIPP_RINGING''")
    case False
    from performAgentTransfer_outcome [OF u False assms(5)] assms(4) show ?thesis by simp
  next
    case True
    with u assms(5) show ?thesis
      by (auto simp: performAgentTransfer_def ws_connect_def close_ws_def frame_simps Let_def split: if_splits)
  qed
qed

text \<open>C20: A human transfer from a URI that names the agent and the call goes to the server that
  \<^verbatim>\<open>HUMAN_TRANSFER_WS_URL\<close> names, and to rupture2 when it is unset or empty, with the call id of the old
  URI and the call's sample rate, as realtime audio, closing the old connection and lowering the
  transfer flag. If the connection opens, the new stream is announced and what was recorded is
  discarded; otherwise the ringing stops and the callback that ends the call is invoked. A
  connection lost later is reconnected never if the server's URL contains \<open>rupture2\<close>, as the default
  does.\<close>

theorem human_transfer_target:
  assumes "ws_uri h = call_uri pre agent call_id rest"
    and "str_find ''agent='' (ws_uri h) = Some (length pre)"
    and "CHR ''_'' \<notin> set agent" and "CHR ''_'' \<notin> set call_id" and "has_med_port h"
    and "base = (case ev ''HUMAN_TRANSFER_WS_URL'' of Some u \<Rightarrow> if u \<noteq> [] then u else ''wss://rupture2.chatwoot.store/ws''
      | None \<Rightarrow> ''wss://rupture2.chatwoot.store/ws'')"
    and "performHumanTransfer ev fs c stamp human_id h = (h', es)"
  shows "ws_uri h' = base @ (if str_contains ''?'' base then ''&'' else ''?'') @ ''callId='' @ call_id
      @ ''&sampleRate='' @ to_string (h_sample_rate h)
    \<and> real_time_audio h' \<and> \<not> agent_transfer_in_progress h' \<and> connected h' = conn_opens c
    \<and> (\<not> conn_opens c \<longrightarrow> \<not> ringing_active h')
    \<and> es = (if connected h then [CloseWs ''Human transfer''] else [])
         @ (if conn_opens c then [SendStart (''HT'' @ stamp) (h_sample_rate h), DiscardRecording]
            else if has_callback h then [InvokeDisconnect] else [])
    \<and> (str_contains ''rupture2'' base \<longrightarrow> SpawnReconnect \<notin> set (snd (close_handler True src h')))"
proof -
  let ?tail = "(if str_contains ''?'' base then ''&'' else ''?'') @ ''callId='' @ call_id
      @ ''&sampleRate='' @ to_string (h_sample_rate h)"
  have "human_call_id ov (ws_uri h) = Some call_id" for ov
    unfolding assms(1) using assms(1,2) by (intro human_call_id_uri [OF _ assms(3,4)]) simp
  moreover have "fst (human_base ev) = base"
    unfolding assms(6) human_base_def by (auto split: option.splits)
  ultimately have u: "human_ws_uri ev h = Some (base @ ?tail)"
    by (simp add: human_ws_uri_def split_beta)
  have eq: "CHR ''='' \<in> set (base @ ?tail)" by simp
  have ne: "base @ ?tail \<noteq> ''TEST_SIPP_RINGING''"
  proof
    assume e: "base @ ?tail = ''TEST_SIPP_RINGING''"
    have "CHR ''='' \<in> set ''TEST_SIPP_RINGING''" using eq unfolding e .
    then show False by simp
  qed
  note o = performHumanTransfer_outcome [OF u ne assms(7)]
  have "SpawnReconnect \<notin> set (snd (close_handler True src h'))" if r: "str_contains ''rupture2'' base"
  proof -
    obtain ps ss where "base = ps @ ''rupture2'' @ ss" using r by (auto simp: str_contains_iff sublist_def)
    then have "sublist ''rupture2'' (base @ ?tail)" using sublist_appendI [of "''rupture2''" ps "ss @ ?tail"] by simp
    then have "str_contains ''rupture2'' (ws_uri h')" using o by (simp add: str_contains_iff)
    then have "\<not> may_reconnect (h'\<lparr>connected := False\<rparr>)" by (simp add: may_reconnect_def)
    then show ?thesis by (auto simp: close_handler_def Let_def invoke_callback_def blame_def)
  qed
  with o assms(5) show ?thesis by (auto simp: invoke_callback_def)
qed

lemma human_transfer_target_witness:
  "ws_uri (fst (performHumanTransfer Map.empty Map.empty (ClientRuns (\<lambda>i. i = 3)) ''9'' ''op1''
     (demo_handler ''wss://h/ws?agent=bot1_c42_8000''))) = ''wss://rupture2.chatwoot.store/ws?callId=c42&sampleRate=8000''"
proof -
  let ?h = "demo_handler ''wss://h/ws?agent=bot1_c42_8000''"
  let ?r = "performHumanTransfer Map.empty Map.empty (ClientRuns (\<lambda>i. i = 3)) ''9'' ''op1'' ?h"
  have u: "ws_uri ?h = call_uri ''wss://h/ws?'' ''bot1'' ''c42'' ''8000''" by (simp add: call_uri_def agent_uri_def)
  have f: "str_find ''agent='' (ws_uri ?h) = Some (length ''wss://h/ws?'')" by simp
  have b: "''wss://rupture2.chatwoot.store/ws'' = (case Map.empty ''HUMAN_TRANSFER_WS_URL'' of
      Some u \<Rightarrow> if u \<noteq> [] then u else ''wss://rupture2.chatwoot.store/ws'' | None \<Rightarrow> ''wss://rupture2.chatwoot.store/ws'')"
    by simp
  have "to_string 8000 = ''8000''"
    by (simp add: to_string_def show_nat.simps digit_char_def char_of_eq_iff)
  with human_transfer_target [OF u f _ _ _ b, of Map.empty "ClientRuns (\<lambda>i. i = 3)" "''9''" "''op1''" "fst ?r" "snd ?r" "''none''"]
  show ?thesis by (simp add: str_contains_def)
qed

text \<open>The frames sent on a connection that stays up are numbered consecutively: \<open>n\<close> frames carry the
  numbers after the last one used, in order, each with its own data and the stream's id.\<close>

lemma sent_frames_numbered:
  assumes "connected h"
  shows "snd (send_frames ds h) =
      map (\<lambda>(i, d). SendMedia (sequence_number h + of_nat i) d (stream_id h)) (zip [1 ..< Suc (length ds)] ds)
    \<and> sequence_number (fst (send_frames ds h)) = sequence_number h + of_nat (length ds)"
  using send_frames_eq [OF assms, of ds] by simp

text \<open>A hangup message without a string \<open>hangupType\<close> does not hang up: on a handler with a media
  port the missing field throws before the callback, so no call is made on the port or the
  call, and only the flag is set.\<close>

lemma hangup_without_type:
  assumes "has_med_port h" and "json_parse L msg = Some j" and "json_field L j ''event'' = Some ''hangup''"
    and "json_field L j ''hangupType'' = None"
  shows "message_handler L True msg src h = Some (h\<lparr>hangup_received := True\<rparr>, [])"
  using assms by (simp add: message_handler_def dispatch_def on_hangup_def Let_def)

text \<open>A transfer message whose id is present but not a string raises the transfer flag and starts
  nothing. From then on a lost connection neither reconnects nor ends the call.\<close>

lemma transfer_flag_stuck:
  assumes "json_parse L msg = Some j" and "json_field L j ''event'' = Some ''agentTransfer''"
    and "json_has L j ''agentId''" and "json_field L j ''agentId'' = None"
  shows "\<exists>h'. message_handler L True msg src h = Some (h', []) \<and> agent_transfer_in_progress h'
    \<and> snd (close_handler ok src' h') = []"
  using assms by (simp add: message_handler_def dispatch_def on_agentTransfer_def close_handler_def Let_def)

text \<open>The first audio after a transfer ends the ringing and is heard at once: on a ringing handler
  with a media port a \<open>playAudio\<close> message leaves nothing queued from before; the queue and the
  carry-over hold exactly the decoded bytes, up to the 3000-frame cap.\<close>

lemma audio_ends_ringing:
  assumes "ringing_active h" and "has_med_port h" and "json_at L j ''media'' = Some media"
    and "decode_media L media = Some (Some pcm)" and "queue_wf h" and "0 < bytes_per_frame h"
    and "\<not> real_time_audio h" and "length (drop_odd pcm) \<le> 3000 * bytes_per_frame h"
    and "on_playAudio L j h = Some h'"
  shows "\<not> ringing_active h' \<and> handler_stream h' = drop_odd pcm"
proof -
  let ?h = "clearAudioQueue (stopRinging h)"
  have h': "h' = enqueueAudio pcm ?h"
    using assms by (simp add: on_playAudio_def stop_ringing_on_audio_def)
  have f: "queue_wf ?h" "bytes_per_frame ?h = bytes_per_frame h" "real_time_audio ?h = real_time_audio h"
    "handler_stream ?h = []" "\<not> ringing_active ?h"
    using assms(5) by (simp_all add: queue_wf_def clearAudioQueue_def resetCheckpointState_def stopRinging_def
        handler_stream_def)
  have "handler_stream (enqueueAudio pcm ?h) = handler_stream ?h @ drop_odd pcm"
    using f assms(6-8) by (intro enqueue_stream) (simp_all add: MAX_QUEUE_SIZE_DEFAULT_def)
  moreover have "ringing_active (enqueueAudio pcm ?h) = ringing_active ?h"
    by (simp add: enqueueAudio_def Let_def split: prod.splits)
  ultimately show ?thesis using f h' by simp
qed

end
