(* ===== verification/Mixer.thy ===== *)
theory Mixer
  imports Ifaces
begin

text \<open>
  \<^verbatim>\<open>AudioMixer\<close> of \<^verbatim>\<open>audio_recorder.cpp\<close>: the agent's and the user's frames wait in two bounded
  buffers, are paired by their time stamps, and are written to the mixed recording and to the
  user-only recording. The clock readings of one call are arguments, in nanoseconds. The gains
  are 1.0 and never written, so the products with them are the samples. A write outside a
  vector is undefined behaviour: the value \<open>None\<close>.
\<close>

record audio_frame =
  samples :: "sample list"
  timestamp :: int
  is_silence :: bool

record mixer =
  mx_sample_rate :: nat
  samples_per_frame :: nat
  agent_buffer :: "audio_frame list"
  user_buffer :: "audio_frame list"
  audio_buffer :: "sample list"
  user_only_buffer :: "sample list"
  mix_buffer :: "sample list"
  agent_silence_count :: nat
  user_silence_count :: nat
  agent_stream_active :: bool
  user_stream_active :: bool
  last_agent_frame :: int
  last_user_frame :: int

definition FRAME_DURATION_MS :: nat where "FRAME_DURATION_MS = 20"
definition MAX_BUFFER_SIZE :: nat where "MAX_BUFFER_SIZE = 50"
definition MAX_SILENCE_FRAMES :: nat where "MAX_SILENCE_FRAMES = 250"
definition SILENCE_THRESHOLD :: int where "SILENCE_THRESHOLD = 50"

definition new_mixer :: "nat \<Rightarrow> int \<Rightarrow> mixer" where
  "new_mixer rate now =
     (let spf = rate * FRAME_DURATION_MS div 1000
      in \<lparr>mx_sample_rate = rate, samples_per_frame = spf, agent_buffer = [], user_buffer = [],
          audio_buffer = [], user_only_buffer = [], mix_buffer = replicate spf 0,
          agent_silence_count = 0, user_silence_count = 0, agent_stream_active = False,
          user_stream_active = False, last_agent_frame = now, last_user_frame = now\<rparr>)"

section \<open>The operations\<close>

text \<open>\<^verbatim>\<open>std::abs\<close> works on the sample promoted to \<^verbatim>\<open>int\<close>.\<close>

definition isFrameSilent :: "byte list \<Rightarrow> bool" where
  "isFrameSilent bytes \<longleftrightarrow> bytes = [] \<or> list_all (\<lambda>s. \<bar>sint s\<bar> \<le> SILENCE_THRESHOLD) (pcm_samples bytes)"

text \<open>\<^verbatim>\<open>duration_cast<milliseconds>\<close> truncates towards zero.\<close>

definition to_ms :: "int \<Rightarrow> int" where
  "to_ms ns = sgn ns * (\<bar>ns\<bar> div 1000000)"

definition checkStreamActivity :: "int \<Rightarrow> mixer \<Rightarrow> mixer" where
  "checkStreamActivity now m =
     (if MAX_SILENCE_FRAMES < agent_silence_count m \<or> 1000 < to_ms (now - last_agent_frame m)
      then m\<lparr>agent_stream_active := False\<rparr> else m)"

definition writeSingleStream :: "sample list \<Rightarrow> mixer \<Rightarrow> mixer" where
  "writeSingleStream s m = m\<lparr>audio_buffer := audio_buffer m @ s\<rparr>"

definition writeUserOnlyStream :: "sample list \<Rightarrow> mixer \<Rightarrow> mixer" where
  "writeUserOnlyStream s m = m\<lparr>user_only_buffer := user_only_buffer m @ s\<rparr>"

definition mix_sample :: "sample \<Rightarrow> sample \<Rightarrow> sample" where
  "mix_sample a u = word_of_int (min (max (sint a + sint u) (- 32768)) 32767)"

text \<open>The scratch buffer has \<open>samples_per_frame\<close> elements; a longer pair writes past its end.\<close>

definition mixFrames :: "sample list \<Rightarrow> sample list \<Rightarrow> mixer \<Rightarrow> mixer option" where
  "mixFrames agent user m =
     (let n = min (length agent) (length user); mixed = map2 mix_sample agent user
      in if n \<le> length (mix_buffer m)
         then Some (m\<lparr>mix_buffer := mixed @ drop n (mix_buffer m),
                      audio_buffer := audio_buffer m @ mixed\<rparr>)
         else None)"

fun flush_agent :: "audio_frame list \<Rightarrow> mixer \<Rightarrow> mixer" where
  "flush_agent [] m = m\<lparr>agent_buffer := []\<rparr>"
| "flush_agent (f # fs) m = flush_agent fs ((writeSingleStream (samples f) m)\<lparr>agent_buffer := fs\<rparr>)"

fun flush_user :: "audio_frame list \<Rightarrow> mixer \<Rightarrow> mixer" where
  "flush_user [] m = m\<lparr>user_buffer := []\<rparr>"
| "flush_user (f # fs) m = flush_user fs
     ((writeSingleStream (samples f) (writeUserOnlyStream (samples f) m))\<lparr>user_buffer := fs\<rparr>)"

text \<open>The pairing loop. The user frame is written to the user-only recording on every iteration,
  also on those that only consume the agent's frame.\<close>

fun pair_loop :: "audio_frame list \<Rightarrow> audio_frame list \<Rightarrow> mixer \<Rightarrow> mixer option" where
  "pair_loop (a # as) (u # us) m =
     (let m1 = writeUserOnlyStream (samples u) m;
          time_diff = to_ms (timestamp a - timestamp u)
      in if int (FRAME_DURATION_MS * 2) < \<bar>time_diff\<bar>
         then (if 0 < time_diff
               then pair_loop (a # as) us (writeSingleStream (samples u) m1)
               else pair_loop as (u # us) (writeSingleStream (samples a) m1))
         else (case mixFrames (samples a) (samples u) m1 of None \<Rightarrow> None
               | Some m2 \<Rightarrow> pair_loop as us m2))"
| "pair_loop as us m = Some (m\<lparr>agent_buffer := as, user_buffer := us\<rparr>)"

definition processBuffers :: "mixer \<Rightarrow> mixer option" where
  "processBuffers m =
     (if agent_stream_active m \<and> \<not> user_stream_active m then Some (flush_agent (agent_buffer m) m)
      else if \<not> agent_stream_active m \<and> user_stream_active m then Some (flush_user (user_buffer m) m)
      else pair_loop (agent_buffer m) (user_buffer m) m)"

text \<open>\<^verbatim>\<open>while (buffer.size() > MAX) pop_front()\<close>.\<close>

definition cap_buffer :: "audio_frame list \<Rightarrow> audio_frame list" where
  "cap_buffer b = lastn MAX_BUFFER_SIZE b"

text \<open>
  \<^verbatim>\<open>addFrame\<close> with the clock readings \<open>t1\<close> (activity), \<open>t2\<close> (frame) and \<open>t3\<close> (check). The vector
  of samples has \<open>size / 2\<close> elements and \<open>memcpy\<close> copies \<open>size\<close> bytes, one too many when the
  size is odd.
\<close>

definition note_frame :: "bool \<Rightarrow> bool \<Rightarrow> int \<Rightarrow> mixer \<Rightarrow> mixer" where
  "note_frame is_agent silent t1 m =
     (if is_agent
      then m\<lparr>agent_silence_count := (if silent then agent_silence_count m + 1 else 0),
             last_agent_frame := t1, agent_stream_active := True\<rparr>
      else m\<lparr>user_silence_count := (if silent then user_silence_count m + 1 else 0),
             last_user_frame := t1, user_stream_active := True\<rparr>)"

definition push_frame :: "bool \<Rightarrow> audio_frame \<Rightarrow> mixer \<Rightarrow> mixer" where
  "push_frame is_agent f m =
     (if is_agent then m\<lparr>agent_buffer := cap_buffer (agent_buffer m @ [f])\<rparr>
      else m\<lparr>user_buffer := cap_buffer (user_buffer m @ [f])\<rparr>)"

definition addFrame :: "byte list \<Rightarrow> bool \<Rightarrow> int \<Rightarrow> int \<Rightarrow> int \<Rightarrow> mixer \<Rightarrow> mixer option" where
  "addFrame buf is_agent t1 t2 t3 m =
     (if buf = [] then Some m
      else if odd (length buf) then None
      else
        (let silent = isFrameSilent buf;
             frame = \<lparr>samples = pcm_samples buf, timestamp = t2, is_silence = silent\<rparr>
         in processBuffers (checkStreamActivity t3
              (push_frame is_agent frame (note_frame is_agent silent t1 m)))))"

definition clearBuffers :: "mixer \<Rightarrow> mixer" where
  "clearBuffers m = m\<lparr>agent_buffer := [], user_buffer := [], audio_buffer := [], user_only_buffer := [],
     agent_silence_count := 0, user_silence_count := 0, agent_stream_active := False,
     user_stream_active := False\<rparr>"

lemmas mixer_op_defs [op_defs] = checkStreamActivity_def writeSingleStream_def writeUserOnlyStream_def
  note_frame_def push_frame_def clearBuffers_def

section \<open>Mixing saturates\<close>

lemma sint_mix_sample: "sint (mix_sample a u) = min (max (sint a + sint u) (- 32768)) 32767"
proof -
  let ?v = "min (max (sint a + sint u) (- 32768)) 32767"
  have "- (2 ^ 15) \<le> ?v \<and> ?v < 2 ^ 15" by simp
  then have "signed_take_bit 15 ?v = ?v" by (intro signed_take_bit_int_eq_self) auto
  then show ?thesis by (simp add: mix_sample_def sint_sbintrunc')
qed

lemma mix_sample_commute: "mix_sample a u = mix_sample u a"
  by (simp add: mix_sample_def add.commute)

lemma mix_sample_silence [simp]: "mix_sample 0 u = u" "mix_sample u 0 = u"
proof -
  have "- 32768 \<le> sint u" "sint u < 32768"
    using sint_greater_eq [of u] sint_less [of u] by simp_all
  then have "sint (mix_sample 0 u) = sint u" by (simp add: sint_mix_sample)
  then show "mix_sample 0 u = u" by (rule signed_word_eqI)
  then show "mix_sample u 0 = u" by (simp add: mix_sample_commute)
qed

section \<open>Well-formed mixers\<close>

text \<open>
  The scratch buffer holds a frame, buffered frames fit it, both buffers respect their cap,
  and at least one of them is empty between calls.
\<close>

definition frames_fit :: "nat \<Rightarrow> audio_frame list \<Rightarrow> bool" where
  "frames_fit n fs \<longleftrightarrow> list_all (\<lambda>f. length (samples f) \<le> n) fs"

definition mixer_wf :: "mixer \<Rightarrow> bool" where
  "mixer_wf m \<longleftrightarrow> length (mix_buffer m) = samples_per_frame m
     \<and> frames_fit (samples_per_frame m) (agent_buffer m)
     \<and> frames_fit (samples_per_frame m) (user_buffer m)
     \<and> length (agent_buffer m) \<le> MAX_BUFFER_SIZE \<and> length (user_buffer m) \<le> MAX_BUFFER_SIZE"

lemma frames_fit_simps [simp]:
  "frames_fit n []" "frames_fit n (f # fs) \<longleftrightarrow> length (samples f) \<le> n \<and> frames_fit n fs"
  "frames_fit n (xs @ ys) \<longleftrightarrow> frames_fit n xs \<and> frames_fit n ys"
  by (simp_all add: frames_fit_def)

lemma frames_fit_cap: "frames_fit n fs \<Longrightarrow> frames_fit n (cap_buffer fs)"
  using set_lastn by (fastforce simp: frames_fit_def cap_buffer_def list_all_iff)

lemma length_cap_buffer [simp]: "length (cap_buffer fs) \<le> MAX_BUFFER_SIZE"
  by (simp add: cap_buffer_def)

lemma flush_agent_eq:
  "flush_agent fs m = m\<lparr>agent_buffer := [], audio_buffer := audio_buffer m @ concat (map samples fs)\<rparr>"
  by (induction fs arbitrary: m) (auto simp: writeSingleStream_def)

lemma flush_user_eq:
  "flush_user fs m = m\<lparr>user_buffer := [], audio_buffer := audio_buffer m @ concat (map samples fs),
     user_only_buffer := user_only_buffer m @ concat (map samples fs)\<rparr>"
  by (induction fs arbitrary: m) (auto simp: writeSingleStream_def writeUserOnlyStream_def)

lemma mixFrames_Some:
  assumes "length a \<le> length (mix_buffer m)"
  obtains m' where "mixFrames a u m = Some m'" and "length (mix_buffer m') = length (mix_buffer m)"
    and "samples_per_frame m' = samples_per_frame m"
    and "audio_buffer m' = audio_buffer m @ map2 mix_sample a u"
    and "user_only_buffer m' = user_only_buffer m"
    and "agent_stream_active m' = agent_stream_active m"
    and "user_stream_active m' = user_stream_active m"
proof -
  have "min (length a) (length u) \<le> length (mix_buffer m)" using assms by simp
  then show ?thesis using that by (simp add: mixFrames_def Let_def)
qed

lemma pair_loop_wf:
  assumes "frames_fit (samples_per_frame m) as" and "frames_fit (samples_per_frame m) us"
    and "length (mix_buffer m) = samples_per_frame m"
  shows "\<exists>m'. pair_loop as us m = Some m' \<and> samples_per_frame m' = samples_per_frame m
    \<and> length (mix_buffer m') = samples_per_frame m
    \<and> suffix (agent_buffer m') as \<and> suffix (user_buffer m') us
    \<and> (agent_buffer m' = [] \<or> user_buffer m' = [])"
  using assms
proof (induction as us m rule: pair_loop.induct)
  case (1 a as u us m)
  let ?m1 = "writeUserOnlyStream (samples u) m"
  let ?d = "to_ms (timestamp a - timestamp u)"
  consider (user) "int (FRAME_DURATION_MS * 2) < \<bar>?d\<bar>" "0 < ?d"
    | (agent) "int (FRAME_DURATION_MS * 2) < \<bar>?d\<bar>" "\<not> 0 < ?d"
    | (mix) "\<not> int (FRAME_DURATION_MS * 2) < \<bar>?d\<bar>" by blast
  then show ?case
  proof cases
    case user
    with "1.IH"(1) [OF refl refl] "1.prems" show ?thesis
      by (auto simp: Let_def writeSingleStream_def writeUserOnlyStream_def suffix_Cons)
  next
    case agent
    with "1.IH"(2) [OF refl refl] "1.prems" show ?thesis
      by (auto simp: Let_def writeSingleStream_def writeUserOnlyStream_def suffix_Cons)
  next
    case mix
    obtain m2 where m2: "mixFrames (samples a) (samples u) ?m1 = Some m2"
      "length (mix_buffer m2) = length (mix_buffer ?m1)" "samples_per_frame m2 = samples_per_frame ?m1"
      using "1.prems" by (auto intro: mixFrames_Some [of "samples a" ?m1 "samples u"] simp: writeUserOnlyStream_def)
    with "1.IH"(3) [OF refl refl mix m2(1)] "1.prems" mix show ?thesis
      by (auto simp: Let_def writeUserOnlyStream_def suffix_Cons)
  qed
qed auto


lemma note_frame_fields [frame_simps]:
  "agent_buffer (note_frame ag si t m) = agent_buffer m" "user_buffer (note_frame ag si t m) = user_buffer m"
  "mix_buffer (note_frame ag si t m) = mix_buffer m" "audio_buffer (note_frame ag si t m) = audio_buffer m"
  "user_only_buffer (note_frame ag si t m) = user_only_buffer m"
  "samples_per_frame (note_frame ag si t m) = samples_per_frame m"
  by (simp_all add: note_frame_def)

lemma checkStreamActivity_fields [frame_simps]:
  "agent_buffer (checkStreamActivity t m) = agent_buffer m" "user_buffer (checkStreamActivity t m) = user_buffer m"
  "mix_buffer (checkStreamActivity t m) = mix_buffer m" "audio_buffer (checkStreamActivity t m) = audio_buffer m"
  "user_only_buffer (checkStreamActivity t m) = user_only_buffer m"
  "samples_per_frame (checkStreamActivity t m) = samples_per_frame m"
  "user_stream_active (checkStreamActivity t m) = user_stream_active m"
  by (simp_all add: checkStreamActivity_def)

lemma mixer_wf_checkStreamActivity [simp]: "mixer_wf (checkStreamActivity t m) = mixer_wf m"
  by (simp add: mixer_wf_def frame_simps)

lemma mixer_wf_note_frame [simp]: "mixer_wf (note_frame ag si t m) = mixer_wf m"
  by (simp add: mixer_wf_def frame_simps)

lemma mixer_wf_push_frame [wf_intros]:
  "mixer_wf m \<Longrightarrow> length (samples f) \<le> samples_per_frame m \<Longrightarrow> mixer_wf (push_frame ag f m)"
  by (auto simp: mixer_wf_def push_frame_def intro!: frames_fit_cap)

lemma processBuffers_wf:
  assumes "mixer_wf m"
  shows "\<exists>m'. processBuffers m = Some m' \<and> mixer_wf m' \<and> samples_per_frame m' = samples_per_frame m
    \<and> (agent_buffer m' = [] \<or> user_buffer m' = [])"
proof (cases "agent_stream_active m \<noteq> user_stream_active m")
  case True
  with assms show ?thesis
    by (auto simp: processBuffers_def flush_agent_eq flush_user_eq mixer_wf_def)
next
  case False
  have "frames_fit (samples_per_frame m) (agent_buffer m)" "frames_fit (samples_per_frame m) (user_buffer m)"
    "length (mix_buffer m) = samples_per_frame m" using assms by (simp_all add: mixer_wf_def)
  from pair_loop_wf [OF this] obtain m' where m': "pair_loop (agent_buffer m) (user_buffer m) m = Some m'"
    "samples_per_frame m' = samples_per_frame m" "length (mix_buffer m') = samples_per_frame m"
    "suffix (agent_buffer m') (agent_buffer m)" "suffix (user_buffer m') (user_buffer m)"
    "agent_buffer m' = [] \<or> user_buffer m' = []" by blast
  have "mixer_wf m'"
    using assms m' suffix_length_le [OF m'(4)] suffix_length_le [OF m'(5)]
    by (auto simp: mixer_wf_def frames_fit_def list_all_iff dest!: set_mono_suffix)
  with m' False show ?thesis by (auto simp: processBuffers_def)
qed

lemma addFrame_wf:
  assumes "mixer_wf m" and "even (length buf)" and "length buf \<le> 2 * samples_per_frame m"
  shows "\<exists>m'. addFrame buf ag t1 t2 t3 m = Some m' \<and> mixer_wf m'
    \<and> samples_per_frame m' = samples_per_frame m"
proof (cases "buf = []")
  case True
  with assms show ?thesis by (simp add: addFrame_def)
next
  case False
  let ?f = "\<lparr>samples = pcm_samples buf, timestamp = t2, is_silence = isFrameSilent buf\<rparr>"
  let ?m = "checkStreamActivity t3 (push_frame ag ?f (note_frame ag (isFrameSilent buf) t1 m))"
  have "mixer_wf ?m"
    using assms by (auto intro!: wf_intros simp: frame_simps)
  from processBuffers_wf [OF this] have "\<exists>m'. processBuffers ?m = Some m' \<and> mixer_wf m'
    \<and> samples_per_frame m' = samples_per_frame ?m" by blast
  moreover have "samples_per_frame ?m = samples_per_frame m"
    by (simp add: frame_simps push_frame_def)
  ultimately show ?thesis using False assms(2) by (simp add: addFrame_def Let_def)
qed

lemma new_mixer_wf: "mixer_wf (new_mixer rate now)"
  by (simp add: mixer_wf_def new_mixer_def Let_def)

lemma clearBuffers_wf [wf_intros]: "mixer_wf m \<Longrightarrow> mixer_wf (clearBuffers m)"
  by (simp add: mixer_wf_def clearBuffers_def)

text \<open>The mixer as a machine over its two public operations; \<open>None\<close> is undefined behaviour.\<close>

datatype mix_op = AddFrame "byte list" bool int int int | ClearBuffers

fun mix_step :: "mix_op \<Rightarrow> mixer option \<Rightarrow> mixer option" where
  "mix_step e None = None"
| "mix_step (AddFrame buf ag t1 t2 t3) (Some m) = addFrame buf ag t1 t2 t3 m"
| "mix_step ClearBuffers (Some m) = Some (clearBuffers m)"

fun mix_ok :: "nat \<Rightarrow> mix_op \<Rightarrow> bool" where
  "mix_ok n (AddFrame buf ag t1 t2 t3) \<longleftrightarrow> even (length buf) \<and> length buf \<le> 2 * n"
| "mix_ok n ClearBuffers \<longleftrightarrow> True"

definition mixer_inv :: "nat \<Rightarrow> mixer option \<Rightarrow> bool" where
  "mixer_inv n mo \<longleftrightarrow> (case mo of None \<Rightarrow> False | Some m \<Rightarrow> mixer_wf m \<and> samples_per_frame m = n)"

lemma mix_step_inv:
  assumes "mix_ok n e" and "mixer_inv n mo"
  shows "mixer_inv n (mix_step e mo)"
proof (cases mo)
  case None
  with assms show ?thesis by (simp add: mixer_inv_def)
next
  case (Some m)
  with assms have m: "mixer_wf m" "samples_per_frame m = n" by (simp_all add: mixer_inv_def)
  show ?thesis
  proof (cases e)
    case (AddFrame buf ag t1 t2 t3)
    with assms m have "\<exists>m'. addFrame buf ag t1 t2 t3 m = Some m' \<and> mixer_wf m' \<and> samples_per_frame m' = n"
      using addFrame_wf [of m buf ag t1 t2 t3] by simp
    with Some AddFrame show ?thesis by (auto simp: mixer_inv_def)
  next
    case ClearBuffers
    with Some m show ?thesis by (simp add: mixer_inv_def clearBuffers_wf) (simp add: clearBuffers_def)
  qed
qed

interpretation mixing: inv_machine mix_step "mix_ok n" "mixer_inv n" for n
  by unfold_locales (rule mix_step_inv)

section \<open>Pairing by time stamp\<close>

definition in_sync :: "audio_frame \<Rightarrow> audio_frame \<Rightarrow> bool" where
  "in_sync a u \<longleftrightarrow> \<bar>to_ms (timestamp a - timestamp u)\<bar> \<le> 40"

lemma pair_loop_sync:
  assumes "list_all2 in_sync as us" and "frames_fit (length (mix_buffer m)) as"
  shows "\<exists>m'. pair_loop as us m = Some m'
    \<and> audio_buffer m' = audio_buffer m @ concat (map2 (\<lambda>a u. map2 mix_sample (samples a) (samples u)) as us)
    \<and> user_only_buffer m' = user_only_buffer m @ concat (map samples us)
    \<and> agent_buffer m' = [] \<and> user_buffer m' = []"
  using assms
proof (induction as us arbitrary: m rule: list_all2_induct)
  case Nil
  then show ?case by simp
next
  case (Cons a as u us)
  let ?m1 = "writeUserOnlyStream (samples u) m"
  have sync: "\<not> int (FRAME_DURATION_MS * 2) < \<bar>to_ms (timestamp a - timestamp u)\<bar>"
    using Cons.hyps by (simp add: in_sync_def FRAME_DURATION_MS_def)
  have "length (samples a) \<le> length (mix_buffer ?m1)" using Cons.prems by (simp add: writeUserOnlyStream_def)
  then obtain m2 where m2: "mixFrames (samples a) (samples u) ?m1 = Some m2"
    "length (mix_buffer m2) = length (mix_buffer ?m1)"
    "audio_buffer m2 = audio_buffer ?m1 @ map2 mix_sample (samples a) (samples u)"
    "user_only_buffer m2 = user_only_buffer ?m1" by (rule mixFrames_Some)
  have fit: "frames_fit (length (mix_buffer m2)) as"
    using Cons.prems m2(2) by (simp add: writeUserOnlyStream_def)
  have "pair_loop (a # as) (u # us) m = pair_loop as us m2" using sync m2(1) by (simp add: Let_def)
  with Cons.IH [OF fit] m2 show ?case by (simp add: writeUserOnlyStream_def)
qed

text \<open>An agent backlog that is older than a user frame: every iteration consumes one agent frame
  and writes the waiting user frame again.\<close>

lemma pair_loop_backlog:
  assumes "list_all (\<lambda>a. to_ms (timestamp a - timestamp u) < - 40) as"
  shows "pair_loop as (u # us) m = Some (m\<lparr>
     audio_buffer := audio_buffer m @ concat (map samples as),
     user_only_buffer := user_only_buffer m @ concat (replicate (length as) (samples u)),
     agent_buffer := [], user_buffer := u # us\<rparr>)"
  using assms
proof (induction as arbitrary: m)
  case Nil
  then show ?case by simp
next
  case (Cons a as)
  then show ?case
    by (simp add: Let_def writeUserOnlyStream_def writeSingleStream_def FRAME_DURATION_MS_def)
qed


text \<open>Recorded audio is only ever appended to.\<close>

definition extends :: "mixer \<Rightarrow> mixer \<Rightarrow> bool" where
  "extends m m' \<longleftrightarrow> prefix (audio_buffer m) (audio_buffer m') \<and> prefix (user_only_buffer m) (user_only_buffer m')"

lemma extends_refl [simp]: "extends m m"
  by (simp add: extends_def)

lemma extends_trans: "extends a b \<Longrightarrow> extends b c \<Longrightarrow> extends a c"
  by (auto simp: extends_def intro: prefix_order.trans)

lemma pair_loop_extends: "pair_loop as us m = Some m' \<Longrightarrow> extends m m'"
proof (induction as us m rule: pair_loop.induct)
  case (1 a as u us m)
  let ?m1 = "writeUserOnlyStream (samples u) m"
  have e1: "extends m ?m1" by (simp add: extends_def writeUserOnlyStream_def)
  have e2: "extends ?m1 (writeSingleStream s ?m1)" for s
    by (simp add: extends_def writeSingleStream_def)
  have e3: "mixFrames s t ?m1 = Some m2 \<Longrightarrow> extends ?m1 m2" for s t m2
    by (auto simp: mixFrames_def Let_def extends_def split: if_splits)
  let ?d = "to_ms (timestamp a - timestamp u)"
  consider (user) "int (FRAME_DURATION_MS * 2) < \<bar>?d\<bar>" "0 < ?d"
    | (agent) "int (FRAME_DURATION_MS * 2) < \<bar>?d\<bar>" "\<not> 0 < ?d"
    | (mix) "\<not> int (FRAME_DURATION_MS * 2) < \<bar>?d\<bar>" by blast
  then show ?case
  proof cases
    case user
    with "1.prems" have "pair_loop (a # as) us (writeSingleStream (samples u) ?m1) = Some m'"
      by (simp add: Let_def)
    from "1.IH"(1) [OF refl refl user this] show ?thesis
      using e1 e2 extends_trans by blast
  next
    case agent
    with "1.prems" have "pair_loop as (u # us) (writeSingleStream (samples a) ?m1) = Some m'"
      by (simp add: Let_def)
    from "1.IH"(2) [OF refl refl agent this] show ?thesis
      using e1 e2 extends_trans by blast
  next
    case mix
    with "1.prems" obtain m2 where m2: "mixFrames (samples a) (samples u) ?m1 = Some m2"
      and rest: "pair_loop as us m2 = Some m'" by (auto simp: Let_def split: option.splits)
    from "1.IH"(3) [OF refl refl mix m2 rest] show ?thesis
      using e1 e3 [OF m2] extends_trans by blast
  qed
qed (auto simp: extends_def)

lemma addFrame_extends: "addFrame buf ag t1 t2 t3 m = Some m' \<Longrightarrow> extends m m'"
proof -
  assume a: "addFrame buf ag t1 t2 t3 m = Some m'"
  have p: "processBuffers n = Some m' \<Longrightarrow> extends n m'" for n
    by (auto simp: processBuffers_def flush_agent_eq flush_user_eq split: if_splits
        dest: pair_loop_extends) (auto simp: extends_def)
  show ?thesis
  proof (cases "buf = []")
    case True
    with a show ?thesis by (simp add: addFrame_def)
  next
    case False
    with a have "extends (checkStreamActivity t3 (push_frame ag
        \<lparr>samples = pcm_samples buf, timestamp = t2, is_silence = isFrameSilent buf\<rparr>
        (note_frame ag (isFrameSilent buf) t1 m))) m'"
      by (intro p) (simp add: addFrame_def Let_def split: if_splits)
    then show ?thesis by (simp add: extends_def frame_simps push_frame_def split: if_splits)
  qed
qed

section \<open>Properties\<close>

text \<open>C6: Memory safety of the mixer. Over any sequence of frames no longer than a media frame and of
  whole samples, and of discards, no write leaves a vector: the run is defined. Both pending
  buffers stay within their cap of 50 and the scratch buffer keeps its size.\<close>

theorem mixing_memory_safe:
  assumes "list_all (mix_ok (rate * 20 div 1000)) es"
  shows "\<exists>m. fold mix_step es (Some (new_mixer rate now)) = Some m
    \<and> length (mix_buffer m) = rate * 20 div 1000
    \<and> length (agent_buffer m) \<le> 50 \<and> length (user_buffer m) \<le> 50"
proof -
  have "mixer_inv (rate * 20 div 1000) (Some (new_mixer rate now))"
    using new_mixer_wf by (simp add: mixer_inv_def) (simp add: new_mixer_def Let_def FRAME_DURATION_MS_def)
  from mixing.run_inv [OF assms this] show ?thesis
    by (auto simp: mixer_inv_def mixer_wf_def MAX_BUFFER_SIZE_def split: option.splits)
qed

lemma mixing_memory_safe_witness:
  "fold mix_step [AddFrame (replicate 320 1) True 0 0 0, ClearBuffers] (Some (new_mixer 8000 0)) \<noteq> None"
proof -
  have "list_all (mix_ok (8000 * 20 div 1000)) [AddFrame (replicate 320 1) True 0 0 0, ClearBuffers]"
    by simp
  from mixing_memory_safe [OF this, of 0] show ?thesis by (metis option.distinct(1))
qed

text \<open>A pair of samples is mixed by saturating addition: the sum where it fits 16 bits, the nearest
  16-bit value where it does not, whichever stream the samples come from.\<close>

lemma mix_sample_saturates:
  "sint (mix_sample a u) = max (- 32768) (min 32767 (sint a + sint u))
   \<and> mix_sample a u = mix_sample u a \<and> mix_sample 0 u = u"
proof -
  have "min (max x (- 32768)) 32767 = max (- 32768) (min 32767 x)" for x :: int
    by (simp add: max_def min_def)
  then have "sint (mix_sample a u) = max (- 32768) (min 32767 (sint a + sint u))"
    by (simp only: sint_mix_sample)
  then show ?thesis using mix_sample_commute by simp
qed

text \<open>C7: While the two streams are within 40 ms of each other, pairing consumes both buffers, appends
  the saturating mix of each pair to the mixed recording, and appends every user frame to the
  user-only recording exactly once, in order.\<close>

theorem synchronous_pairing:
  assumes "list_all2 in_sync (agent_buffer m) (user_buffer m)" and "mixer_wf m"
    and "agent_stream_active m" and "user_stream_active m"
  shows "\<exists>m'. processBuffers m = Some m'
    \<and> audio_buffer m' = audio_buffer m @ concat (map2 (\<lambda>a u. map2 mix_sample (samples a) (samples u))
                          (agent_buffer m) (user_buffer m))
    \<and> user_only_buffer m' = user_only_buffer m @ concat (map samples (user_buffer m))
    \<and> agent_buffer m' = [] \<and> user_buffer m' = []"
  using pair_loop_sync [OF assms(1), of m] assms by (simp add: processBuffers_def mixer_wf_def)

definition demo_frame :: "sample list \<Rightarrow> int \<Rightarrow> audio_frame" where
  "demo_frame s t = \<lparr>samples = s, timestamp = t, is_silence = False\<rparr>"

definition demo_mixer :: "audio_frame list \<Rightarrow> audio_frame list \<Rightarrow> mixer" where
  "demo_mixer as us = (new_mixer 100 0)\<lparr>agent_buffer := as, user_buffer := us,
     agent_stream_active := True, user_stream_active := True\<rparr>"

lemma demo_mixer_fields [simp]:
  "agent_buffer (demo_mixer as us) = as" "user_buffer (demo_mixer as us) = us"
  "audio_buffer (demo_mixer as us) = []" "user_only_buffer (demo_mixer as us) = []"
  "agent_stream_active (demo_mixer as us)" "user_stream_active (demo_mixer as us)"
  "mix_buffer (demo_mixer as us) = [0, 0]" "samples_per_frame (demo_mixer as us) = 2"
  by (simp_all add: demo_mixer_def new_mixer_def FRAME_DURATION_MS_def numeral_2_eq_2)

lemma synchronous_pairing_witness:
  "map_option audio_buffer (processBuffers (demo_mixer [demo_frame [30000, 5] 0]
      [demo_frame [30000, -7] 1000000])) = Some [32767, -2]"
proof -
  let ?m = "demo_mixer [demo_frame [30000, 5] 0] [demo_frame [30000, -7] 1000000]"
  have "list_all2 in_sync (agent_buffer ?m) (user_buffer ?m)"
    by (simp add: in_sync_def to_ms_def demo_frame_def)
  moreover have "mixer_wf ?m" by (simp add: mixer_wf_def demo_frame_def MAX_BUFFER_SIZE_def)
  ultimately obtain m' where "processBuffers ?m = Some m'"
    and "audio_buffer m' = [mix_sample 30000 30000, mix_sample 5 (-7)]"
    using synchronous_pairing [of ?m] by (auto simp: demo_frame_def)
  then show ?thesis by (simp add: mix_sample_def)
qed

text \<open>The user-only recording repeats a user frame once per agent frame that is more than 40 ms
  older: the loop writes the waiting user frame before it knows which side it will consume, and
  the frame is still waiting when the agent backlog is used up.\<close>

lemma backlog_repeats_user_audio:
  assumes "list_all (\<lambda>a. to_ms (timestamp a - timestamp u) < - 40) (agent_buffer m)"
    and "user_buffer m = [u]" and "agent_stream_active m" and "user_stream_active m"
  shows "\<exists>m'. processBuffers m = Some m'
    \<and> user_only_buffer m' = user_only_buffer m @ concat (replicate (length (agent_buffer m)) (samples u))
    \<and> user_buffer m' = [u]"
  using pair_loop_backlog [OF assms(1), of "[]" m] assms by (simp add: processBuffers_def)

text \<open>A recording is append-only: whatever frame arrives on either stream, what the mixed and the
  user-only recording held before is a prefix of what they hold after.\<close>

lemma addFrame_appends:
  assumes "addFrame buf is_agent t1 t2 t3 m = Some m'"
  shows "prefix (audio_buffer m) (audio_buffer m') \<and> prefix (user_only_buffer m) (user_only_buffer m')"
  using addFrame_extends [OF assms] by (simp add: extends_def)

end
