(* ===== verification/Recorder.thy ===== *)
theory Recorder
  imports Mixer Uploader
begin

text \<open>
  \<^verbatim>\<open>AudioRecorder\<close> of \<^verbatim>\<open>audio_recorder.cpp\<close>: a mixer behind a recording flag, and at the end of a
  recording the hand-over of both tracks, WAV encoded, to the upload pool and to local files.
  The upload pool is threaded through; local files are the list of writes made; which paths can
  be opened is an argument.
\<close>

record recorder =
  rc_call_id :: string
  is_recording :: bool
  rc_sample_rate :: nat
  rc_mixer :: "mixer option"

definition mixed_audio_folder :: string where "mixed_audio_folder = ''sip_recordings''"
definition user_only_audio_folder :: string where "user_only_audio_folder = ''sip_user_recordings''"

definition new_recorder :: "string \<Rightarrow> nat \<Rightarrow> int \<Rightarrow> recorder" where
  "new_recorder call_id rate now = \<lparr>rc_call_id = call_id, is_recording = False, rc_sample_rate = rate,
     rc_mixer = Some (new_mixer rate now)\<rparr>"

type_synonym file_writes = "(string \<times> byte list) list"

definition uploadAsync :: "string \<Rightarrow> sample list \<Rightarrow> nat \<Rightarrow> string \<Rightarrow> upload_mgr \<Rightarrow> nat \<times> upload_mgr" where
  "uploadAsync call_id raw_data rate folder um = submit call_id (convertToWav raw_data rate) folder um"

definition writeWavToFile :: "(string \<Rightarrow> bool) \<Rightarrow> string \<Rightarrow> sample list \<Rightarrow> nat \<Rightarrow> bool \<times> file_writes" where
  "writeWavToFile opens path raw_data rate =
     (let wav_data = convertToWav raw_data rate
      in if opens path then (True, [(path, wav_data)]) else (False, []))"

definition startRecording :: "int \<Rightarrow> recorder \<Rightarrow> bool \<times> recorder" where
  "startRecording now r =
     (if is_recording r then (True, r)
      else (True, r\<lparr>rc_mixer := Some (new_mixer (rc_sample_rate r) now), is_recording := True\<rparr>))"

definition upload_track :: "recorder \<Rightarrow> sample list \<Rightarrow> string \<Rightarrow> upload_mgr \<Rightarrow> upload_mgr" where
  "upload_track r buf folder um =
     (if buf \<noteq> [] then snd (uploadAsync (rc_call_id r) buf (rc_sample_rate r) folder um) else um)"

definition write_track :: "(string \<Rightarrow> bool) \<Rightarrow> recorder \<Rightarrow> sample list \<Rightarrow> string \<Rightarrow> file_writes" where
  "write_track opens r buf suf =
     (if buf \<noteq> [] then snd (writeWavToFile opens (''/cores/recordings/'' @ rc_call_id r @ suf) buf (rc_sample_rate r))
      else [])"

definition stopRecording :: "(string \<Rightarrow> bool) \<Rightarrow> recorder \<Rightarrow> upload_mgr \<Rightarrow> recorder \<times> upload_mgr \<times> file_writes" where
  "stopRecording opens r um =
     (if \<not> is_recording r then (r, um, [])
      else
        (let r1 = r\<lparr>is_recording := False\<rparr>
         in case rc_mixer r1 of
              None \<Rightarrow> (r1, um, [])
            | Some mx \<Rightarrow>
                (let mixed = audio_buffer mx; user = user_only_buffer mx
                 in if mixed = [] \<and> user = [] then (r1\<lparr>rc_mixer := None\<rparr>, um, [])
                    else
                      (let um1 = upload_track r1 mixed mixed_audio_folder um;
                           um2 = upload_track r1 user user_only_audio_folder um1;
                           files = write_track opens r1 mixed ''_mixed.wav'' @ write_track opens r1 user ''_user.wav''
                       in (r1\<lparr>rc_mixer := None\<rparr>, um2, files)))))"

text \<open>\<^verbatim>\<open>uploadMixedToR2\<close> and \<^verbatim>\<open>uploadUserOnlyToR2\<close>: the future of a submitted job, or one that is
  already false (\<open>None\<close>).\<close>

definition uploadMixedToR2 :: "recorder \<Rightarrow> upload_mgr \<Rightarrow> nat option \<times> upload_mgr" where
  "uploadMixedToR2 r um =
     (case rc_mixer r of None \<Rightarrow> (None, um)
      | Some mx \<Rightarrow> (let (p, um') = uploadAsync (rc_call_id r) (audio_buffer mx) (rc_sample_rate r) mixed_audio_folder um
                    in (Some p, um')))"

definition uploadUserOnlyToR2 :: "recorder \<Rightarrow> upload_mgr \<Rightarrow> nat option \<times> upload_mgr" where
  "uploadUserOnlyToR2 r um =
     (case rc_mixer r of None \<Rightarrow> (None, um)
      | Some mx \<Rightarrow> (let (p, um') = uploadAsync (rc_call_id r) (user_only_buffer mx) (rc_sample_rate r)
                                      user_only_audio_folder um
                    in (Some p, um')))"

text \<open>The three clock readings of \<open>addFrame\<close> come as a triple.\<close>

type_synonym clocks = "int \<times> int \<times> int"

definition writeFrame :: "byte list \<Rightarrow> bool \<Rightarrow> clocks \<Rightarrow> recorder \<Rightarrow> recorder option" where
  "writeFrame buf is_agent ts r =
     (case rc_mixer r of
        None \<Rightarrow> Some r
      | Some mx \<Rightarrow>
          if is_recording r \<and> buf \<noteq> []
          then (case addFrame buf is_agent (fst ts) (fst (snd ts)) (snd (snd ts)) mx of
                  None \<Rightarrow> None | Some mx' \<Rightarrow> Some (r\<lparr>rc_mixer := Some mx'\<rparr>))
          else Some r)"

definition discardBufferedAudio :: "recorder \<Rightarrow> recorder" where
  "discardBufferedAudio r =
     (case rc_mixer r of None \<Rightarrow> r
      | Some mx \<Rightarrow> if is_recording r then r\<lparr>rc_mixer := Some (clearBuffers mx)\<rparr> else r)"

text \<open>The destructor.\<close>

definition destroy_recorder :: "(string \<Rightarrow> bool) \<Rightarrow> recorder \<Rightarrow> upload_mgr \<Rightarrow> upload_mgr \<times> file_writes" where
  "destroy_recorder opens r um = snd (stopRecording opens r um)"

section \<open>Mixers that sound alike\<close>

text \<open>
  Two mixers are interchangeable when they agree on everything that decides what is recorded
  from now on. The last agent time matters only while the agent stream counts as active, the
  last user time never, and of the scratch buffer only its length.
\<close>

definition same_audio :: "mixer \<Rightarrow> mixer \<Rightarrow> bool" where
  "same_audio m n \<longleftrightarrow> agent_buffer m = agent_buffer n \<and> user_buffer m = user_buffer n
     \<and> audio_buffer m = audio_buffer n \<and> user_only_buffer m = user_only_buffer n
     \<and> length (mix_buffer m) = length (mix_buffer n)
     \<and> agent_silence_count m = agent_silence_count n \<and> user_silence_count m = user_silence_count n
     \<and> agent_stream_active m = agent_stream_active n \<and> user_stream_active m = user_stream_active n
     \<and> (agent_stream_active m \<longrightarrow> last_agent_frame m = last_agent_frame n)"

lemma same_audio_write:
  "same_audio m n \<Longrightarrow> same_audio (writeUserOnlyStream s m) (writeUserOnlyStream s n)"
  "same_audio m n \<Longrightarrow> same_audio (writeSingleStream s m) (writeSingleStream s n)"
  by (simp_all add: same_audio_def writeUserOnlyStream_def writeSingleStream_def)

lemma same_audio_mix:
  "same_audio m n \<Longrightarrow> rel_option same_audio (mixFrames a u m) (mixFrames a u n)"
  by (auto simp: same_audio_def mixFrames_def Let_def)

lemma same_audio_pair_loop:
  "same_audio m n \<Longrightarrow> rel_option same_audio (pair_loop as us m) (pair_loop as us n)"
proof (induction as us m arbitrary: n rule: pair_loop.induct)
  case (1 a as u us m)
  let ?m1 = "writeUserOnlyStream (samples u) m" and ?n1 = "writeUserOnlyStream (samples u) n"
  have w: "same_audio ?m1 ?n1" using "1.prems" by (rule same_audio_write)
  let ?d = "to_ms (timestamp a - timestamp u)"
  consider (user) "int (FRAME_DURATION_MS * 2) < \<bar>?d\<bar>" "0 < ?d"
    | (agent) "int (FRAME_DURATION_MS * 2) < \<bar>?d\<bar>" "\<not> 0 < ?d"
    | (mix) "\<not> int (FRAME_DURATION_MS * 2) < \<bar>?d\<bar>" by blast
  then show ?case
  proof cases
    case user
    from "1.IH"(1) [OF refl refl user same_audio_write(2) [OF w]] user show ?thesis by (simp add: Let_def)
  next
    case agent
    from "1.IH"(2) [OF refl refl agent same_audio_write(2) [OF w]] agent show ?thesis by (simp add: Let_def)
  next
    case mix
    note r = same_audio_mix [OF w, of "samples a" "samples u"]
    show ?thesis
    proof (cases "mixFrames (samples a) (samples u) ?m1")
      case None
      with r mix show ?thesis by (simp add: Let_def)
    next
      case (Some m2)
      with r obtain n2 where n2: "mixFrames (samples a) (samples u) ?n1 = Some n2" "same_audio m2 n2"
        by (auto simp: option_rel_Some1)
      from "1.IH"(3) [OF refl refl mix Some n2(2)] Some n2(1) mix show ?thesis by (simp add: Let_def)
    qed
  qed
qed (auto simp: same_audio_def)

lemma same_audio_process: "same_audio m n \<Longrightarrow> rel_option same_audio (processBuffers m) (processBuffers n)"
proof -
  assume s: "same_audio m n"
  then have "agent_buffer m = agent_buffer n" "user_buffer m = user_buffer n"
    "agent_stream_active m = agent_stream_active n" "user_stream_active m = user_stream_active n"
    by (simp_all add: same_audio_def)
  with same_audio_pair_loop [OF s] s show ?thesis
    by (simp add: processBuffers_def flush_agent_eq flush_user_eq) (simp add: same_audio_def)
qed

lemma same_audio_note:
  assumes "same_audio m n"
  shows "same_audio (checkStreamActivity t3 (push_frame ag f (note_frame ag si t1 m)))
      (checkStreamActivity t3 (push_frame ag f (note_frame ag si t1 n)))"
  using assms
  by (cases ag) (auto simp: same_audio_def note_frame_def push_frame_def checkStreamActivity_def)

lemma same_audio_addFrame:
  "same_audio m n \<Longrightarrow> rel_option same_audio (addFrame buf ag t1 t2 t3 m) (addFrame buf ag t1 t2 t3 n)"
  by (simp add: addFrame_def Let_def same_audio_process same_audio_note)

lemma same_audio_run:
  "rel_option same_audio a b \<Longrightarrow> rel_option same_audio (fold mix_step es a) (fold mix_step es b)"
proof (induction es arbitrary: a b)
  case (Cons e es)
  have "rel_option same_audio (mix_step e a) (mix_step e b)"
  proof (cases a)
    case None
    with Cons.prems show ?thesis by simp
  next
    case (Some m)
    with Cons.prems obtain n where n: "b = Some n" "same_audio m n" by (auto simp: option_rel_Some1)
    show ?thesis
      using Some n by (cases e) (auto simp: same_audio_addFrame, simp add: same_audio_def clearBuffers_def)
  qed
  from Cons.IH [OF this] show ?case by simp
qed simp

lemma clear_same_as_new:
  "samples_per_frame m = rate * 20 div 1000 \<Longrightarrow> mixer_wf m \<Longrightarrow>
   same_audio (clearBuffers m) (new_mixer rate now)"
  by (simp add: same_audio_def clearBuffers_def new_mixer_def Let_def mixer_wf_def FRAME_DURATION_MS_def)

section \<open>The recorder as a machine\<close>

datatype rec_op = RStart int | RFrame "byte list" bool clocks | RDiscard | RStop "string \<Rightarrow> bool"
  | RUploadMixed | RUploadUser

fun rec_step :: "rec_op \<Rightarrow> (recorder \<times> upload_mgr) option \<Rightarrow> (recorder \<times> upload_mgr) option" where
  "rec_step e None = None"
| "rec_step (RStart now) (Some (r, um)) = Some (snd (startRecording now r), um)"
| "rec_step (RFrame buf ag ts) (Some (r, um)) =
     (case writeFrame buf ag ts r of None \<Rightarrow> None | Some r' \<Rightarrow> Some (r', um))"
| "rec_step RDiscard (Some (r, um)) = Some (discardBufferedAudio r, um)"
| "rec_step (RStop opens) (Some (r, um)) = (let (r', um', files) = stopRecording opens r um in Some (r', um'))"
| "rec_step RUploadMixed (Some (r, um)) = Some (r, snd (uploadMixedToR2 r um))"
| "rec_step RUploadUser (Some (r, um)) = Some (r, snd (uploadUserOnlyToR2 r um))"

text \<open>While it records, the recorder owns a well-formed mixer for its own rate.\<close>

definition rec_wf :: "nat \<Rightarrow> recorder \<Rightarrow> bool" where
  "rec_wf rate r \<longleftrightarrow> rc_sample_rate r = rate \<and> (is_recording r \<longrightarrow>
     (\<exists>mx. rc_mixer r = Some mx \<and> mixer_wf mx \<and> samples_per_frame mx = rate * 20 div 1000))"

fun rec_inv :: "nat \<Rightarrow> (recorder \<times> upload_mgr) option \<Rightarrow> bool" where
  "rec_inv rate None = False"
| "rec_inv rate (Some (r, um)) = rec_wf rate r"

fun rec_ok :: "nat \<Rightarrow> rec_op \<Rightarrow> bool" where
  "rec_ok rate (RFrame buf ag ts) = (even (length buf) \<and> length buf \<le> 2 * (rate * 20 div 1000))"
| "rec_ok rate _ = True"

lemma new_mixer_spf [simp]: "samples_per_frame (new_mixer rate now) = rate * 20 div 1000"
  by (simp add: new_mixer_def Let_def FRAME_DURATION_MS_def)

lemma startRecording_wf [wf_intros]: "rec_wf rate r \<Longrightarrow> rec_wf rate (snd (startRecording now r))"
  using new_mixer_wf
  by (auto simp: rec_wf_def startRecording_def)

lemma stopRecording_fields:
  "rc_sample_rate (fst (stopRecording opens r um)) = rc_sample_rate r"
  "\<not> is_recording (fst (stopRecording opens r um))"
  by (auto simp: stopRecording_def Let_def split: option.splits)

lemma stopRecording_wf [wf_intros]: "rec_wf rate r \<Longrightarrow> rec_wf rate (fst (stopRecording opens r um))"
  by (simp add: rec_wf_def stopRecording_fields)

lemma discard_wf [wf_intros]: "rec_wf rate r \<Longrightarrow> rec_wf rate (discardBufferedAudio r)"
  using clearBuffers_wf
  by (auto simp: rec_wf_def discardBufferedAudio_def split: option.splits) (simp add: clearBuffers_def)

lemma writeFrame_wf:
  assumes "rec_wf rate r" and "even (length buf)" and "length buf \<le> 2 * (rate * 20 div 1000)"
  shows "\<exists>r'. writeFrame buf ag ts r = Some r' \<and> rec_wf rate r'"
proof (cases "is_recording r \<and> buf \<noteq> []")
  case True
  then obtain mx where mx: "rc_mixer r = Some mx" "mixer_wf mx" "samples_per_frame mx = rate * 20 div 1000"
    using assms(1) by (auto simp: rec_wf_def)
  then obtain mx' where "addFrame buf ag (fst ts) (fst (snd ts)) (snd (snd ts)) mx = Some mx'"
    "mixer_wf mx'" "samples_per_frame mx' = samples_per_frame mx"
    using addFrame_wf [of mx buf] assms(2,3) by metis
  with True mx assms(1) show ?thesis by (simp add: writeFrame_def rec_wf_def)
next
  case False
  with assms(1) show ?thesis by (auto simp: writeFrame_def split: option.splits)
qed

lemma rec_step_inv: "rec_ok rate e \<Longrightarrow> rec_inv rate s \<Longrightarrow> rec_inv rate (rec_step e s)"
proof (cases s)
  case (Some p)
  assume ok: "rec_ok rate e" and inv: "rec_inv rate s"
  obtain r um where p: "p = (r, um)" by fastforce
  with Some inv have r: "rec_wf rate r" by simp
  show ?thesis
  proof (cases e)
    case (RFrame buf ag ts)
    with ok have "\<exists>r'. writeFrame buf ag ts r = Some r' \<and> rec_wf rate r'"
      by (intro writeFrame_wf [OF r]) simp_all
    with Some p RFrame show ?thesis by auto
  next
    case (RStop opens)
    with Some p stopRecording_wf [OF r, of opens um] show ?thesis by (simp add: split_beta)
  qed (use Some p r in \<open>auto intro: wf_intros\<close>)
qed simp

interpretation recording: inv_machine rec_step "rec_ok rate" "rec_inv rate" for rate
  by unfold_locales (rule rec_step_inv)

lemma new_recorder_wf: "rec_wf rate (new_recorder cid rate now)"
  by (simp add: rec_wf_def new_recorder_def)

text \<open>The frames of a session as the mixer sees them.\<close>

fun write_frames :: "(byte list \<times> bool \<times> clocks) list \<Rightarrow> recorder \<Rightarrow> recorder option" where
  "write_frames [] r = Some r"
| "write_frames ((buf, ag, ts) # fs) r =
     (case writeFrame buf ag ts r of None \<Rightarrow> None | Some r' \<Rightarrow> write_frames fs r')"

lemma write_frames_append:
  "write_frames (fs @ gs) r = Option.bind (write_frames fs r) (write_frames gs)"
proof (induction fs arbitrary: r)
  case (Cons f fs)
  then show ?case by (cases f) (auto split: option.splits)
qed simp

definition mix_ops :: "(byte list \<times> bool \<times> clocks) list \<Rightarrow> mix_op list" where
  "mix_ops fs = map (\<lambda>(buf, ag, t1, t2, t3). AddFrame buf ag t1 t2 t3) fs"

definition tracks :: "recorder \<Rightarrow> (sample list \<times> sample list) option" where
  "tracks r = map_option (\<lambda>mx. (audio_buffer mx, user_only_buffer mx)) (rc_mixer r)"

lemma fold_mix_None [simp]: "fold mix_step es None = None"
  by (induction es) simp_all

lemma write_frames_mixer:
  "is_recording r \<Longrightarrow> rc_mixer r = Some mx \<Longrightarrow>
   write_frames fs r = map_option (\<lambda>mx'. r\<lparr>rc_mixer := Some mx'\<rparr>) (fold mix_step (mix_ops fs) (Some mx))"
proof (induction fs arbitrary: r mx)
  case Nil
  then show ?case by (simp add: mix_ops_def)
next
  case (Cons f fs)
  obtain buf ag t1 t2 t3 where f: "f = (buf, ag, t1, t2, t3)" by (cases f) auto
  have w: "writeFrame buf ag (t1, t2, t3) r
      = map_option (\<lambda>mx'. r\<lparr>rc_mixer := Some mx'\<rparr>) (addFrame buf ag t1 t2 t3 mx)"
    using Cons.prems by (cases "buf = []") (auto simp: writeFrame_def addFrame_def split: option.splits)
  show ?case
  proof (cases "addFrame buf ag t1 t2 t3 mx")
    case None
    with w f show ?thesis by (simp add: mix_ops_def)
  next
    case (Some mx')
    with w f Cons.IH [of "r\<lparr>rc_mixer := Some mx'\<rparr>" mx'] Cons.prems show ?thesis
      by (simp add: mix_ops_def)
  qed
qed

lemma uploadAsync_queue:
  "um_queue (snd (uploadAsync c raw rate folder um)) = um_queue um @
     [\<lparr>uj_call_id = c, uj_wav_data = convertToWav raw rate, uj_folder = folder, uj_result = um_promises um\<rparr>]"
  "um_promises (snd (uploadAsync c raw rate folder um)) = um_promises um + 1"
  by (simp_all add: uploadAsync_def submit_def push_job_def)

lemma upload_track_promises: "um_promises (upload_track r buf folder um) \<le> um_promises um + 1"
  by (simp add: upload_track_def uploadAsync_queue)

lemma stopRecording_promises:
  "um_promises (fst (snd (stopRecording opens r um))) \<le> um_promises um + (if is_recording r then 2 else 0)"
proof -
  have "um_promises (upload_track r a f (upload_track r b g um)) \<le> um_promises um + 2" for r a b f g
    using upload_track_promises [of r a f "upload_track r b g um"] upload_track_promises [of r b g um] by simp
  then show ?thesis by (auto simp: stopRecording_def Let_def split: option.splits)
qed

fun is_start :: "rec_op \<Rightarrow> bool" where
  "is_start (RStart t) = True"
| "is_start _ = False"

fun is_upload :: "rec_op \<Rightarrow> bool" where
  "is_upload RUploadMixed = True"
| "is_upload RUploadUser = True"
| "is_upload _ = False"

lemma upload_track_now_promises:
  "um_promises (snd (uploadMixedToR2 r um)) = um_promises um + (if rc_mixer r = None then 0 else 1)"
  "um_promises (snd (uploadUserOnlyToR2 r um)) = um_promises um + (if rc_mixer r = None then 0 else 1)"
  by (simp_all add: uploadMixedToR2_def uploadUserOnlyToR2_def split_beta uploadAsync_queue split: option.split)

text \<open>Promises handed out, plus the two a running recording may still cause.\<close>

definition owed :: "recorder \<Rightarrow> upload_mgr \<Rightarrow> nat" where
  "owed r um = um_promises um + (if is_recording r then 2 else 0)"

lemma owed_step:
  "rec_step e (Some (r, um)) = Some (r', um') \<Longrightarrow>
   owed r' um' \<le> owed r um + (if is_start e then 2 else 0) + (if is_upload e then 1 else 0)"
proof (cases e)
  case (RStop opens)
  assume "rec_step e (Some (r, um)) = Some (r', um')"
  with RStop have "r' = fst (stopRecording opens r um)" "um' = fst (snd (stopRecording opens r um))"
    by (auto split: prod.splits)
  with RStop stopRecording_promises [of opens r um] show ?thesis
    by (simp add: owed_def stopRecording_fields)
qed (auto simp: owed_def startRecording_def discardBufferedAudio_def writeFrame_def upload_track_now_promises
      split: option.splits if_splits)

lemma fold_rec_None [simp]: "fold rec_step es None = None"
  by (induction es) simp_all

lemma owed_run:
  "fold rec_step es (Some (r, um)) = Some (r', um') \<Longrightarrow>
   owed r' um' \<le> owed r um + 2 * length (filter is_start es) + length (filter is_upload es)"
proof (induction es arbitrary: r um)
  case (Cons e es)
  then obtain r1 um1 where s: "rec_step e (Some (r, um)) = Some (r1, um1)"
    "fold rec_step es (Some (r1, um1)) = Some (r', um')"
    by (cases "rec_step e (Some (r, um))") auto
  from owed_step [OF s(1)] Cons.IH [OF s(2)] show ?case
    by (cases "is_start e"; cases "is_upload e") auto
qed simp

section \<open>Properties\<close>

text \<open>C12: Stopping a recording that holds audio on both tracks submits two upload jobs, the mixed track
  first, for this call and under the two folders, and the WAV file of each decodes to exactly the
  track recorded, at the recorder's rate; the local copies are the same bytes. The recorder is
  left idle without a mixer.\<close>

theorem stop_uploads_both_tracks:
  assumes "is_recording r" and "rc_mixer r = Some mx"
    and "audio_buffer mx \<noteq> []" and "user_only_buffer mx \<noteq> []"
    and "length (audio_buffer mx) < 2 ^ 31" and "length (user_only_buffer mx) < 2 ^ 31"
    and "stopRecording (\<lambda>_. True) r um = (r', um', files)"
  shows "\<exists>mixed user. um_queue um' = um_queue um @
        [\<lparr>uj_call_id = rc_call_id r, uj_wav_data = mixed, uj_folder = ''sip_recordings'', uj_result = um_promises um\<rparr>,
         \<lparr>uj_call_id = rc_call_id r, uj_wav_data = user, uj_folder = ''sip_user_recordings'',
           uj_result = um_promises um + 1\<rparr>]
    \<and> wav_payload mixed = audio_buffer mx \<and> wav_payload user = user_only_buffer mx
    \<and> wav_u32_at 24 mixed = of_nat (rc_sample_rate r) \<and> wav_u32_at 24 user = of_nat (rc_sample_rate r)
    \<and> files = [(''/cores/recordings/'' @ rc_call_id r @ ''_mixed.wav'', mixed),
               (''/cores/recordings/'' @ rc_call_id r @ ''_user.wav'', user)]
    \<and> \<not> is_recording r' \<and> rc_mixer r' = None"
proof -
  have p: "wav_payload (convertToWav raw rate) = raw" if "length raw < 2 ^ 31" for raw rate
    using that by (simp add: payload_convertToWav)
  show ?thesis
    using assms p
    by (intro exI [of _ "convertToWav (audio_buffer mx) (rc_sample_rate r)"]
        exI [of _ "convertToWav (user_only_buffer mx) (rc_sample_rate r)"])
      (auto simp: stopRecording_def Let_def upload_track_def write_track_def uploadAsync_queue header_fields
        mixed_audio_folder_def user_only_audio_folder_def writeWavToFile_def)
qed

definition demo_recorder :: "sample list \<Rightarrow> sample list \<Rightarrow> recorder" where
  "demo_recorder a u = \<lparr>rc_call_id = ''c1'', is_recording = True, rc_sample_rate = 8000,
     rc_mixer = Some ((new_mixer 8000 0)\<lparr>audio_buffer := a, user_only_buffer := u\<rparr>)\<rparr>"

lemma stop_uploads_both_tracks_witness:
  "map (wav_payload \<circ> uj_wav_data)
     (um_queue (fst (snd (stopRecording (\<lambda>_. True) (demo_recorder [1, 2] [3]) (new_upload_mgr Map.empty)))))
   = [[1, 2], [3]]"
proof -
  let ?r = "demo_recorder [1, 2] [3]" and ?um = "new_upload_mgr Map.empty"
  let ?s = "stopRecording (\<lambda>_. True) ?r ?um"
  have "is_recording ?r" "rc_mixer ?r = Some ((new_mixer 8000 0)\<lparr>audio_buffer := [1, 2], user_only_buffer := [3]\<rparr>)"
    by (simp_all add: demo_recorder_def)
  from stop_uploads_both_tracks [OF this, of ?um "fst ?s" "fst (snd ?s)" "snd (snd ?s)"]
  show ?thesis by (auto simp: new_upload_mgr_def)
qed

text \<open>C13: Over any sequence of a recorder's public operations, with whole-sample frames of at most a
  media frame, nothing undefined is reached and at most two uploads are handed to the pool per start
  plus one per explicit upload request: stopping twice, or stopping again in the destructor, submits
  nothing more.\<close>

theorem two_uploads_per_recording:
  assumes "list_all (rec_ok rate) es"
  shows "\<exists>r um'. fold rec_step es (Some (new_recorder cid rate now, um)) = Some (r, um')
    \<and> um_promises um' \<le> um_promises um + 2 * length (filter is_start es) + length (filter is_upload es)"
proof -
  have "rec_inv rate (fold rec_step es (Some (new_recorder cid rate now, um)))"
    by (rule recording.run_inv [OF assms]) (simp add: new_recorder_wf)
  then obtain r um' where e: "fold rec_step es (Some (new_recorder cid rate now, um)) = Some (r, um')"
    by (cases "fold rec_step es (Some (new_recorder cid rate now, um))") auto
  with owed_run [OF e] show ?thesis by (auto simp: owed_def new_recorder_def)
qed

lemma two_uploads_per_recording_witness:
  "\<exists>r um'. fold rec_step [RStart 0, RFrame (replicate 320 1) False (0, 0, 0), RUploadUser, RStop (\<lambda>_. True), RStop (\<lambda>_. True)]
      (Some (new_recorder ''c'' 8000 0, new_upload_mgr Map.empty)) = Some (r, um') \<and> um_promises um' \<le> 3"
proof -
  let ?es = "[RStart 0, RFrame (replicate 320 1) False (0, 0, 0), RUploadUser, RStop (\<lambda>_. True), RStop (\<lambda>_. True)]"
  have "list_all (rec_ok 8000) ?es" by simp
  from two_uploads_per_recording [OF this, of "''c''" 0 "new_upload_mgr Map.empty"]
  obtain r um' where "fold rec_step ?es (Some (new_recorder ''c'' 8000 0, new_upload_mgr Map.empty)) = Some (r, um')"
    and "um_promises um' \<le> um_promises (new_upload_mgr Map.empty) + 2 * length (filter is_start ?es)
      + length (filter is_upload ?es)"
    by blast
  moreover have "um_promises (new_upload_mgr Map.empty) = 0" "length (filter is_start ?es) = 1"
    "length (filter is_upload ?es) = 1"
    by (simp_all add: new_upload_mgr_def)
  ultimately show ?thesis by (intro exI [of _ r] exI [of _ um']) simp
qed

text \<open>C14: After a discard the recording starts over: whatever was recorded before, the two tracks that
  any further frames produce are those they would produce in a recording started just then.\<close>

theorem discard_starts_over:
  assumes "rec_wf rate r" and "is_recording r"
  shows "map_option tracks (write_frames fs (discardBufferedAudio r))
    = map_option tracks (write_frames fs (snd (startRecording now (r\<lparr>is_recording := False\<rparr>))))"
proof -
  from assms obtain mx where mx: "rc_mixer r = Some mx" "mixer_wf mx" "samples_per_frame mx = rate * 20 div 1000"
    and rate: "rc_sample_rate r = rate" by (auto simp: rec_wf_def)
  let ?new = "new_mixer rate now"
  have "rel_option same_audio (fold mix_step (mix_ops fs) (Some (clearBuffers mx)))
      (fold mix_step (mix_ops fs) (Some ?new))"
    using clear_same_as_new [OF mx(3,2)] by (intro same_audio_run) simp
  then have eq: "map_option (\<lambda>m. Some (audio_buffer m, user_only_buffer m))
        (fold mix_step (mix_ops fs) (Some (clearBuffers mx)))
      = map_option (\<lambda>m. Some (audio_buffer m, user_only_buffer m)) (fold mix_step (mix_ops fs) (Some ?new))"
    by (cases "fold mix_step (mix_ops fs) (Some (clearBuffers mx))")
      (auto simp: option_rel_Some1 same_audio_def)
  have "write_frames fs (discardBufferedAudio r)
      = map_option (\<lambda>m. r\<lparr>rc_mixer := Some m\<rparr>) (fold mix_step (mix_ops fs) (Some (clearBuffers mx)))"
    using write_frames_mixer [of "discardBufferedAudio r" "clearBuffers mx" fs] mx assms(2)
    by (simp add: discardBufferedAudio_def)
  moreover have "snd (startRecording now (r\<lparr>is_recording := False\<rparr>)) = r\<lparr>rc_mixer := Some ?new\<rparr>"
    using assms(2) rate by (cases r) (simp add: startRecording_def)
  then have "write_frames fs (snd (startRecording now (r\<lparr>is_recording := False\<rparr>)))
      = map_option (\<lambda>m. r\<lparr>rc_mixer := Some m\<rparr>) (fold mix_step (mix_ops fs) (Some ?new))"
    using write_frames_mixer [of "r\<lparr>rc_mixer := Some ?new\<rparr>" ?new fs] assms(2) by simp
  ultimately show ?thesis using eq
    by (simp add: option.map_comp comp_def tracks_def)
qed

lemma discard_starts_over_witness:
  "map_option tracks (write_frames [(replicate 320 1, True, 0, 0, 0)] (discardBufferedAudio (demo_recorder [7, 7] [8])))
   = map_option tracks (write_frames [(replicate 320 1, True, 0, 0, 0)]
        (snd (startRecording 5 (demo_recorder [7, 7] [8]\<lparr>is_recording := False\<rparr>))))"
proof (rule discard_starts_over)
  have "mixer_wf (new_mixer 8000 0\<lparr>audio_buffer := [7, 7], user_only_buffer := [8]\<rparr>)"
    using new_mixer_wf [of 8000 0] by (simp add: mixer_wf_def)
  then show "rec_wf 8000 (demo_recorder [7, 7] [8])"
    by (simp add: rec_wf_def demo_recorder_def)
  show "is_recording (demo_recorder [7, 7] [8])" by (simp add: demo_recorder_def)
qed

end
