(* ===== verification/Audio_Port.thy ===== *)
theory Audio_Port
  imports Ws_Transfer Recorder
begin

text \<open>
  \<^verbatim>\<open>MyAudioMediaPort\<close> of \<^verbatim>\<open>audio_port.cpp\<close>: the media port between PJSIP's media clock and the
  WebSocket handler. It owns the handler and the recorder, connects with three tries, fits every
  outgoing frame to the size the clock asked for, and carries the handler's requests (hang up,
  DTMF, transfers) to the call. What PJSIP reports about the call is the record \<open>call_view\<close>.
  \<^verbatim>\<open>handleRtpEndpointChange\<close> and \<^verbatim>\<open>reconnectAudioMedia\<close>, which no code calls, come last.
\<close>

text \<open>What \<^verbatim>\<open>current_audio_media\<close> points at: a media object that is still there, or the local
  variable of a block that has been left.\<close>

datatype media_ptr = LiveMedia | DeadMedia

record port =
  p_handler :: "handler option"
  p_ws_uri :: string
  p_initialized :: bool
  p_recorder :: recorder
  p_sample_rate :: int
  p_has_call :: bool
  p_directCall :: bool
  p_rtp_endpoint :: string
  p_audio_media :: "media_ptr option"

definition MAX_RETRIES :: nat where "MAX_RETRIES = 3"

definition new_port :: "string \<Rightarrow> string \<Rightarrow> int \<Rightarrow> bool \<Rightarrow> int \<Rightarrow> port" where
  "new_port uri call_id rate direct now =
     \<lparr>p_handler = None, p_ws_uri = uri, p_initialized = False,
      p_recorder = new_recorder call_id (nat (rate mod 2 ^ 64)) now, p_sample_rate = rate,
      p_has_call = False, p_directCall = direct,
      p_rtp_endpoint = [], p_audio_media = None\<rparr>"

definition setCall :: "bool \<Rightarrow> port \<Rightarrow> port" where
  "setCall present p = p\<lparr>p_has_call := present\<rparr>"

text \<open>What the port does to the world: what its handler does, and what it does to the call.\<close>

datatype port_effect = Ws ws_effect | HangupCall | SipDtmf char | CallSource string | ReferTo string
  | UnregisterPort

section \<open>Connecting\<close>

text \<open>The tries: \<open>conns i\<close> is the outcome of try \<open>i\<close>. The handler keeps its state between tries. The
  last component is the number of the last try made.\<close>

fun connect_loop :: "file_system \<Rightarrow> (nat \<Rightarrow> conn) \<Rightarrow> string \<Rightarrow> nat \<Rightarrow> nat \<Rightarrow> handler
    \<Rightarrow> bool \<times> handler \<times> ws_effect list \<times> nat" where
  "connect_loop fs conns uri attempt 0 h = (False, h, [], attempt - 1)"
| "connect_loop fs conns uri attempt (Suc left) h =
     (let (ok, h1, es) = ws_connect fs (conns attempt) uri h
      in if ok then (True, h1, es, attempt)
         else (let (ok', h2, es', n) = connect_loop fs conns uri (Suc attempt) left h1
               in (ok', h2, es @ es', n)))"

definition initializeWebSocket ::
  "file_system \<Rightarrow> (nat \<Rightarrow> conn) \<Rightarrow> string \<Rightarrow> port \<Rightarrow> bool \<times> port \<times> ws_effect list" where
  "initializeWebSocket fs conns stamp p =
     (if p_initialized p then (True, p, [])
      else
        (let h0 = setMediaPort (setDisconnectCallback (new_handler (p_sample_rate p) (p_ws_uri p) stamp))
         in if p_ws_uri p = [] then (False, p\<lparr>p_handler := Some h0\<rparr>, [])
            else
              (let (ok, h, es, n) = connect_loop fs conns (p_ws_uri p) 1 MAX_RETRIES h0
               in if ok
                  then (let h' = (if str_contains ''://rupture'' (p_ws_uri p) \<and> \<not> p_directCall p
                                  then startRinging fs h else h)
                        in (True, p\<lparr>p_handler := Some h', p_initialized := True\<rparr>, es))
                  else (False, p\<lparr>p_handler := None\<rparr>, es))))"

text \<open>\<^verbatim>\<open>cleanup\<close>; \<open>thread_ok\<close> is false when the thread cannot be registered with PJSIP.\<close>

definition cleanup_port :: "bool \<Rightarrow> port \<Rightarrow> port \<times> port_effect list" where
  "cleanup_port thread_ok p =
     (case p_handler p of
        None \<Rightarrow> (p, [])
      | Some h \<Rightarrow>
          if \<not> thread_ok then (p, [])
          else (p\<lparr>p_handler := None, p_initialized := False\<rparr>, map Ws (snd (ws_disconnect h)) @ [UnregisterPort]))"

section \<open>The media clock\<close>

definition fit_frame :: "nat \<Rightarrow> byte list \<Rightarrow> byte list" where
  "fit_frame expected bs =
     (let d = (if odd (length bs) then butlast bs else bs)
      in if expected < length d then take expected d else d @ replicate (expected - length d) 0)"

text \<open>A frame for the conference bridge; \<open>None\<close> is undefined behaviour in the ringing buffer or the
  recorder.\<close>

definition onFrameRequested :: "nat \<Rightarrow> clocks \<Rightarrow> port \<Rightarrow> (byte list \<times> port \<times> ws_effect list) option" where
  "onFrameRequested expected ts p =
     (case p_handler p of
        None \<Rightarrow> Some (replicate expected 0, p, [])
      | Some h \<Rightarrow>
          if \<not> p_initialized p then Some (replicate expected 0, p, [])
          else if ringing_active h
          then (case handler_getRingingFrame expected h of
                  None \<Rightarrow> None
                | Some (bs, h') \<Rightarrow> Some (fit_frame expected bs, p\<lparr>p_handler := Some h'\<rparr>, []))
          else
            (case getAudioFrame h of
               (None, h', es) \<Rightarrow> Some (replicate expected 0, p\<lparr>p_handler := Some h'\<rparr>, es)
             | (Some bs, h', es) \<Rightarrow>
                 (let frame = fit_frame expected bs
                  in case writeFrame frame True ts (p_recorder p) of
                       None \<Rightarrow> None
                     | Some r \<Rightarrow> Some (frame, p\<lparr>p_handler := Some h', p_recorder := r\<rparr>, es))))"

definition onFrameReceived :: "bool \<Rightarrow> byte list \<Rightarrow> clocks \<Rightarrow> port \<Rightarrow> (port \<times> ws_effect list) option" where
  "onFrameReceived ec buf ts p =
     (case p_handler p of
        None \<Rightarrow> Some (p, [])
      | Some h \<Rightarrow>
          if p_initialized p \<and> buf \<noteq> []
          then (let (h', es) = sendAudioFrame ec buf h
                in case writeFrame buf False ts (p_recorder p) of
                     None \<Rightarrow> None
                   | Some r \<Rightarrow> Some (p\<lparr>p_handler := Some h', p_recorder := r\<rparr>, es))
          else Some (p, []))"

definition port_startRecording :: "int \<Rightarrow> port \<Rightarrow> port" where
  "port_startRecording now p = p\<lparr>p_recorder := snd (startRecording now (p_recorder p))\<rparr>"

definition port_stopRecording :: "(string \<Rightarrow> bool) \<Rightarrow> port \<Rightarrow> upload_mgr \<Rightarrow> port \<times> upload_mgr \<times> file_writes" where
  "port_stopRecording opens p um =
     (let (r, um', files) = stopRecording opens (p_recorder p) um in (p\<lparr>p_recorder := r\<rparr>, um', files))"

definition discardRecordingSoFar :: "port \<Rightarrow> port" where
  "discardRecordingSoFar p = p\<lparr>p_recorder := discardBufferedAudio (p_recorder p)\<rparr>"

definition port_sendDtmf :: "char \<Rightarrow> port \<Rightarrow> ws_effect list" where
  "port_sendDtmf digit p =
     (case p_handler p of None \<Rightarrow> [] | Some h \<Rightarrow> if p_initialized p then sendDtmfEvent digit h else [])"

section \<open>Towards the call\<close>

datatype info_result = Info bool | SessionTerminated | InfoError

record call_view =
  cv_thread_ok :: bool
  cv_id_valid :: bool
  cv_active :: bool
  cv_info :: info_result
  cv_dtmf_throws :: "nat \<Rightarrow> bool"
  cv_source :: string

definition onWebSocketDisconnected :: "call_view \<Rightarrow> port \<Rightarrow> port_effect list" where
  "onWebSocketDisconnected cv p =
     (if \<not> p_has_call p \<or> \<not> cv_thread_ok cv \<or> \<not> cv_id_valid cv \<or> \<not> cv_active cv then []
      else (case cv_info cv of
              Info disconnected \<Rightarrow> if disconnected then [] else [HangupCall]
            | SessionTerminated \<Rightarrow> []
            | InfoError \<Rightarrow> []))"

definition port_setHangupSource :: "string \<Rightarrow> port \<Rightarrow> port_effect list" where
  "port_setHangupSource source p = (if p_has_call p then [CallSource source] else [])"

definition port_getHangupSource :: "call_view \<Rightarrow> port \<Rightarrow> string" where
  "port_getHangupSource cv p = (if p_has_call p then cv_source cv else ''none'')"

definition is_dtmf :: "char \<Rightarrow> bool" where
  "is_dtmf c \<longleftrightarrow> is_digit c \<or> c = CHR ''*'' \<or> c = CHR ''#''"

text \<open>The loop over the text ends at the first digit that PJSIP rejects.\<close>

fun dtmf_loop :: "(nat \<Rightarrow> bool) \<Rightarrow> nat \<Rightarrow> string \<Rightarrow> port_effect list" where
  "dtmf_loop throws i [] = []"
| "dtmf_loop throws i (c # cs) =
     (if is_dtmf c then (if throws i then [] else SipDtmf c # dtmf_loop throws (Suc i) cs)
      else dtmf_loop throws i cs)"

definition receiveDtmfFromWebsocket :: "call_view \<Rightarrow> string \<Rightarrow> port \<Rightarrow> port_effect list" where
  "receiveDtmfFromWebsocket cv txt p = (if p_has_call p then dtmf_loop (cv_dtmf_throws cv) 0 txt else [])"

definition startHumanNumberTransfer :: "string \<Rightarrow> port \<Rightarrow> port_effect list" where
  "startHumanNumberTransfer number p = (if p_has_call p then [ReferTo number] else [])"

text \<open>The handler's calls on its port and through its callback, carried out by the port.\<close>

fun port_deliver :: "call_view \<Rightarrow> ws_effect \<Rightarrow> port \<Rightarrow> port \<times> port_effect list" where
  "port_deliver cv InvokeDisconnect p = (p, onWebSocketDisconnected cv p)"
| "port_deliver cv (SetHangupSource s) p = (p, port_setHangupSource s p)"
| "port_deliver cv (ForwardDtmf t) p = (p, receiveDtmfFromWebsocket cv t p)"
| "port_deliver cv (StartNumberTransfer n) p = (p, startHumanNumberTransfer n p)"
| "port_deliver cv DiscardRecording p = (discardRecordingSoFar p, [])"
| "port_deliver cv e p = (p, [Ws e])"

fun port_deliver_all :: "call_view \<Rightarrow> ws_effect list \<Rightarrow> port \<Rightarrow> port \<times> port_effect list" where
  "port_deliver_all cv [] p = (p, [])"
| "port_deliver_all cv (e # es) p =
     (let (p1, a) = port_deliver cv e p; (p2, b) = port_deliver_all cv es p1 in (p2, a @ b))"

section \<open>Switching the RTP endpoint\<close>

text \<open>What PJSIP knows of one media stream of the call: whether it is audio, and whether getting it and
  the two connections of it succeed.\<close>

record media_view =
  mv_audio :: bool
  mv_get_ok :: bool
  mv_port_ok :: bool
  mv_media_ok :: bool

datatype rtp_effect = StopMedia | StopPort | PortTo nat | MediaFrom nat

text \<open>The search for an audio stream to connect to, from index \<open>i\<close> on; the result says whether one was
  connected both ways. A stream that fails halfway keeps the connection already made.\<close>

fun reconnect_media :: "nat \<Rightarrow> media_view list \<Rightarrow> bool \<times> rtp_effect list" where
  "reconnect_media i [] = (False, [])"
| "reconnect_media i (v # vs) =
     (if \<not> mv_audio v \<or> \<not> mv_get_ok v \<or> \<not> mv_port_ok v then reconnect_media (Suc i) vs
      else if \<not> mv_media_ok v then (let (ok, es) = reconnect_media (Suc i) vs in (ok, PortTo i # es))
      else (True, [PortTo i, MediaFrom i]))"

text \<open>\<open>stops\<close> says whether the two disconnections succeed, \<open>info\<close> is \<open>None\<close> when \<^verbatim>\<open>getInfo\<close> throws.
  Following the pointer to a dead object is undefined: \<open>None\<close>. After a success the pointer is to the
  variable of the block that is being left.\<close>

definition reconnectAudioMedia ::
  "bool \<times> bool \<Rightarrow> media_view list option \<Rightarrow> port \<Rightarrow> (port \<times> rtp_effect list) option" where
  "reconnectAudioMedia stops info p =
     (if \<not> p_has_call p then Some (p, [])
      else (case p_audio_media p of
              None \<Rightarrow> Some (p, [])
            | Some DeadMedia \<Rightarrow> None
            | Some LiveMedia \<Rightarrow>
                (let es = (if fst stops then [StopMedia] else []) @ (if snd stops then [StopPort] else [])
                 in case info of
                      None \<Rightarrow> Some (p, es)
                    | Some vs \<Rightarrow>
                        (let (ok, fs) = reconnect_media 0 vs
                         in Some (if ok then p\<lparr>p_audio_media := Some DeadMedia\<rparr> else p, es @ fs)))))"

definition handleRtpEndpointChange ::
  "bool \<times> bool \<Rightarrow> media_view list option \<Rightarrow> string \<Rightarrow> port \<Rightarrow> (port \<times> rtp_effect list) option" where
  "handleRtpEndpointChange stops info new_endpoint p =
     (if p_rtp_endpoint p \<noteq> new_endpoint
      then reconnectAudioMedia stops info (p\<lparr>p_rtp_endpoint := new_endpoint\<rparr>)
      else Some (p, []))"

section \<open>Facts\<close>

text \<open>No other code sets the pointer, so a port as constructed follows a switch by remembering the
  endpoint only.\<close>

lemma rtp_switch_remembers:
  "p_audio_media p = None \<Longrightarrow>
   handleRtpEndpointChange stops info e p = Some (p\<lparr>p_rtp_endpoint := e\<rparr>, [])"
  by (auto simp: handleRtpEndpointChange_def reconnectAudioMedia_def)

text \<open>If it were set, the first switch that finds an audio stream would leave it dangling, and the
  second switch would follow it.\<close>

lemma second_rtp_switch_dangles:
  assumes "p_has_call p" and "p_audio_media p = Some LiveMedia" and "fst (reconnect_media 0 vs)"
    and "p_rtp_endpoint p \<noteq> e" and "e \<noteq> e'"
  shows "\<exists>p1 es. handleRtpEndpointChange stops (Some vs) e p = Some (p1, es)
    \<and> handleRtpEndpointChange stops' info e' p1 = None"
proof -
  obtain fs where f: "reconnect_media 0 vs = (True, fs)" using assms(3) by (cases "reconnect_media 0 vs") simp
  let ?p = "p\<lparr>p_rtp_endpoint := e, p_audio_media := Some DeadMedia\<rparr>"
  have "handleRtpEndpointChange stops' info e' ?p = None"
    using assms(1,5) by (simp add: handleRtpEndpointChange_def reconnectAudioMedia_def)
  moreover have "\<exists>es. handleRtpEndpointChange stops (Some vs) e p = Some (?p, es)"
    using assms(1,2,4) f by (simp add: handleRtpEndpointChange_def reconnectAudioMedia_def Let_def)
  ultimately show ?thesis by blast
qed

text \<open>The search connects the first audio stream whose three operations all succeed.\<close>

lemma reconnect_media_first:
  "fst (reconnect_media i vs) \<longleftrightarrow> list_ex (\<lambda>v. mv_audio v \<and> mv_get_ok v \<and> mv_port_ok v \<and> mv_media_ok v) vs"
  by (induction i vs rule: reconnect_media.induct) (auto simp: Let_def split: prod.splits)

lemma length_fit_frame [simp]: "length (fit_frame expected bs) = expected"
  by (simp add: fit_frame_def Let_def)

lemma fit_frame_id: "even (length bs) \<Longrightarrow> length bs = expected \<Longrightarrow> fit_frame expected bs = bs"
  by (simp add: fit_frame_def Let_def)

text \<open>A port whose recorder and handler are in order.\<close>

definition port_wf :: "nat \<Rightarrow> port \<Rightarrow> bool" where
  "port_wf rate p \<longleftrightarrow> rec_wf rate (p_recorder p)
     \<and> (case p_handler p of None \<Rightarrow> True | Some h \<Rightarrow> queue_wf h \<and> ringing_ok h)"

lemma getAudioFrame_ringing [simp]:
  "ringing_provider (fst (snd (getAudioFrame h))) = ringing_provider h"
  by (auto simp: getAudioFrame_def sendPlayedStreamEvent_def resetCheckpointState_def Let_def split: list.splits)

lemma handler_getRingingFrame_ok:
  assumes "ringing_ok h" and "queue_wf h"
  shows "\<exists>bs h'. handler_getRingingFrame n h = Some (bs, h') \<and> ringing_ok h' \<and> queue_wf h'"
proof -
  obtain bs r where r: "getRingingFrame n (ringing_provider h) = Some (bs, r)"
    using assms(1) getRingingFrame_ready [of "ringing_provider h" n]
      getRingingFrame_silent [of "ringing_provider h" n]
    by (cases "isReady (ringing_provider h)") (auto simp: ringing_ok_def)
  with assms show ?thesis
    by (auto simp: handler_getRingingFrame_def ringing_ok_def queue_wf_def intro: getRingingFrame_wf)
qed

lemma onFrameRequested_wf:
  assumes "port_wf rate p" and "even expected" and "expected \<le> 2 * (rate * 20 div 1000)"
  shows "\<exists>bs p' es. onFrameRequested expected ts p = Some (bs, p', es) \<and> length bs = expected \<and> port_wf rate p'"
proof (cases "p_handler p")
  case None
  with assms show ?thesis by (simp add: onFrameRequested_def)
next
  case (Some h)
  have h: "queue_wf h" "ringing_ok h" "rec_wf rate (p_recorder p)"
    using assms(1) Some by (simp_all add: port_wf_def)
  consider (off) "\<not> p_initialized p" | (ring) "p_initialized p" "ringing_active h"
    | (play) "p_initialized p" "\<not> ringing_active h" by blast
  then show ?thesis
  proof cases
    case off
    with assms Some show ?thesis by (simp add: onFrameRequested_def)
  next
    case ring
    from handler_getRingingFrame_ok [OF h(2,1)] obtain bs h' where
      "handler_getRingingFrame expected h = Some (bs, h')" "ringing_ok h'" "queue_wf h'" by blast
    with ring Some h(3) show ?thesis by (simp add: onFrameRequested_def port_wf_def)
  next
    case play
    obtain fo h' es where g: "getAudioFrame h = (fo, h', es)" by (cases "getAudioFrame h")
    have h': "queue_wf h'" "ringing_ok h'"
      using getAudioFrame_wf [OF h(1)] getAudioFrame_ringing [of h] h(2) g by (simp_all add: ringing_ok_def)
    show ?thesis
    proof (cases fo)
      case None
      with play Some g h' h(3) show ?thesis by (simp add: onFrameRequested_def port_wf_def)
    next
      case f: (Some bs)
      obtain r where "writeFrame (fit_frame expected bs) True ts (p_recorder p) = Some r" "rec_wf rate r"
        using writeFrame_wf [OF h(3), of "fit_frame expected bs" True ts] assms(2,3) by auto
      with play Some g f h' show ?thesis by (simp add: onFrameRequested_def port_wf_def)
    qed
  qed
qed

text \<open>The connection loop as a retry with a budget of three.\<close>

definition demo_conns :: "(nat \<Rightarrow> bool) \<Rightarrow> nat \<Rightarrow> conn" where
  "demo_conns f i = (if f i then ClientRuns (\<lambda>_. True) else CreateError)"

lemma connect_loop_outcome:
  assumes "uri \<noteq> ''TEST_SIPP_RINGING''" and "\<not> connected h"
    and "connect_loop fs conns uri a n h = (ok, h', es, m)"
  shows "(ok \<longrightarrow> a \<le> m \<and> m < a + n \<and> conn_opens (conns m) \<and> connected h' \<and> ringing_active h' = ringing_active h)
       \<and> (\<forall>i. a \<le> i \<and> i < (if ok then m else a + n) \<longrightarrow> \<not> conn_opens (conns i))
       \<and> (\<not> ok \<longrightarrow> m = a + n - 1)"
  using assms(2,3)
proof (induction n arbitrary: a h es)
  case 0
  then show ?case by auto
next
  case (Suc n)
  obtain ok1 h1 es1 where c: "ws_connect fs (conns a) uri h = (ok1, h1, es1)" by (cases "ws_connect fs (conns a) uri h")
  have o: "ok1 = conn_opens (conns a)" using ws_connect_ok(1) [OF c assms(1) Suc.prems(1)] by (simp add: conn_opens_iff)
  have h1: "ringing_active h1 = ringing_active h" "connected h1 = ok1"
    using c assms(1) Suc.prems(1)
    by (auto simp: ws_connect_def poll_loop_eq open_handler_eq Let_def split: if_splits conn.splits)
  show ?case
  proof (cases ok1)
    case True
    with c Suc.prems(2) have "ok" "h' = h1" "m = a" by auto
    with True o h1 show ?thesis by auto
  next
    case False
    obtain es2 where r: "connect_loop fs conns uri (Suc a) n h1 = (ok, h', es2, m)"
      using Suc.prems(2) c False by (auto simp: Let_def split: prod.splits)
    have IH: "(ok \<longrightarrow> Suc a \<le> m \<and> m < Suc a + n \<and> conn_opens (conns m) \<and> connected h'
         \<and> ringing_active h' = ringing_active h1)
       \<and> (\<forall>i. Suc a \<le> i \<and> i < (if ok then m else Suc a + n) \<longrightarrow> \<not> conn_opens (conns i))
       \<and> (\<not> ok \<longrightarrow> m = Suc a + n - 1)"
      using Suc.IH [OF _ r] h1(2) False by simp
    have first: "\<not> conn_opens (conns i)" if i: "a \<le> i \<and> i < (if ok then m else a + Suc n)" for i
    proof (cases "i = a")
      case True
      with o False show ?thesis by simp
    next
      case ne: False
      with i have "Suc a \<le> i \<and> i < (if ok then m else Suc a + n)" by (simp split: if_splits)
      with IH show ?thesis by blast
    qed
    then have "\<forall>i. a \<le> i \<and> i < (if ok then m else a + Suc n) \<longrightarrow> \<not> conn_opens (conns i)" by blast
    moreover have "ok \<longrightarrow> a \<le> m \<and> m < a + Suc n \<and> conn_opens (conns m) \<and> connected h' \<and> ringing_active h' = ringing_active h"
      using IH h1(1) by auto
    moreover have "\<not> ok \<longrightarrow> m = a + Suc n - 1" using IH by simp
    ultimately show ?thesis by blast
  qed
qed

definition wss :: "string \<Rightarrow> string" where
  "wss rest = ''wss://'' @ rest"

definition connect_run :: "int \<Rightarrow> string \<Rightarrow> string \<Rightarrow> (nat \<Rightarrow> bool) \<Rightarrow> bool \<times> nat" where
  "connect_run rate rest stamp f =
     (let r = connect_loop Map.empty (demo_conns f) (wss rest) 1 MAX_RETRIES (new_handler rate (wss rest) stamp)
      in (fst r, snd (snd (snd r))))"

lemma demo_conns_opens: "conn_opens (demo_conns f i) \<longleftrightarrow> f i"
  by (auto simp: demo_conns_def conn_opens_iff)

lemma connect_run_outcome:
  assumes "connect_run rate rest stamp f = (ok, m)"
  shows "(ok \<longrightarrow> 1 \<le> m \<and> m < 4 \<and> f m) \<and> (\<forall>i. 1 \<le> i \<and> i < (if ok then m else 4) \<longrightarrow> \<not> f i) \<and> (\<not> ok \<longrightarrow> m = 3)"
proof -
  have "hd (wss rest) = CHR ''w''" by (simp add: wss_def)
  then have u: "wss rest \<noteq> ''TEST_SIPP_RINGING''" by auto
  have h: "\<not> connected (new_handler rate (wss rest) stamp)"
    by (auto simp: new_handler_def setAgentId_def Let_def split: option.splits)
  obtain h' es where "connect_loop Map.empty (demo_conns f) (wss rest) 1 MAX_RETRIES
      (new_handler rate (wss rest) stamp) = (ok, h', es, m)"
    using assms by (cases "connect_loop Map.empty (demo_conns f) (wss rest) 1 MAX_RETRIES
      (new_handler rate (wss rest) stamp)") (auto simp: connect_run_def)
  from connect_loop_outcome [OF u h this] show ?thesis
    unfolding demo_conns_opens by (auto simp: MAX_RETRIES_def)
qed

interpretation port_connect: bounded_retry "connect_run rate rest stamp" 3 for rate rest stamp
proof unfold_locales
  fix f
  obtain ok m where r: "connect_run rate rest stamp f = (ok, m)" by fastforce
  note o = connect_run_outcome [OF r]
  show "snd (connect_run rate rest stamp f) \<le> 3" using o r by (cases ok) auto
  show "0 < snd (connect_run rate rest stamp f) \<and> f (snd (connect_run rate rest stamp f))
      \<and> (\<forall>i. 0 < i \<and> i < snd (connect_run rate rest stamp f) \<longrightarrow> \<not> f i)"
    if "fst (connect_run rate rest stamp f)"
    using that o r by auto
  show "snd (connect_run rate rest stamp f) = 3 \<and> (\<forall>i. 0 < i \<and> i \<le> 3 \<longrightarrow> \<not> f i)"
    if "\<not> fst (connect_run rate rest stamp f)"
    using that o r by auto
qed

lemma connect_run_succeeds_iff: "fst (connect_run rate rest stamp f) \<longleftrightarrow> (\<exists>i. 0 < i \<and> i \<le> 3 \<and> f i)"
  by (rule port_connect.succeeds_iff)

section \<open>Properties\<close>

text \<open>C21: A port that is asked for a frame always answers with exactly as many bytes as the clock asked
  for, whichever path serves it (silence, ringing, playback), and without undefined behaviour in
  the ringing buffer or the recorder, for any whole-sample request of at most a media frame; and
  it stays in order for the next request.\<close>

theorem frame_size_exact:
  assumes "port_wf rate p" and "even expected" and "expected \<le> 2 * (rate * 20 div 1000)"
  shows "\<exists>bs p' es. onFrameRequested expected ts p = Some (bs, p', es) \<and> length bs = expected \<and> port_wf rate p'"
  using onFrameRequested_wf [OF assms] .

definition demo_port :: "handler \<Rightarrow> port" where
  "demo_port h = (new_port (ws_uri h) ''c1'' 8000 False 0)\<lparr>p_handler := Some h, p_initialized := True, p_has_call := True\<rparr>"

lemma demo_port_fields [simp]:
  "p_handler (demo_port h) = Some h" "p_initialized (demo_port h)" "p_has_call (demo_port h)"
  "p_recorder (demo_port h) = new_recorder ''c1'' 8000 0"
  by (simp_all add: demo_port_def new_port_def)

lemma frame_size_exact_witness:
  "\<exists>bs p' es. onFrameRequested 320 (0, 0, 0) (demo_port (new_handler 8000 ''wss://a'' ''0'')) = Some (bs, p', es)
     \<and> length bs = 320"
proof -
  have "port_wf 8000 (demo_port (new_handler 8000 ''wss://a'' ''0''))"
    using new_handler_queue_wf new_handler_ok by (simp add: port_wf_def new_recorder_wf)
  from frame_size_exact [OF this, of 320 "(0, 0, 0)"] show ?thesis by simp blast
qed

text \<open>Initialising a port succeeds exactly when one of three connection tries opens within its 50
  polls. Then the port is initialised, its handler connected, and ringing plays only for a
  \<open>://rupture\<close> URI of a call that is not direct; otherwise no handler is left and the port stays
  uninitialised.\<close>

lemma three_connection_tries:
  assumes "\<not> p_initialized p" and "p_ws_uri p \<noteq> []" and "p_ws_uri p \<noteq> ''TEST_SIPP_RINGING''"
    and "initializeWebSocket fs conns stamp p = (ok, p', es)"
  shows "ok = (\<exists>i f. 1 \<le> i \<and> i \<le> 3 \<and> conns i = ClientRuns f \<and> (\<exists>k \<le> 50. f k))
    \<and> p_initialized p' = ok
    \<and> (if ok then \<exists>h. p_handler p' = Some h \<and> connected h
         \<and> (ringing_active h \<longrightarrow> str_contains ''://rupture'' (p_ws_uri p) \<and> \<not> p_directCall p)
       else p_handler p' = None)"
proof -
  let ?h0 = "setMediaPort (setDisconnectCallback (new_handler (p_sample_rate p) (p_ws_uri p) stamp))"
  have h0: "\<not> connected ?h0" "\<not> ringing_active ?h0"
    by (auto simp: setMediaPort_def setDisconnectCallback_def new_handler_def setAgentId_def Let_def split: option.splits)
  obtain ok1 h es1 m where l: "connect_loop fs conns (p_ws_uri p) 1 MAX_RETRIES ?h0 = (ok1, h, es1, m)"
    by (cases "connect_loop fs conns (p_ws_uri p) 1 MAX_RETRIES ?h0")
  note o = connect_loop_outcome [OF assms(3) h0(1) l]
  show ?thesis
  proof (cases ok1)
    case True
    then have res: "ok" "p_initialized p'"
      "p_handler p' = Some (if str_contains ''://rupture'' (p_ws_uri p) \<and> \<not> p_directCall p
         then startRinging fs h else h)"
      using assms(1,2,4) l by (auto simp: initializeWebSocket_def)
    have h: "connected h" "\<not> ringing_active h" using o True h0(2) by auto
    obtain f where "1 \<le> m" "m < 4" "conns m = ClientRuns f" "\<exists>k \<le> 50. f k"
      using o True by (auto simp: MAX_RETRIES_def CONNECT_POLLS_def conn_opens_iff)
    then have "\<exists>i f. 1 \<le> i \<and> i \<le> 3 \<and> conns i = ClientRuns f \<and> (\<exists>k \<le> 50. f k)"
      by (intro exI [of _ m] exI [of _ f]) auto
    with res h show ?thesis by (auto simp: frame_simps)
  next
    case False
    then have res: "\<not> ok" "\<not> p_initialized p'" "p_handler p' = None"
      using assms(1,2,4) l by (auto simp: initializeWebSocket_def)
    have "\<not> (\<exists>f. conns i = ClientRuns f \<and> (\<exists>k \<le> 50. f k))" if "1 \<le> i" "i \<le> 3" for i
      using o False that by (auto simp: MAX_RETRIES_def CONNECT_POLLS_def conn_opens_iff)
    with res show ?thesis by auto
  qed
qed

text \<open>A call that PJSIP still has, so that the port's callback hangs it up.\<close>

definition call_live :: "call_view \<Rightarrow> bool" where
  "call_live cv \<longleftrightarrow> cv_thread_ok cv \<and> cv_id_valid cv \<and> cv_active cv \<and> cv_info cv = Info False"

definition can_hang_up :: "call_view \<Rightarrow> port \<Rightarrow> bool" where
  "can_hang_up cv p \<longleftrightarrow> p_has_call p \<and> call_live cv"

lemma onWebSocketDisconnected_iff:
  "onWebSocketDisconnected cv p = (if can_hang_up cv p then [HangupCall] else [])"
  by (auto simp: onWebSocketDisconnected_def can_hang_up_def call_live_def split: info_result.splits)

text \<open>C17: What a close of the connection does to the call, for the handler of a media port. While a
  transfer is in progress, or when the connection cannot be looked up, it does nothing to the call.
  Otherwise the handler is disconnected, and a drop nobody asked for, on a URI without \<open>rupture2\<close> and
  with budget left, starts exactly one reconnect, which is counted; every other close hangs the call
  up, exactly once, if PJSIP still has it, and blames the WebSocket only if nobody asked for the close
  and nobody has been blamed.\<close>

theorem close_decision:
  assumes "has_callback h" and "has_med_port h"
    and "close_handler con_ok (port_getHangupSource cv p) h = (h', es)" and "port_deliver_all cv es p = (p', out)"
  shows "if \<not> con_ok \<or> agent_transfer_in_progress h
    then out = [] \<and> p' = p \<and> reconnect_attempts h' = reconnect_attempts h
    else \<not> connected h' \<and>
      (if \<not> hangup_received h \<and> \<not> intentional_close h \<and> \<not> str_contains ''rupture2'' (ws_uri h) \<and> reconnect_attempts h < 3
       then out = [Ws SpawnReconnect] \<and> reconnect_attempts h' = reconnect_attempts h + 1
       else reconnect_attempts h' = reconnect_attempts h
         \<and> out = (if \<not> hangup_received h \<and> \<not> intentional_close h \<and> p_has_call p \<and> cv_source cv = ''none''
                  then [CallSource ''Websocket''] else [])
              @ (if can_hang_up cv p then [HangupCall] else []))"
  using assms
  by (auto simp: close_handler_def may_reconnect_def MAX_RECONNECT_ATTEMPTS_def blame_def invoke_callback_def
      port_getHangupSource_def port_setHangupSource_def onWebSocketDisconnected_iff Let_def split: if_splits)

definition demo_view :: call_view where
  "demo_view = \<lparr>cv_thread_ok = True, cv_id_valid = True, cv_active = True, cv_info = Info False,
     cv_dtmf_throws = (\<lambda>_. False), cv_source = ''none''\<rparr>"

lemma close_decision_witness:
  "snd (port_deliver_all demo_view (snd (close_handler True ''none'' (demo_handler ''wss://rupture2.x'')))
     (demo_port (demo_handler ''wss://rupture2.x''))) = [CallSource ''Websocket'', HangupCall]"
proof -
  let ?h = "demo_handler ''wss://rupture2.x''"
  let ?p = "demo_port ?h" and ?r = "close_handler True ''none'' ?h"
  have g: "port_getHangupSource demo_view ?p = ''none''" by (simp add: port_getHangupSource_def demo_view_def)
  have c: "close_handler True (port_getHangupSource demo_view ?p) ?h = (fst ?r, snd ?r)" by (simp add: g)
  from close_decision [OF _ _ c, of "fst (port_deliver_all demo_view (snd ?r) ?p)" "snd (port_deliver_all demo_view (snd ?r) ?p)"]
  show ?thesis by (simp add: str_contains_def can_hang_up_def call_live_def demo_view_def)
qed

text \<open>C22: A hangup message that carries a string \<open>hangupType\<close> hangs a live call up, exactly once, after
  recording the reason if nobody has been blamed yet. One without it hangs nothing up and records
  nothing, although the handler is marked as hung up either way.\<close>

theorem hangup_message_ends_call:
  assumes "json_parse L msg = Some j" and "json_field L j ''event'' = Some ''hangup''"
    and "has_med_port h" and "has_callback h" and "can_hang_up cv p"
    and "message_handler L True msg (port_getHangupSource cv p) h = Some (h', es)"
  shows "hangup_received h' \<and> snd (port_deliver_all cv es p)
    = (case json_field L j ''hangupType'' of
         None \<Rightarrow> []
       | Some reason \<Rightarrow> (if cv_source cv = ''none'' then [CallSource reason] else []) @ [HangupCall])"
  using assms
  by (cases "json_field L j ''hangupType''")
    (auto simp: message_handler_def dispatch_def on_hangup_def blame_def invoke_callback_def Let_def
      port_getHangupSource_def port_setHangupSource_def onWebSocketDisconnected_iff can_hang_up_def call_live_def)

lemma hangup_message_ends_call_witness:
  "\<exists>h' es. message_handler (demo_libs (\<lambda>_. Some (JObj [(''event'', JStr ''hangup''), (''hangupType'', JStr ''timeout'')])))
        True ''m'' ''none'' (demo_handler ''wss://a'') = Some (h', es)
    \<and> snd (port_deliver_all demo_view es (demo_port (demo_handler ''wss://a''))) = [CallSource ''timeout'', HangupCall]"
proof -
  let ?j = "JObj [(''event'', JStr ''hangup''), (''hangupType'', JStr ''timeout'')]"
  let ?L = "demo_libs (\<lambda>_. Some ?j)" and ?h = "demo_handler ''wss://a''"
  have L: "json_parse ?L ''m'' = Some ?j" "json_field ?L ?j ''event'' = Some ''hangup''"
    "json_field ?L ?j ''hangupType'' = Some ''timeout''"
    by (simp_all add: demo_libs_def json_field_def)
  have v: "can_hang_up demo_view (demo_port ?h)" "cv_source demo_view = ''none''"
    by (simp_all add: demo_view_def can_hang_up_def call_live_def)
  have g: "port_getHangupSource demo_view (demo_port ?h) = ''none''"
    by (simp add: port_getHangupSource_def v(2))
  obtain h' es where m: "message_handler ?L True ''m'' ''none'' ?h = Some (h', es)"
    using L by (simp add: message_handler_def dispatch_def on_hangup_def Let_def)
  from hangup_message_ends_call [OF L(1,2) _ _ v(1), of ?h h' es] m v(2) L(3)
  show ?thesis unfolding g by auto
qed

end
