(* ===== verification/Call_Text.thy ===== *)
theory Call_Text
  imports Cpp_Std
begin

text \<open>
  The pure parts of a call's life in \<^verbatim>\<open>call.cpp\<close> and \<^verbatim>\<open>simulated_call.cpp\<close>: the states of the SIP
  invite session, the status reported for a state and a response code, the billing, the values
  cut out of URLs and SIP URIs by regular expressions, and the JSON of the call record.
\<close>

section \<open>Invite session states\<close>

text \<open>\<^verbatim>\<open>pjsip_inv_state\<close>, in the order of its values.\<close>

datatype inv_state = InvNull | InvCalling | InvIncoming | InvEarly | InvConnecting | InvConfirmed
  | InvDisconnected

fun inv_rank :: "inv_state \<Rightarrow> nat" where
  "inv_rank InvNull = 0"
| "inv_rank InvCalling = 1"
| "inv_rank InvIncoming = 2"
| "inv_rank InvEarly = 3"
| "inv_rank InvConnecting = 4"
| "inv_rank InvConfirmed = 5"
| "inv_rank InvDisconnected = 6"

lemma inv_rank_inj: "inv_rank a = inv_rank b \<Longrightarrow> a = b"
  by (cases a; cases b) auto

instantiation inv_state :: linorder
begin

definition less_eq_inv_state :: "inv_state \<Rightarrow> inv_state \<Rightarrow> bool" where
  "less_eq_inv_state a b \<longleftrightarrow> inv_rank a \<le> inv_rank b"

definition less_inv_state :: "inv_state \<Rightarrow> inv_state \<Rightarrow> bool" where
  "less_inv_state a b \<longleftrightarrow> inv_rank a < inv_rank b"

instance
  by standard (auto simp: less_eq_inv_state_def less_inv_state_def dest: inv_rank_inj)

end

lemma disconnected_greatest [simp]: "(s :: inv_state) \<le> InvDisconnected" "\<not> InvDisconnected < (s :: inv_state)"
  by (cases s; simp add: less_eq_inv_state_def less_inv_state_def)+

section \<open>The reported status\<close>

text \<open>The status of a disconnected call by response code, connected seconds and total seconds. The case
  of 503 sets \<open>busy\<close> and falls through into the case of 404, which overwrites it.\<close>

definition disconnect_status :: "int \<Rightarrow> int \<Rightarrow> int \<Rightarrow> string" where
  "disconnect_status code connect_sec total_sec =
     (if code = 200 then ''completed''
      else if code = 487 then (if 0 < connect_sec then ''completed'' else ''fail'')
      else if code = 480 then (if total_sec < 34 then ''busy'' else ''no-answer'')
      else if code = 403 then (if total_sec \<le> 20 then ''fail'' else ''no-answer'')
      else if code = 410 then (if 0 < connect_sec then ''completed'' else ''busy'')
      else if code = 603 then ''busy''
      else if code = 486 then ''busy''
      else if code = 503 \<or> code = 404 then (if 5 \<le> total_sec then ''invalid-number'' else ''fail'')
      else if code = 408 then ''fail''
      else if code = 500 then ''fail''
      else ''unknown'')"

fun call_status :: "inv_state \<Rightarrow> int \<Rightarrow> int \<Rightarrow> int \<Rightarrow> string" where
  "call_status InvNull code c t = ''initiated''"
| "call_status InvCalling code c t = ''ringing''"
| "call_status InvIncoming code c t = ''incoming''"
| "call_status InvEarly code c t = ''early''"
| "call_status InvConnecting code c t = ''connecting''"
| "call_status InvConfirmed code c t = ''in-progress''"
| "call_status InvDisconnected code c t = disconnect_status code c t"

section \<open>Billing\<close>

text \<open>\<^verbatim>\<open>std::ceil(d / 60.0) * 60\<close>: the quotient of an \<^verbatim>\<open>int\<close> by 60 is never rounded up to an integer in
  double precision.\<close>

definition bill_duration :: "int \<Rightarrow> int" where
  "bill_duration d = - ((- d) div 60) * 60"

text \<open>\<^verbatim>\<open>std::to_string\<close> of the rate 0.005 and of the cost, which is a multiple of 0.005 and prints
  with six decimals.\<close>

definition pad3 :: "nat \<Rightarrow> string" where
  "pad3 n = [digit_char (n div 100 mod 10), digit_char (n div 10 mod 10), digit_char (n mod 10)]"

definition cost_string :: "int \<Rightarrow> string" where
  "cost_string bill =
     (let n = nat (bill * 5) in show_nat (n div 1000) @ ''.'' @ pad3 (n mod 1000) @ ''000'')"

section \<open>Regular expressions\<close>

text \<open>\<^verbatim>\<open>regex_search(url, "key=([^&]+)")\<close>: the group of the leftmost match. \<open>pat\<close> is \<open>key=\<close>.\<close>

fun url_param :: "string \<Rightarrow> string \<Rightarrow> string option" where
  "url_param pat [] = None"
| "url_param pat (c # s) =
     (let rest = drop (length pat) (c # s)
      in if prefix pat (c # s) \<and> rest \<noteq> [] \<and> hd rest \<noteq> CHR ''&''
         then Some (takeWhile (\<lambda>x. x \<noteq> CHR ''&'') rest) else url_param pat s)"

definition param_or_unknown :: "string \<Rightarrow> string \<Rightarrow> string" where
  "param_or_unknown pat url = (case url_param pat url of None \<Rightarrow> ''unknown'' | Some v \<Rightarrow> v)"

text \<open>\<^verbatim>\<open>\+?[1-9]\d{1,14}\<close>, the leftmost match.\<close>

definition phone_at :: "string \<Rightarrow> string option" where
  "phone_at s =
     (let plus = (if s \<noteq> [] \<and> hd s = CHR ''+'' then ''+'' else []); t = drop (length plus) s
      in case t of
           d # ds \<Rightarrow> (if is_digit d \<and> d \<noteq> CHR ''0'' \<and> ds \<noteq> [] \<and> is_digit (hd ds)
                      then Some (plus @ d # take 14 (takeWhile is_digit ds)) else None)
         | [] \<Rightarrow> None)"

fun phone_search :: "string \<Rightarrow> string option" where
  "phone_search [] = None"
| "phone_search (c # s) = (case phone_at (c # s) of Some p \<Rightarrow> Some p | None \<Rightarrow> phone_search s)"

definition phone_or_uri :: "string \<Rightarrow> string" where
  "phone_or_uri uri = (case phone_search uri of None \<Rightarrow> uri | Some p \<Rightarrow> p)"

section \<open>The call record\<close>

record cdr =
  cdr_uuid :: string
  cdr_status :: string
  cdr_duration :: int
  cdr_start :: string
  cdr_end :: string
  cdr_from :: string
  cdr_to :: string
  cdr_agent_id :: string
  cdr_call_id :: string
  cdr_env :: string
  cdr_trunk :: string
  cdr_hangup_source :: string

definition q :: "string \<Rightarrow> string" where
  "q s = DQ # s @ [DQ]"

definition cdr_json :: "cdr \<Rightarrow> string" where
  "cdr_json r =
     (let bill = bill_duration (cdr_duration r)
      in ''{'' @ q ''CallUUID'' @ '': '' @ q (cdr_uuid r) @
         '', '' @ q ''CallStatus'' @ '': '' @ q (cdr_status r) @
         '', '' @ q ''BillDuration'' @ '': '' @ to_string bill @
         '', '' @ q ''BillRate'' @ '': 0.005000'' @
         '', '' @ q ''TotalCost'' @ '': '' @ cost_string bill @
         '', '' @ q ''Direction'' @ '': '' @ q ''outbound'' @
         '', '' @ q ''Duration'' @ '': '' @ to_string (cdr_duration r) @
         '', '' @ q ''StartTime'' @ '': '' @ q (cdr_start r) @
         '', '' @ q ''EndTime'' @ '': '' @ q (cdr_end r) @
         '', '' @ q ''From'' @ '': '' @ q (cdr_from r) @
         '', '' @ q ''To'' @ '': '' @ q (cdr_to r) @
         '', '' @ q ''agent_id'' @ '': '' @ q (cdr_agent_id r) @
         '', '' @ q ''call_id'' @ '': '' @ q (cdr_call_id r) @
         '', '' @ q ''env'' @ '': '' @ q (cdr_env r) @
         '', '' @ q ''trunk_name'' @ '': '' @ q (cdr_trunk r) @
         '', '' @ q ''HangupSource'' @ '': '' @ q (cdr_hangup_source r) @ ''}'')"

section \<open>Facts\<close>

lemma url_param_here:
  assumes "v \<noteq> []" and "CHR ''&'' \<notin> set v" and "rest = [] \<or> hd rest = CHR ''&''" and "pat \<noteq> []"
  shows "url_param pat (pat @ v @ rest) = Some v"
proof -
  obtain c s where cs: "pat @ v @ rest = c # s" using assms(4) by (cases pat) auto
  have "takeWhile (\<lambda>x. x \<noteq> CHR ''&'') (v @ rest) = v"
  proof -
    have "takeWhile (\<lambda>x. x \<noteq> CHR ''&'') rest = []" using assms(3) by (cases rest) auto
    moreover have "takeWhile (\<lambda>x. x \<noteq> CHR ''&'') v = v" using assms(2) by (auto simp: takeWhile_eq_all_conv)
    moreover have "\<forall>x \<in> set v. x \<noteq> CHR ''&''" using assms(2) by auto
    ultimately show ?thesis by (simp add: takeWhile_append2)
  qed
  moreover have "drop (length pat) (c # s) = v @ rest" unfolding cs [symmetric] by simp
  moreover have "prefix pat (c # s)" unfolding cs [symmetric] by simp
  moreover have "hd (v @ rest) \<noteq> CHR ''&''" using assms(1,2) by (cases v) auto
  ultimately show ?thesis using assms(1) unfolding cs by (simp add: Let_def)
qed

lemma url_param_skip:
  "(\<And>i. i < length pre \<Longrightarrow> \<not> prefix pat (drop i (pre @ s))) \<Longrightarrow> url_param pat (pre @ s) = url_param pat s"
proof (induction pre)
  case (Cons c pre)
  have "\<not> prefix pat (c # pre @ s)" using Cons.prems [of 0] by simp
  moreover have "url_param pat (pre @ s) = url_param pat s"
    by (rule Cons.IH) (use Cons.prems [of "Suc _"] in auto)
  ultimately show ?case by (simp add: Let_def)
qed simp

lemma url_param_first:
  assumes "str_find pat (pre @ pat @ v @ rest) = Some (length pre)"
    and "v \<noteq> []" and "CHR ''&'' \<notin> set v" and "rest = [] \<or> hd rest = CHR ''&''" and "pat \<noteq> []"
  shows "url_param pat (pre @ pat @ v @ rest) = Some v"
proof -
  have "url_param pat (pre @ pat @ v @ rest) = url_param pat (pat @ v @ rest)"
    by (rule url_param_skip) (rule str_find_first [OF assms(1)])
  then show ?thesis using url_param_here [OF assms(2-5)] by simp
qed

lemma bill_duration_bounds: "d \<le> bill_duration d" "bill_duration d < d + 60" "60 dvd bill_duration d"
  by (simp_all add: bill_duration_def)

section \<open>Properties\<close>

text \<open>A call that ends with 503 Service Unavailable is never reported \<open>busy\<close>: it gets the status of
  404, \<open>invalid-number\<close> after five seconds and \<open>fail\<close> before.\<close>

lemma service_unavailable_status:
  "disconnect_status 503 connect_sec total_sec = disconnect_status 404 connect_sec total_sec
   \<and> disconnect_status 503 connect_sec total_sec = (if 5 \<le> total_sec then ''invalid-number'' else ''fail'')
   \<and> disconnect_status 503 connect_sec total_sec \<noteq> ''busy''"
  by (simp add: disconnect_status_def)

text \<open>A call is billed for the started minutes: the billed seconds are the smallest multiple of 60
  that is no less than the duration.\<close>

lemma billing_minutes:
  "60 dvd bill_duration d \<and> d \<le> bill_duration d
   \<and> (\<forall>m. 60 dvd m \<and> d \<le> m \<longrightarrow> bill_duration d \<le> m)"
proof -
  have "bill_duration d \<le> m" if m: "60 dvd m" "d \<le> m" for m
  proof (rule ccontr)
    assume "\<not> bill_duration d \<le> m"
    moreover from m(1) obtain b where "m = 60 * b" by (rule dvdE)
    moreover from bill_duration_bounds(3) [of d] obtain a where "bill_duration d = 60 * a" by (rule dvdE)
    ultimately have "m + 60 \<le> bill_duration d" by simp
    with m(2) bill_duration_bounds(2) [of d] show False by simp
  qed
  with bill_duration_bounds show ?thesis by simp
qed

text \<open>The value reported for a parameter of the webhook URL is what follows the leftmost occurrence
  of \<open>name=\<close> up to the next ampersand, even where that occurrence is the tail of a longer
  parameter name.\<close>

lemma param_leftmost:
  assumes "str_find pat (pre @ pat @ v @ rest) = Some (length pre)"
    and "v \<noteq> []" and "CHR ''&'' \<notin> set v" and "rest = [] \<or> hd rest = CHR ''&''" and "pat \<noteq> []"
  shows "param_or_unknown pat (pre @ pat @ v @ rest) = v"
  using url_param_first [OF assms] by (simp add: param_or_unknown_def)

end
