(* ===== verification/Call.thy ===== *)
theory Call
  imports Audio_Port Call_Text
begin

text \<open>
  \<^verbatim>\<open>MyCall\<close> of \<^verbatim>\<open>call.cpp\<close>: the callbacks PJSIP makes on a call, the media set-up, the bridge to a
  human leg and the destructor. Calls live in a heap, since a caller and its human leg point at
  each other; following a pointer to a call that is gone, or a null media port, is undefined
  behaviour and gives \<open>None\<close>. What PJSIP answers (the call information, its media, which of its
  operations throw) is an argument.
\<close>

record media_info =
  m_audio :: bool
  m_active :: bool
  m_get :: bool

record call_info =
  ci_state :: inv_state
  ci_code :: int
  ci_connect_sec :: int
  ci_total_sec :: int
  ci_remoteUri :: string
  ci_localUri :: string

record mycall =
  med_port :: "port option"
  c_sample_rate :: int
  media_connected :: bool
  call_answered :: bool
  c_ws_url :: string
  endpoint_key :: string
  call_recording_id :: string
  c_webhook_url :: string
  string_call_id :: string
  c_agent_id :: string
  c_env :: string
  webhook_call_id :: string
  trunk_name :: string
  hangup_source :: string
  c_start_time :: int
  should_cleanup :: bool
  c_directCall :: bool
  is_bridge_leg :: bool
  bridge_done :: bool
  bridge_peer :: "nat option"
  bridged_leg :: "nat option"

type_synonym call_heap = "nat \<Rightarrow> mycall option"

definition new_call :: "string \<Rightarrow> string \<Rightarrow> string \<Rightarrow> string \<Rightarrow> int \<Rightarrow> int \<Rightarrow> bool \<Rightarrow> mycall" where
  "new_call ws_url call_id webhook_url trunk now rate direct =
     \<lparr>med_port = None, c_sample_rate = rate, media_connected = False, call_answered = False,
      c_ws_url = ws_url, endpoint_key = [], call_recording_id = call_id, c_webhook_url = webhook_url,
      string_call_id = call_id, c_agent_id = [], c_env = [], webhook_call_id = [], trunk_name = trunk,
      hangup_source = ''none'', c_start_time = now, should_cleanup = False, c_directCall = direct,
      is_bridge_leg = False, bridge_done = False, bridge_peer = None, bridged_leg = None\<rparr>"

definition setupAsBridgeLeg :: "nat \<Rightarrow> mycall \<Rightarrow> mycall" where
  "setupAsBridgeLeg peer c = c\<lparr>is_bridge_leg := True, bridge_peer := Some peer\<rparr>"

text \<open>What a call does to the world. \<open>PortOut\<close> links the media port to the call's audio, \<open>PortIn\<close>
  the other way; \<open>DetachCleanup\<close> hands the port to a detached thread that cleans it up and
  deletes it.\<close>

datatype call_effect = CallWs ws_effect | PortOut | PortIn | StopOut | StopIn | Splice nat nat
  | HumanIn | HangupLeg nat | SendWebhook string string string | CountAnswered | CountDown
  | DetachCleanup port | WriteFiles file_writes

section \<open>Setting up the media\<close>

text \<open>How linking goes: \<^verbatim>\<open>createPort\<close>, the first or the second \<^verbatim>\<open>startTransmit\<close> may throw.\<close>

datatype link_result = LinkOk | CreateThrows | OutThrows | InThrows

record media_env =
  me_fs :: file_system
  me_conns :: "nat \<Rightarrow> conn"
  me_stamp :: string
  me_now :: int
  me_link :: link_result

fun link_effects :: "link_result \<Rightarrow> call_effect list" where
  "link_effects LinkOk = [PortOut, PortIn]"
| "link_effects CreateThrows = []"
| "link_effects OutThrows = []"
| "link_effects InThrows = [PortOut]"

definition call_port :: "bool \<Rightarrow> media_env \<Rightarrow> mycall \<Rightarrow> port" where
  "call_port direct E c =
     setCall True (new_port (c_ws_url c) (call_recording_id c) (c_sample_rate c) direct (me_now E))"

fun setup_loop :: "media_env \<Rightarrow> media_info list \<Rightarrow> mycall \<Rightarrow> mycall \<times> call_effect list" where
  "setup_loop E [] c = (c, [])"
| "setup_loop E (m # ms) c =
     (if \<not> m_audio m then setup_loop E ms c
      else if \<not> m_get m then (c, [])
      else
        (case med_port c of
           Some p \<Rightarrow> setup_loop E ms c
         | None \<Rightarrow>
             (let (ok, p, es) = initializeWebSocket (me_fs E) (me_conns E) (me_stamp E) (call_port (c_directCall c) E c);
                  c1 = c\<lparr>med_port := Some p\<rparr>
              in if \<not> ok then (c1, map CallWs es)
                 else if me_link E \<noteq> LinkOk then (c1, map CallWs es @ link_effects (me_link E))
                 else (let (c2, fs) = setup_loop E ms (c1\<lparr>media_connected := True\<rparr>)
                       in (c2, map CallWs es @ link_effects LinkOk @ fs)))))"

definition setupMedia :: "media_env \<Rightarrow> media_info list option \<Rightarrow> mycall \<Rightarrow> mycall \<times> call_effect list" where
  "setupMedia E media c =
     (if \<not> call_answered c then (c, [])
      else (case media of None \<Rightarrow> (c, []) | Some ms \<Rightarrow> setup_loop E ms c))"

text \<open>\<^verbatim>\<open>bindMedia\<close>; the port it makes is not a direct call's.\<close>

definition bindMedia :: "media_env \<Rightarrow> mycall \<Rightarrow> mycall \<times> call_effect list" where
  "bindMedia E c =
     (let link = (\<lambda>c. if me_link E = OutThrows \<or> me_link E = InThrows
                      then (c, [StopIn, StopOut] @ link_effects (me_link E))
                      else (c\<lparr>media_connected := True\<rparr>, [StopIn, StopOut] @ link_effects LinkOk))
      in case med_port c of
           Some p \<Rightarrow> link c
         | None \<Rightarrow>
             (let (ok, p, es) = initializeWebSocket (me_fs E) (me_conns E) (me_stamp E) (call_port False E c);
                  c1 = c\<lparr>med_port := Some p\<rparr>
              in if \<not> ok then (c1, map CallWs es)
                 else if me_link E = CreateThrows then (c1, map CallWs es)
                 else (let (c2, fs) = link c1 in (c2, map CallWs es @ fs))))"

definition call_startRecording :: "int \<Rightarrow> mycall \<Rightarrow> mycall" where
  "call_startRecording now c =
     (case med_port c of None \<Rightarrow> c | Some p \<Rightarrow> c\<lparr>med_port := Some (port_startRecording now p)\<rparr>)"

definition call_stopRecording :: "(string \<Rightarrow> bool) \<Rightarrow> mycall \<Rightarrow> upload_mgr \<Rightarrow> mycall \<times> upload_mgr \<times> file_writes" where
  "call_stopRecording can_open c um =
     (case med_port c of
        None \<Rightarrow> (c, um, [])
      | Some p \<Rightarrow> (let (p', um', files) = port_stopRecording can_open p um in (c\<lparr>med_port := Some p'\<rparr>, um', files)))"

definition onDtmfDigit :: "string \<Rightarrow> mycall \<Rightarrow> ws_effect list" where
  "onDtmfDigit digits c =
     (case med_port c of
        None \<Rightarrow> []
      | Some p \<Rightarrow> if media_connected c \<and> digits \<noteq> [] then port_sendDtmf (hd digits) p else [])"

definition setHangupSource :: "string \<Rightarrow> mycall \<Rightarrow> mycall" where
  "setHangupSource source c = c\<lparr>hangup_source := source\<rparr>"

text \<open>The effects of the port that reach its own call.\<close>

fun apply_source :: "port_effect list \<Rightarrow> mycall \<Rightarrow> mycall" where
  "apply_source [] c = c"
| "apply_source (CallSource s # es) c = apply_source es (setHangupSource s c)"
| "apply_source (e # es) c = apply_source es c"

section \<open>The bridge to a human leg\<close>

fun active_index :: "nat \<Rightarrow> media_info list \<Rightarrow> nat option" where
  "active_index i [] = None"
| "active_index i (m # ms) = (if m_audio m \<and> m_active m then Some i else active_index (Suc i) ms)"

definition getActiveAudioMediaIndex :: "media_info list option \<Rightarrow> nat option" where
  "getActiveAudioMediaIndex media = (case media of None \<Rightarrow> None | Some ms \<Rightarrow> active_index 0 ms)"

definition media_at :: "media_info list option \<Rightarrow> nat \<Rightarrow> bool" where
  "media_at media i = (case media of None \<Rightarrow> False | Some ms \<Rightarrow> i < length ms \<and> m_get (ms ! i))"

definition detachWsMediaForBridge :: "media_info list option \<Rightarrow> mycall \<Rightarrow> mycall \<times> call_effect list" where
  "detachWsMediaForBridge media c =
     (if med_port c = None then (c, [])
      else (c\<lparr>media_connected := False\<rparr>,
            case getActiveAudioMediaIndex media of
              None \<Rightarrow> []
            | Some i \<Rightarrow> if media_at media i then [StopOut] else []))"

definition bridgeWithPeer ::
  "link_result \<Rightarrow> media_info list option \<Rightarrow> media_info list option \<Rightarrow> nat \<Rightarrow> call_heap
     \<Rightarrow> (call_heap \<times> call_effect list) option" where
  "bridgeWithPeer lk hmedia cmedia self H =
     (case H self of
        None \<Rightarrow> None
      | Some h \<Rightarrow>
          if bridge_done h then Some (H, [])
          else
            (case bridge_peer h of
               None \<Rightarrow> Some (H, [])
             | Some peer \<Rightarrow>
                 (case getActiveAudioMediaIndex hmedia of
                    None \<Rightarrow> Some (H, [])
                  | Some hi \<Rightarrow>
                      (case H peer of
                         None \<Rightarrow> None
                       | Some c \<Rightarrow>
                           (case getActiveAudioMediaIndex cmedia of
                              None \<Rightarrow> Some (H, [HangupLeg self])
                            | Some ci \<Rightarrow>
                                if \<not> media_at hmedia hi \<or> \<not> media_at cmedia ci then Some (H, [])
                                else
                                  (let (c1, es) = detachWsMediaForBridge cmedia c
                                   in case lk of
                                        OutThrows \<Rightarrow> Some (H(peer \<mapsto> c1), es)
                                      | InThrows \<Rightarrow> Some (H(peer \<mapsto> c1), es @ [Splice peer self])
                                      | _ \<Rightarrow>
                                          (let c2 = (case med_port c1 of
                                                       None \<Rightarrow> c1
                                                     | Some p \<Rightarrow> c1\<lparr>med_port := Some (discardRecordingSoFar p)\<rparr>)
                                           in Some (H(peer \<mapsto> c2\<lparr>bridged_leg := Some self\<rparr>, self \<mapsto> h\<lparr>bridge_done := True\<rparr>),
                                                    es @ [Splice peer self, Splice self peer]
                                                       @ (if med_port c1 = None then [] else [HumanIn])))))))))"

definition onCallMediaState ::
  "media_env \<Rightarrow> media_info list option \<Rightarrow> media_info list option \<Rightarrow> nat \<Rightarrow> call_heap
     \<Rightarrow> (call_heap \<times> call_effect list) option" where
  "onCallMediaState E media peer_media self H =
     (case H self of
        None \<Rightarrow> None
      | Some c \<Rightarrow>
          if is_bridge_leg c
          then (if bridge_done c then Some (H, []) else bridgeWithPeer (me_link E) media peer_media self H)
          else if \<not> media_connected c
          then (let (c1, es) = setupMedia E media c in Some (H(self \<mapsto> c1), es))
          else
            (case media of
               None \<Rightarrow> Some (H, [])
             | Some ms \<Rightarrow>
                 (case find m_audio ms of
                    None \<Rightarrow> Some (H, [])
                  | Some m \<Rightarrow>
                      if m_get m then (let (c1, es) = bindMedia E c in Some (H(self \<mapsto> c1), es))
                      else Some (H, []))))"

section \<open>The state of the call\<close>

text \<open>The clock and the formatting of times in the local zone.\<close>

record state_env =
  se_now :: int
  se_format :: "int \<Rightarrow> string"
  se_media :: "media_info list option"
  se_menv :: media_env
  se_can_open :: "string \<Rightarrow> bool"

text \<open>The leg dialled to a human: when it goes down the caller is hung up and blamed on the human.\<close>

definition human_leg_down :: "mycall \<Rightarrow> call_heap \<Rightarrow> (call_heap \<times> call_effect list) option" where
  "human_leg_down h H =
     (case bridge_peer h of
        None \<Rightarrow> Some (H, [CountDown])
      | Some peer \<Rightarrow>
          (case H peer of
             None \<Rightarrow> None
           | Some c \<Rightarrow>
               (let c1 = (case med_port c of None \<Rightarrow> c
                          | Some p \<Rightarrow> apply_source (port_setHangupSource ''human'' p) c)
                in Some (H(peer \<mapsto> c1\<lparr>bridged_leg := None\<rparr>), [HangupLeg peer, CountDown]))))"

text \<open>The actions of a call that was answered.\<close>

definition call_confirmed :: "state_env \<Rightarrow> mycall \<Rightarrow> mycall \<times> call_effect list" where
  "call_confirmed S c =
     (let (c1, es) = setupMedia (se_menv S) (se_media S) (c\<lparr>call_answered := True\<rparr>)
      in (call_startRecording (se_now S) c1, CountAnswered # es))"

text \<open>The actions of a call that went down.\<close>

definition hang_bridged :: "mycall \<Rightarrow> call_heap \<Rightarrow> (call_heap \<times> mycall \<times> call_effect list) option" where
  "hang_bridged c H =
     (case bridged_leg c of
        None \<Rightarrow> Some (H, c, [])
      | Some b \<Rightarrow>
          (case H b of
             None \<Rightarrow> None
           | Some h \<Rightarrow> Some (H(b \<mapsto> h\<lparr>bridge_peer := None\<rparr>), c\<lparr>bridged_leg := None\<rparr>, [HangupLeg b])))"

definition release_port :: "mycall \<Rightarrow> mycall \<times> call_effect list" where
  "release_port c =
     (case med_port c of None \<Rightarrow> (c, []) | Some p \<Rightarrow> (c\<lparr>med_port := None\<rparr>, [DetachCleanup p]))"

definition call_down :: "state_env \<Rightarrow> mycall \<Rightarrow> call_heap \<Rightarrow> upload_mgr
    \<Rightarrow> (call_heap \<times> mycall \<times> upload_mgr \<times> call_effect list) option" where
  "call_down S c H um =
     (case hang_bridged (c\<lparr>should_cleanup := True\<rparr>) H of
        None \<Rightarrow> None
      | Some (H1, c1, es) \<Rightarrow>
          (let c2 = (if hangup_source c1 = ''none'' then setHangupSource ''user'' c1 else c1);
               (c3, um', files) = call_stopRecording (se_can_open S) c2 um;
               (c4, fs) = release_port c3
           in Some (H1, c4, um', es @ [WriteFiles files] @ fs @ [CountDown])))"

text \<open>What the URL says about the call, and the record that is sent.\<close>

definition read_url :: "mycall \<Rightarrow> mycall" where
  "read_url c = c\<lparr>c_agent_id := param_or_unknown ''agent_id='' (c_webhook_url c),
     webhook_call_id := param_or_unknown ''call_id='' (c_webhook_url c),
     c_env := param_or_unknown ''env='' (c_webhook_url c)\<rparr>"

definition call_record :: "state_env \<Rightarrow> call_info \<Rightarrow> string \<Rightarrow> mycall \<Rightarrow> cdr" where
  "call_record S ci status c =
     \<lparr>cdr_uuid = string_call_id c, cdr_status = status, cdr_duration = ci_connect_sec ci,
      cdr_start = se_format S (c_start_time c), cdr_end = se_format S (se_now S),
      cdr_from = phone_or_uri (ci_remoteUri ci), cdr_to = phone_or_uri (ci_localUri ci),
      cdr_agent_id = c_agent_id c, cdr_call_id = webhook_call_id c, cdr_env = c_env c,
      cdr_trunk = trunk_name c, cdr_hangup_source = hangup_source c\<rparr>"

definition report_call :: "state_env \<Rightarrow> call_info \<Rightarrow> string \<Rightarrow> mycall \<Rightarrow> mycall \<times> call_effect list" where
  "report_call S ci status c =
     (let c1 = read_url c
      in (c1, if status = ''early'' then []
              else [SendWebhook (string_call_id c1) (c_webhook_url c1) (cdr_json (call_record S ci status c1))]))"

definition status_of :: "call_info \<Rightarrow> string" where
  "status_of ci = call_status (ci_state ci) (ci_code ci) (ci_connect_sec ci) (ci_total_sec ci)"

definition onCallState :: "state_env \<Rightarrow> call_info \<Rightarrow> nat \<Rightarrow> call_heap \<times> upload_mgr
    \<Rightarrow> ((call_heap \<times> upload_mgr) \<times> call_effect list) option" where
  "onCallState S ci self W =
     (let (H, um) = W
      in case H self of
           None \<Rightarrow> None
         | Some c \<Rightarrow>
             if is_bridge_leg c
             then (if ci_state ci = InvDisconnected
                   then map_option (\<lambda>(H', es). ((H', um), es)) (human_leg_down c H)
                   else Some ((H, um), []))
             else if ci_state ci = InvConfirmed
             then (let (c1, es) = call_confirmed S c; (c2, rs) = report_call S ci (status_of ci) c1
                   in Some ((H(self \<mapsto> c2), um), es @ rs))
             else if ci_state ci = InvDisconnected
             then (case call_down S c H um of
                     None \<Rightarrow> None
                   | Some (H1, c1, um', es) \<Rightarrow>
                       (let (c2, rs) = report_call S ci (status_of ci) c1
                        in Some ((H1(self \<mapsto> c2), um'), es @ rs)))
             else (let (c1, rs) = report_call S ci (status_of ci) c in Some ((H(self \<mapsto> c1), um), rs)))"

section \<open>The destructor\<close>

text \<open>The destructor waits three seconds between stopping the recording and cleaning the port up,
  and two more before deleting it. PJSIP still delivers callbacks to the object while it waits, so
  the three parts are steps, each of which reads \<open>med_port\<close> again. The first part says whether the
  others follow. It begins by unlinking the port from every audio medium of the call; \<open>None\<close> says that
  \<^verbatim>\<open>getInfo\<close> throws, and with each medium comes whether the two \<^verbatim>\<open>stopTransmit\<close> succeed.\<close>

fun stop_media :: "(media_info \<times> bool \<times> bool) list \<Rightarrow> call_effect list" where
  "stop_media [] = []"
| "stop_media ((m, in_ok, out_ok) # ms) =
     (if m_audio m \<and> m_get m \<and> in_ok then StopIn # (if out_ok then [StopOut] else []) else []) @ stop_media ms"

definition dtor_begin :: "(string \<Rightarrow> bool) \<Rightarrow> (media_info \<times> bool \<times> bool) list option \<Rightarrow> mycall \<Rightarrow> upload_mgr
    \<Rightarrow> bool \<times> mycall \<times> upload_mgr \<times> call_effect list" where
  "dtor_begin can_open media c um =
     (if med_port c = None then (False, c, um, [])
      else
        (let (c1, um1, files) = call_stopRecording can_open c um
         in (True, c1, um1, (case media of None \<Rightarrow> [] | Some ms \<Rightarrow> stop_media ms) @ [WriteFiles files])))"

definition dtor_cleanup :: "bool \<Rightarrow> mycall \<Rightarrow> (mycall \<times> port_effect list) option" where
  "dtor_cleanup thread_ok c =
     (case med_port c of
        None \<Rightarrow> None
      | Some p \<Rightarrow> (let (p', es) = cleanup_port thread_ok p in Some (c\<lparr>med_port := Some p'\<rparr>, es)))"

definition dtor_delete :: "mycall \<Rightarrow> mycall" where
  "dtor_delete c = c\<lparr>med_port := None\<rparr>"

end
