(* ===== verification/Simulated_Call.thy ===== *)
theory Simulated_Call
  imports Audio_Port Call_Text
begin

text \<open>
  \<^verbatim>\<open>SimulatedCall\<close> of \<^verbatim>\<open>simulated_call.cpp\<close>: a call without SIP, which streams the ringing to the
  WebSocket from a thread of its own. The pump thread, the thread that terminates the call, the
  WebSocket's own thread, the detached threads that reconnect or transfer, and the owner that
  destroys the call run concurrently; every step below is one of them. A step that is not enabled
  leaves the state alone; \<open>None\<close> is undefined behaviour. A detached thread runs on the handler and
  nothing waits for it: when it goes on after the handler was deleted, that is undefined.
\<close>

text \<open>Where the pump thread is: at the head of its loop, past it, after the recording was stopped, or
  ended; it may have claimed the termination for itself, and it may have been joined.\<close>

datatype pump = NoPump | AtLoop | LoopLeft | RecordingStopped | PumpEnded bool | Joined bool

datatype terminator = NotCalled | Joining | Terminated

text \<open>A detached thread: before its body, with what it was started for, or with its body done but not yet
  ended. A reconnect reads the URI when it starts.\<close>

datatype detached = Reconnecting string | ToAgent string | ToHuman string | ToNumber string | Working

record sim =
  s_call_id :: string
  s_ws_url :: string
  s_webhook_url :: string
  s_trunk_name :: string
  s_sample_rate :: int
  s_start_time :: int
  s_handler :: "handler option"
  s_recorder :: "recorder option"
  s_pump :: pump
  s_running :: bool
  s_terminated :: bool
  s_terminator :: terminator
  s_hangup_source :: string
  s_detached :: "detached list"

definition new_sim :: "string \<Rightarrow> string \<Rightarrow> string \<Rightarrow> int \<Rightarrow> string \<Rightarrow> int \<Rightarrow> sim" where
  "new_sim call_id ws_url webhook_url rate trunk now =
     \<lparr>s_call_id = call_id, s_ws_url = ws_url, s_webhook_url = webhook_url, s_trunk_name = trunk,
      s_sample_rate = rate, s_start_time = now, s_handler = None, s_recorder = None, s_pump = NoPump,
      s_running = False, s_terminated = False, s_terminator = NotCalled, s_hangup_source = ''user'',
      s_detached = []\<rparr>"

datatype sim_effect = SimWs ws_effect | SimReport string string string | SimCountDown | SimFiles file_writes

definition isRunning :: "sim \<Rightarrow> bool" where
  "isRunning s \<longleftrightarrow> s_running s \<and> \<not> s_terminated s"

definition sim_record :: "(int \<Rightarrow> string) \<Rightarrow> int \<Rightarrow> string \<Rightarrow> int \<Rightarrow> sim \<Rightarrow> cdr" where
  "sim_record fmt now status duration s =
     \<lparr>cdr_uuid = s_call_id s, cdr_status = status, cdr_duration = duration, cdr_start = fmt (s_start_time s),
      cdr_end = fmt now, cdr_from = ''simulated'', cdr_to = ''simulated'',
      cdr_agent_id = param_or_unknown ''agent_id='' (s_webhook_url s),
      cdr_call_id = param_or_unknown ''call_id='' (s_webhook_url s),
      cdr_env = param_or_unknown ''env='' (s_webhook_url s), cdr_trunk = s_trunk_name s,
      cdr_hangup_source = s_hangup_source s\<rparr>"

definition buildWebhookJson :: "(int \<Rightarrow> string) \<Rightarrow> int \<Rightarrow> string \<Rightarrow> int \<Rightarrow> sim \<Rightarrow> string" where
  "buildWebhookJson fmt now status duration s = cdr_json (sim_record fmt now status duration s)"

text \<open>Sending a report to the call's URL.\<close>

definition sim_report :: "(int \<Rightarrow> string) \<Rightarrow> int \<Rightarrow> string \<Rightarrow> int \<Rightarrow> sim \<Rightarrow> sim_effect" where
  "sim_report fmt now status duration s =
     SimReport (s_call_id s) (s_webhook_url s) (buildWebhookJson fmt now status duration s)"

section \<open>Starting\<close>

definition sim_start ::
  "file_system \<Rightarrow> conn \<Rightarrow> string \<Rightarrow> (int \<Rightarrow> string) \<Rightarrow> int \<Rightarrow> sim \<Rightarrow> bool \<times> sim \<times> sim_effect list" where
  "sim_start fs c stamp fmt now s =
     (let h0 = setDisconnectCallback (new_handler (s_sample_rate s) (s_ws_url s) stamp);
          (ok, h, es) = ws_connect fs c (s_ws_url s) h0
      in if \<not> ok
         then (let s1 = s\<lparr>s_handler := None\<rparr> in (False, s1, map SimWs es @ [sim_report fmt now ''fail'' 0 s1]))
         else
           (let r = snd (startRecording now (new_recorder (s_call_id s) (nat (s_sample_rate s mod 2 ^ 64)) now));
                s1 = s\<lparr>s_handler := Some (startRinging fs h), s_recorder := Some r, s_running := True, s_pump := AtLoop\<rparr>
            in (True, s1, map SimWs es @ [sim_report fmt now ''ringing'' 0 s1])))"

section \<open>The audio pump\<close>

definition sim_frame_size :: "int \<Rightarrow> nat" where
  "sim_frame_size rate = nat (rate div 1000 * 20 * 2)"

definition record_frame :: "byte list \<Rightarrow> bool \<Rightarrow> clocks \<Rightarrow> recorder option \<Rightarrow> recorder option option" where
  "record_frame bs is_agent ts r =
     (case r of
        None \<Rightarrow> Some None
      | Some rc \<Rightarrow> if bs = [] then Some (Some rc) else map_option Some (writeFrame bs is_agent ts rc))"

text \<open>One tick sends a ringing frame while the ringing lasts.\<close>

definition pump_ringing :: "bool \<Rightarrow> nat \<Rightarrow> clocks \<Rightarrow> handler \<Rightarrow> recorder option
    \<Rightarrow> (handler \<times> recorder option \<times> ws_effect list) option" where
  "pump_ringing ec n ts h r =
     (if \<not> ringing_active h then Some (h, r, [])
      else
        (case handler_getRingingFrame n h of
           None \<Rightarrow> None
         | Some (bs, h1) \<Rightarrow>
             (let (h2, es) = sendAudioFrame ec bs h1
              in map_option (\<lambda>r'. (h2, r', es)) (record_frame bs False ts r))))"

lemma getAudioFrame_shrinks:
  "getAudioFrame h = (Some bs, h1, es) \<Longrightarrow> length (audio_queue h1) < length (audio_queue h)"
  by (auto simp: getAudioFrame_def sendPlayedStreamEvent_def resetCheckpointState_def Let_def
      split: list.splits if_splits)

text \<open>Then it records everything that has arrived.\<close>

function drain_rx :: "clocks \<Rightarrow> handler \<Rightarrow> recorder option \<Rightarrow> (handler \<times> recorder option \<times> ws_effect list) option" where
  "drain_rx ts h r =
     (case getAudioFrame h of
        (None, h1, es) \<Rightarrow> Some (h1, r, es)
      | (Some bs, h1, es) \<Rightarrow>
          (case record_frame bs True ts r of
             None \<Rightarrow> None
           | Some r1 \<Rightarrow> map_option (\<lambda>(h2, r2, fs). (h2, r2, es @ fs)) (drain_rx ts h1 r1)))"
  by auto

termination
  by (relation "measure (\<lambda>(ts, h, r). length (audio_queue h))")
    (auto dest: getAudioFrame_shrinks [OF sym])

declare drain_rx.simps [simp del]

definition pump_tick :: "bool \<Rightarrow> clocks \<Rightarrow> sim \<Rightarrow> (sim \<times> sim_effect list) option" where
  "pump_tick ec ts s =
     (case s_handler s of
        None \<Rightarrow> Some (s, [])
      | Some h \<Rightarrow>
          (case pump_ringing ec (sim_frame_size (s_sample_rate s)) ts h (s_recorder s) of
             None \<Rightarrow> None
           | Some (h1, r1, es) \<Rightarrow>
               (case drain_rx ts h1 r1 of
                  None \<Rightarrow> None
                | Some (h2, r2, fs) \<Rightarrow>
                    Some (s\<lparr>s_handler := Some h2, s_recorder := r2\<rparr>, map SimWs (es @ fs)))))"

text \<open>The head of the loop: leave it, time out after sixty seconds, or tick.\<close>

definition pump_step :: "bool \<Rightarrow> int \<Rightarrow> clocks \<Rightarrow> sim \<Rightarrow> (sim \<times> sim_effect list) option" where
  "pump_step ec elapsed ts s =
     (if s_pump s \<noteq> AtLoop then Some (s, [])
      else if \<not> s_running s then Some (s\<lparr>s_pump := LoopLeft\<rparr>, [])
      else if 60 \<le> elapsed
      then Some (s\<lparr>s_hangup_source := ''timeout'', s_running := False, s_pump := LoopLeft\<rparr>, [])
      else pump_tick ec ts s)"

definition pump_stop_recording :: "(string \<Rightarrow> bool) \<Rightarrow> sim \<times> upload_mgr \<Rightarrow> (sim \<times> upload_mgr) \<times> sim_effect list" where
  "pump_stop_recording can_open W =
     (let (s, um) = W
      in if s_pump s \<noteq> LoopLeft then (W, [])
         else (case s_recorder s of
                 None \<Rightarrow> ((s\<lparr>s_pump := RecordingStopped\<rparr>, um), [])
               | Some r \<Rightarrow>
                   (let (r', um', files) = stopRecording can_open r um
                    in ((s\<lparr>s_pump := RecordingStopped, s_recorder := Some r'\<rparr>, um'), [SimFiles files]))))"

text \<open>Closing the WebSocket, the last report and the counter, on whichever thread got there first.\<close>

definition sim_close :: "(int \<Rightarrow> string) \<Rightarrow> int \<Rightarrow> sim \<Rightarrow> sim \<times> sim_effect list" where
  "sim_close fmt now s =
     (let es = (case s_handler s of None \<Rightarrow> [] | Some h \<Rightarrow> map SimWs (snd (ws_disconnect h)));
          s1 = s\<lparr>s_handler := None\<rparr>
      in (s1, es @ [sim_report fmt now ''completed'' (now - s_start_time s1) s1, SimCountDown]))"

definition pump_finish :: "(int \<Rightarrow> string) \<Rightarrow> int \<Rightarrow> sim \<Rightarrow> sim \<times> sim_effect list" where
  "pump_finish fmt now s =
     (if s_pump s \<noteq> RecordingStopped then (s, [])
      else if s_terminated s then (s\<lparr>s_pump := PumpEnded False\<rparr>, [])
      else sim_close fmt now (s\<lparr>s_terminated := True, s_pump := PumpEnded True\<rparr>))"

section \<open>Termination\<close>

definition terminate_begin :: "sim \<Rightarrow> sim" where
  "terminate_begin s =
     (if s_terminated s then s
      else s\<lparr>s_terminated := True, s_running := False, s_terminator := Joining\<rparr>)"

text \<open>The join returns when the pump thread has ended; without a thread it returns at once.\<close>

fun join_pump :: "pump \<Rightarrow> pump option" where
  "join_pump NoPump = Some NoPump"
| "join_pump (PumpEnded own) = Some (Joined own)"
| "join_pump p = None"

definition terminate_finish :: "(int \<Rightarrow> string) \<Rightarrow> int \<Rightarrow> sim \<Rightarrow> sim \<times> sim_effect list" where
  "terminate_finish fmt now s =
     (if s_terminator s \<noteq> Joining then (s, [])
      else (case join_pump (s_pump s) of
              None \<Rightarrow> (s, [])
            | Some p \<Rightarrow> sim_close fmt now (s\<lparr>s_pump := p, s_terminator := Terminated\<rparr>)))"

text \<open>The destructor: it terminates the call, which may wait for the pump, and then destroys the members;
  a thread that is still joinable aborts the process.\<close>

fun joinable :: "pump \<Rightarrow> bool" where
  "joinable NoPump = False"
| "joinable (Joined own) = False"
| "joinable p = True"

text \<open>What is left of the pump once \<open>running\<close> is false, and \<open>terminate()\<close> as a whole: it waits for that.\<close>

definition pump_drains :: "(string \<Rightarrow> bool) \<Rightarrow> (int \<Rightarrow> string) \<Rightarrow> int \<Rightarrow> sim \<times> upload_mgr \<Rightarrow> (sim \<times> upload_mgr) \<times> sim_effect list" where
  "pump_drains can_open fmt now W =
     (let (s, um) = W;
          s1 = (if s_pump s = AtLoop then s\<lparr>s_pump := LoopLeft\<rparr> else s);
          ((s2, um2), es) = pump_stop_recording can_open (s1, um);
          (s3, fs) = pump_finish fmt now s2
      in ((s3, um2), es @ fs))"

definition terminate_sim :: "(string \<Rightarrow> bool) \<Rightarrow> (int \<Rightarrow> string) \<Rightarrow> int \<Rightarrow> sim \<times> upload_mgr \<Rightarrow> (sim \<times> upload_mgr) \<times> sim_effect list" where
  "terminate_sim can_open fmt now W =
     (let (s, um) = W
      in if s_terminated s then (W, [])
         else
           (let ((s1, um1), es) = pump_drains can_open fmt now (terminate_begin s, um);
                (s2, fs) = terminate_finish fmt now s1
            in ((s2, um1), es @ fs)))"

datatype destruction = Aborts | Destroyed upload_mgr "sim_effect list"

definition destroy_sim :: "(string \<Rightarrow> bool) \<Rightarrow> (int \<Rightarrow> string) \<Rightarrow> int \<Rightarrow> sim \<times> upload_mgr \<Rightarrow> destruction" where
  "destroy_sim can_open fmt now W =
     (let ((s1, um1), es) = terminate_sim can_open fmt now W
      in if joinable (s_pump s1) then Aborts else Destroyed um1 es)"

section \<open>The threads of the WebSocket\<close>

text \<open>The detached threads that the handler's effects start.\<close>

fun spawned :: "handler \<Rightarrow> ws_effect list \<Rightarrow> detached list" where
  "spawned h [] = []"
| "spawned h (SpawnReconnect # es) = Reconnecting (reconnect_uri (ws_uri h)) # spawned h es"
| "spawned h (SpawnAgentTransfer i # es) = ToAgent i # spawned h es"
| "spawned h (SpawnHumanTransfer i # es) = ToHuman i # spawned h es"
| "spawned h (SpawnNumberTransfer n # es) = ToNumber n # spawned h es"
| "spawned h (e # es) = spawned h es"

record thread_env =
  te_env :: env
  te_fs :: file_system
  te_conn :: conn
  te_stamp :: string

fun thread_body :: "thread_env \<Rightarrow> detached \<Rightarrow> handler \<Rightarrow> handler \<times> ws_effect list" where
  "thread_body D (Reconnecting uri) h = attemptReconnect (te_fs D) (te_conn D) (te_stamp D) ''none'' uri h"
| "thread_body D (ToAgent i) h = performAgentTransfer (te_fs D) (te_conn D) (te_stamp D) i h"
| "thread_body D (ToHuman i) h = performHumanTransfer (te_env D) (te_fs D) (te_conn D) (te_stamp D) i h"
| "thread_body D (ToNumber n) h = performHumanNumberTransfer (te_fs D) n h"
| "thread_body D Working h = (h, [])"

text \<open>What the handler did: its callback, which is the call's own, stops the pump.\<close>

definition handler_did :: "handler \<times> ws_effect list \<Rightarrow> sim \<Rightarrow> sim \<times> sim_effect list" where
  "handler_did d s =
     (let (h, es) = d
      in (s\<lparr>s_handler := Some h, s_running := (s_running s \<and> InvokeDisconnect \<notin> set es),
             s_detached := s_detached s @ spawned h es\<rparr>, map SimWs es))"

text \<open>The WebSocket's thread is joined before the handler is deleted; the handler has no media port.\<close>

definition sim_message :: "'j ws_libs \<Rightarrow> bool \<Rightarrow> string \<Rightarrow> sim \<Rightarrow> (sim \<times> sim_effect list) option" where
  "sim_message L is_text msg s =
     (case s_handler s of
        None \<Rightarrow> Some (s, [])
      | Some h \<Rightarrow> map_option (\<lambda>d. handler_did d s) (message_handler L is_text msg ''none'' h))"

definition sim_closed :: "bool \<Rightarrow> sim \<Rightarrow> sim \<times> sim_effect list" where
  "sim_closed con_ok s =
     (case s_handler s of None \<Rightarrow> (s, []) | Some h \<Rightarrow> handler_did (close_handler con_ok ''none'' h) s)"

definition detached_runs :: "nat \<Rightarrow> thread_env \<Rightarrow> sim \<Rightarrow> (sim \<times> sim_effect list) option" where
  "detached_runs i D s =
     (if length (s_detached s) \<le> i \<or> s_detached s ! i = Working then Some (s, [])
      else (case s_handler s of
              None \<Rightarrow> None
            | Some h \<Rightarrow>
                Some (handler_did (thread_body D (s_detached s ! i) h) (s\<lparr>s_detached := (s_detached s)[i := Working]\<rparr>))))"

definition detached_ends :: "nat \<Rightarrow> sim \<Rightarrow> (sim \<times> sim_effect list) option" where
  "detached_ends i s =
     (if length (s_detached s) \<le> i \<or> s_detached s ! i \<noteq> Working then Some (s, [])
      else (case s_handler s of
              None \<Rightarrow> None
            | Some h \<Rightarrow> Some (s\<lparr>s_detached := take i (s_detached s) @ drop (Suc i) (s_detached s)\<rparr>, [])))"

section \<open>Interleavings\<close>

datatype sim_event = PumpStep bool int clocks | StopRecording "string \<Rightarrow> bool" | PumpFinish int
  | TerminateBegin | TerminateFinish int | WsMessage bool string | WsClosed bool
  | DetachedRuns nat thread_env | DetachedEnds nat

definition sim_step :: "'j ws_libs \<Rightarrow> (int \<Rightarrow> string) \<Rightarrow> sim_event \<Rightarrow> sim \<times> upload_mgr
    \<Rightarrow> ((sim \<times> upload_mgr) \<times> sim_effect list) option" where
  "sim_step L fmt e W =
     (let (s, um) = W; keep = map_option (\<lambda>(s', es). ((s', um), es))
      in case e of
           PumpStep ec elapsed ts \<Rightarrow> keep (pump_step ec elapsed ts s)
         | StopRecording can_open \<Rightarrow> Some (pump_stop_recording can_open W)
         | PumpFinish now \<Rightarrow> keep (Some (pump_finish fmt now s))
         | TerminateBegin \<Rightarrow> keep (Some (terminate_begin s, []))
         | TerminateFinish now \<Rightarrow> keep (Some (terminate_finish fmt now s))
         | WsMessage is_text msg \<Rightarrow> keep (sim_message L is_text msg s)
         | WsClosed con_ok \<Rightarrow> keep (Some (sim_closed con_ok s))
         | DetachedRuns i D \<Rightarrow> keep (detached_runs i D s)
         | DetachedEnds i \<Rightarrow> keep (detached_ends i s))"

fun sim_run :: "'j ws_libs \<Rightarrow> (int \<Rightarrow> string) \<Rightarrow> sim_event list \<Rightarrow> sim \<times> upload_mgr
    \<Rightarrow> ((sim \<times> upload_mgr) \<times> sim_effect list) option" where
  "sim_run L fmt [] W = Some (W, [])"
| "sim_run L fmt (e # evs) W =
     (case sim_step L fmt e W of
        None \<Rightarrow> None
      | Some (W1, es) \<Rightarrow> map_option (\<lambda>(W2, fs). (W2, es @ fs)) (sim_run L fmt evs W1))"

section \<open>The pump stays within its memory\<close>

definition handler_wf :: "int \<Rightarrow> handler \<Rightarrow> bool" where
  "handler_wf rate h \<longleftrightarrow> queue_wf h \<and> ringing_ok h \<and> bytes_per_frame h = 2 * (nat rate * 20 div 1000)"

definition sim_wf :: "sim \<Rightarrow> bool" where
  "sim_wf s \<longleftrightarrow> s_sample_rate s \<in> {8000, 16000}
     \<and> (case s_handler s of None \<Rightarrow> True | Some h \<Rightarrow> handler_wf (s_sample_rate s) h)
     \<and> (case s_recorder s of None \<Rightarrow> True | Some r \<Rightarrow> rec_wf (nat (s_sample_rate s)) r)"

lemma enqueueAudio_ringing: "ringing_provider (enqueueAudio pcm h) = ringing_provider h"
  by (simp add: enqueueAudio_def Let_def split_beta)

lemma handler_wf_session [simp]:
  "handler_wf rate (h\<lparr>connected := b\<rparr>) = handler_wf rate h" "handler_wf rate (h\<lparr>ws_uri := u\<rparr>) = handler_wf rate h"
  "handler_wf rate (h\<lparr>real_time_audio := b\<rparr>) = handler_wf rate h"
  "handler_wf rate (h\<lparr>sequence_number := n\<rparr>) = handler_wf rate h" "handler_wf rate (h\<lparr>stream_id := u\<rparr>) = handler_wf rate h"
  "handler_wf rate (h\<lparr>checkpoint_received := b\<rparr>) = handler_wf rate h"
  "handler_wf rate (h\<lparr>hangup_received := b\<rparr>) = handler_wf rate h"
  "handler_wf rate (h\<lparr>reconnect_attempts := i\<rparr>) = handler_wf rate h"
  "handler_wf rate (h\<lparr>pending_stream_name := u\<rparr>) = handler_wf rate h"
  "handler_wf rate (h\<lparr>pending_stream_id := u\<rparr>) = handler_wf rate h"
  "handler_wf rate (h\<lparr>current_agent_id := u\<rparr>) = handler_wf rate h"
  "handler_wf rate (h\<lparr>agent_transfer_in_progress := b\<rparr>) = handler_wf rate h"
  "handler_wf rate (h\<lparr>ringing_active := b\<rparr>) = handler_wf rate h"
  by (simp_all add: handler_wf_def queue_wf_def ringing_ok_def)

lemma handler_wf_ops:
  assumes "handler_wf rate h"
  shows "handler_wf rate (startRinging fs h)" "handler_wf rate (stopRinging h)" "handler_wf rate (clearAudioQueue h)"
    "handler_wf rate (enqueueAudio pcm h)" "handler_wf rate (fst (close_ws reason h))"
    "handler_wf rate (fst (snd (ws_connect fs c uri h)))"
proof -
  show ring: "handler_wf rate (startRinging fs h)" for fs
    using assms startRinging_ok [of h fs] by (auto simp: handler_wf_def queue_wf_def frame_simps)
  show "handler_wf rate (stopRinging h)" using assms by (simp add: stopRinging_def)
  show "handler_wf rate (clearAudioQueue h)"
    using assms clearAudioQueue_wf [of h] by (simp add: handler_wf_def frame_simps)
      (simp add: clearAudioQueue_def resetCheckpointState_def ringing_ok_def)
  show "handler_wf rate (enqueueAudio pcm h)"
    using assms enqueueAudio_wf [of h pcm] by (simp add: handler_wf_def ringing_ok_def enqueueAudio_ringing frame_simps)
  show "handler_wf rate (fst (close_ws reason h))" using assms by (simp add: close_ws_def)
  show "handler_wf rate (fst (snd (ws_connect fs c uri h)))"
    using assms ring by (auto simp: ws_connect_def poll_loop_eq open_handler_eq Let_def split: conn.splits)
qed

text \<open>Messages, closes and the detached threads keep the handler in order.\<close>

lemma message_handler_wf:
  assumes "handler_wf rate h" and "message_handler L is_text msg src h = Some (h', es)"
  shows "handler_wf rate h'"
proof -
  have d: "handler_wf rate h'" if "dispatch L j ev src h = Some (h', es)" for j ev
    using that assms(1)
    by (auto simp: dispatch_def on_playAudio_def on_hangup_def on_checkpoint_def on_agentTransfer_def on_humanTransfer_def
        stop_ringing_on_audio_def handler_wf_ops Let_def split: if_splits option.splits)
  with assms show ?thesis by (auto simp: message_handler_def split: if_splits option.splits)
qed

lemma close_handler_wf: "handler_wf rate h \<Longrightarrow> handler_wf rate (fst (close_handler con_ok src h))"
  by (simp add: close_handler_def Let_def)

lemma ws_connect_wf: "handler_wf rate h \<Longrightarrow> ws_connect fs c uri h = (ok, h', es) \<Longrightarrow> handler_wf rate h'"
  using handler_wf_ops(6) [of rate h fs c uri] by simp

lemma attemptReconnect_wf:
  assumes "handler_wf rate h"
  shows "handler_wf rate (fst (attemptReconnect fs c stamp src uri h))"
  using assms ws_connect_wf [of rate "h\<lparr>sequence_number := 0, stream_id := ''MZ'' @ stamp, ws_uri := uri\<rparr>" fs c uri]
  by (auto simp: attemptReconnect_def Let_def split: prod.splits)

lemma thread_body_wf:
  assumes "handler_wf rate h"
  shows "handler_wf rate (fst (thread_body D t h))"
proof (cases t)
  case (Reconnecting uri)
  with attemptReconnect_wf [OF assms] show ?thesis by simp
next
  case (ToAgent i)
  with assms show ?thesis
    by (auto simp: performAgentTransfer_def abort_transfer_def close_ws_def handler_wf_ops Let_def split: option.splits prod.splits
        dest!: ws_connect_wf [of rate, rotated])
next
  case (ToHuman i)
  with assms show ?thesis
    by (auto simp: performHumanTransfer_def abort_transfer_def close_ws_def handler_wf_ops Let_def split: option.splits prod.splits
        dest!: ws_connect_wf [of rate, rotated])
next
  case (ToNumber n)
  with assms show ?thesis
    by (auto simp: performHumanNumberTransfer_def close_ws_def handler_wf_ops Let_def)
next
  case Working
  with assms show ?thesis by simp
qed

lemma sim_wf_control [simp]:
  "sim_wf (s\<lparr>s_pump := p\<rparr>) = sim_wf s" "sim_wf (s\<lparr>s_running := b\<rparr>) = sim_wf s"
  "sim_wf (s\<lparr>s_terminated := b\<rparr>) = sim_wf s" "sim_wf (s\<lparr>s_terminator := t\<rparr>) = sim_wf s"
  "sim_wf (s\<lparr>s_hangup_source := u\<rparr>) = sim_wf s" "sim_wf (s\<lparr>s_detached := d\<rparr>) = sim_wf s" "sim_wf s \<Longrightarrow> sim_wf (s\<lparr>s_handler := None\<rparr>)"
  "sim_wf (s\<lparr>s_pump := p, s_recorder := r\<rparr>) = sim_wf (s\<lparr>s_recorder := r\<rparr>)"
  by (auto simp: sim_wf_def split: option.splits)

lemma record_frame_wf:
  assumes "case r of None \<Rightarrow> True | Some rc \<Rightarrow> rec_wf n rc" and "even (length bs)" and "length bs \<le> 2 * (n * 20 div 1000)"
  shows "\<exists>r'. record_frame bs ag ts r = Some r' \<and> (case r' of None \<Rightarrow> True | Some rc \<Rightarrow> rec_wf n rc)"
  using writeFrame_wf [of n "the r" bs ag ts] assms
  by (cases r) (auto simp: record_frame_def)

lemma getAudioFrame_handler_wf:
  assumes "handler_wf rate h" and "getAudioFrame h = (fo, h1, es)"
  shows "handler_wf rate h1" and "\<And>bs. fo = Some bs \<Longrightarrow> length bs = 2 * (nat rate * 20 div 1000)"
proof -
  have h1: "h1 = fst (snd (getAudioFrame h))" using assms(2) by simp
  show "handler_wf rate h1" unfolding h1 using assms(1)
    by (auto simp: handler_wf_def ringing_ok_def frame_simps intro: wf_intros)
  show "length bs = 2 * (nat rate * 20 div 1000)" if "fo = Some bs" for bs
    using assms that by (auto simp: handler_wf_def queue_wf_def getAudioFrame_def Let_def split: list.splits if_splits prod.splits)
qed

lemma drain_rx_wf:
  assumes "handler_wf rate h" and "case r of None \<Rightarrow> True | Some rc \<Rightarrow> rec_wf (nat rate) rc"
  shows "\<exists>h' r' es. drain_rx ts h r = Some (h', r', es) \<and> handler_wf rate h'
    \<and> (case r' of None \<Rightarrow> True | Some rc \<Rightarrow> rec_wf (nat rate) rc)"
  using assms
proof (induction ts h r rule: drain_rx.induct)
  case (1 ts h r)
  obtain fo h1 es where g: "getAudioFrame h = (fo, h1, es)" by (cases "getAudioFrame h")
  note w = getAudioFrame_handler_wf [OF 1(2) g]
  show ?case
  proof (cases fo)
    case None
    with g w(1) 1(3) show ?thesis by (simp add: drain_rx.simps [of ts h])
  next
    case (Some bs)
    have "even (length bs)" "length bs \<le> 2 * (nat rate * 20 div 1000)" using w(2) [OF Some] by simp_all
    from record_frame_wf [OF 1(3) this, of True ts] obtain r1 where
      r1: "record_frame bs True ts r = Some r1" "case r1 of None \<Rightarrow> True | Some rc \<Rightarrow> rec_wf (nat rate) rc" by blast
    from 1(1) [OF g [symmetric] Some refl r1(1) w(1) r1(2)] g Some r1(1) show ?thesis
      by (auto simp: drain_rx.simps [of ts h])
  qed
qed

lemma pump_ringing_wf:
  assumes "handler_wf rate h" and "case r of None \<Rightarrow> True | Some rc \<Rightarrow> rec_wf (nat rate) rc"
    and "even n" and "n \<le> 2 * (nat rate * 20 div 1000)"
  shows "\<exists>h' r' es. pump_ringing ec n ts h r = Some (h', r', es) \<and> handler_wf rate h'
    \<and> (case r' of None \<Rightarrow> True | Some rc \<Rightarrow> rec_wf (nat rate) rc)"
proof (cases "ringing_active h")
  case False
  with assms show ?thesis by (simp add: pump_ringing_def)
next
  case True
  obtain bs rg where g: "getRingingFrame n (ringing_provider h) = Some (bs, rg)" and rg: "ring_wf rg"
    using handler_getRingingFrame_ok [of h n] assms(1)
    by (auto simp: handler_wf_def handler_getRingingFrame_def ringing_ok_def split: option.splits)
  have "length bs = n" using getRingingFrame_length [OF _ g] assms(1,3) by (auto simp: handler_wf_def ringing_ok_def)
  with record_frame_wf [OF assms(2), of bs False ts] assms(3,4) obtain r1 where
    r1: "record_frame bs False ts r = Some r1" "case r1 of None \<Rightarrow> True | Some rc \<Rightarrow> rec_wf (nat rate) rc" by auto
  let ?h1 = "h\<lparr>ringing_provider := rg\<rparr>"
  have "handler_wf rate (fst (sendAudioFrame ec bs ?h1))"
    using assms(1) rg by (simp add: handler_wf_def queue_wf_def ringing_ok_def sendAudioFrame_def Let_def)
  with True g r1 show ?thesis by (simp add: pump_ringing_def handler_getRingingFrame_def split_beta)
qed

text \<open>A tick changes the handler and the recorder only.\<close>

lemma pump_tick_wf:
  assumes "sim_wf s"
  shows "\<exists>h r es. pump_tick ec ts s = Some (s\<lparr>s_handler := h, s_recorder := r\<rparr>, map SimWs es)
    \<and> sim_wf (s\<lparr>s_handler := h, s_recorder := r\<rparr>) \<and> (h = None \<longleftrightarrow> s_handler s = None)"
proof (cases "s_handler s")
  case None
  have id: "s\<lparr>s_handler := s_handler s, s_recorder := s_recorder s\<rparr> = s" by simp
  have "pump_tick ec ts s = Some (s, map SimWs [])" using None by (simp add: pump_tick_def)
  with assms show ?thesis using id by metis
next
  case (Some h)
  let ?rate = "s_sample_rate s"
  have w: "handler_wf ?rate h" "case s_recorder s of None \<Rightarrow> True | Some rc \<Rightarrow> rec_wf (nat ?rate) rc"
    "even (sim_frame_size ?rate)" "sim_frame_size ?rate \<le> 2 * (nat ?rate * 20 div 1000)"
    using assms Some by (auto simp: sim_wf_def sim_frame_size_def)
  from pump_ringing_wf [OF w, of ec ts] obtain h1 r1 es where
    1: "pump_ringing ec (sim_frame_size ?rate) ts h (s_recorder s) = Some (h1, r1, es)" "handler_wf ?rate h1"
      "case r1 of None \<Rightarrow> True | Some rc \<Rightarrow> rec_wf (nat ?rate) rc" by blast
  from drain_rx_wf [OF 1(2,3), of ts] obtain h2 r2 fs where
    2: "drain_rx ts h1 r1 = Some (h2, r2, fs)" "handler_wf ?rate h2"
      "case r2 of None \<Rightarrow> True | Some rc \<Rightarrow> rec_wf (nat ?rate) rc" by blast
  from Some 1(1) 2 assms show ?thesis
    by (intro exI [of _ "Some h2"] exI [of _ r2] exI [of _ "es @ fs"])
      (auto simp: pump_tick_def sim_wf_def split: option.splits)
qed

section \<open>Who ends the call\<close>

fun sim_accounts :: "sim_effect \<Rightarrow> bool" where
  "sim_accounts (SimReport _ _ _) = True"
| "sim_accounts SimCountDown = True"
| "sim_accounts _ = False"

definition sim_accounting :: "sim_effect list \<Rightarrow> sim_effect list" where
  "sim_accounting es = filter sim_accounts es"

lemma sim_accounting_simps [simp]:
  "sim_accounting [] = []" "sim_accounting (e # es) = (if sim_accounts e then e # sim_accounting es else sim_accounting es)"
  "sim_accounting (es @ fs) = sim_accounting es @ sim_accounting fs" "sim_accounting (map SimWs ws) = []"
  by (simp_all add: sim_accounting_def)

text \<open>The last report and the count, for a call and its URL.\<close>

definition ends_call :: "string \<Rightarrow> string \<Rightarrow> sim_effect list \<Rightarrow> bool" where
  "ends_call uid url es \<longleftrightarrow> (\<exists>r. cdr_status r = ''completed''
     \<and> sim_accounting es = [SimReport uid url (cdr_json r), SimCountDown])"

definition sim_ended :: "sim \<Rightarrow> bool" where
  "sim_ended s \<longleftrightarrow> s_terminator s = Terminated \<or> s_pump s = PumpEnded True"

text \<open>Whoever set the termination flag first owns the ending; only the terminating thread joins.\<close>

definition sim_ctl :: "sim \<Rightarrow> bool" where
  "sim_ctl s \<longleftrightarrow> s_pump s \<noteq> NoPump \<and> s_pump s \<noteq> Joined True
     \<and> (s_terminated s \<longleftrightarrow> s_terminator s \<noteq> NotCalled \<or> s_pump s = PumpEnded True)
     \<and> (s_pump s = PumpEnded True \<longrightarrow> s_terminator s = NotCalled) \<and> (s_pump s = PumpEnded False \<longrightarrow> s_terminated s)
     \<and> (s_terminator s = Terminated \<longleftrightarrow> s_pump s = Joined False)"

lemma sim_close_fields:
  "sim_close fmt now s = (s', es) \<Longrightarrow> s' = s\<lparr>s_handler := None\<rparr> \<and> ends_call (s_call_id s) (s_webhook_url s) es"
proof -
  assume c: "sim_close fmt now s = (s', es)"
  let ?s1 = "s\<lparr>s_handler := None\<rparr>"
  let ?r = "sim_record fmt now ''completed'' (now - s_start_time ?s1) ?s1"
  have "cdr_status ?r = ''completed''" by (simp add: sim_record_def)
  moreover have "sim_accounting es = [SimReport (s_call_id s) (s_webhook_url s) (cdr_json ?r), SimCountDown]"
    using c by (auto simp: sim_close_def sim_report_def buildWebhookJson_def Let_def split: option.splits)
  ultimately show ?thesis using c by (auto simp: sim_close_def ends_call_def Let_def)
qed

text \<open>One step: it is defined, keeps the control invariant, and ends the call at most once.\<close>

definition sim_good :: "string \<Rightarrow> string \<Rightarrow> sim \<Rightarrow> bool" where
  "sim_good uid url s \<longleftrightarrow> sim_wf s \<and> sim_ctl s \<and> s_call_id s = uid \<and> s_webhook_url s = url
     \<and> (s_handler s = None \<longleftrightarrow> sim_ended s)"

definition step_accounts :: "string \<Rightarrow> string \<Rightarrow> sim \<Rightarrow> sim \<Rightarrow> sim_effect list \<Rightarrow> bool" where
  "step_accounts uid url s s' es \<longleftrightarrow> (sim_ended s \<longrightarrow> sim_ended s')
     \<and> (if sim_ended s' \<and> \<not> sim_ended s then ends_call uid url es else sim_accounting es = [])"

lemmas sim_state_defs = sim_good_def step_accounts_def sim_ended_def sim_ctl_def

lemma sim_quiet_step:
  assumes "sim_good uid url s" and "sim_accounting es = []" and "sim_wf s'" and "sim_ctl s'"
    and "s_call_id s' = s_call_id s" and "s_webhook_url s' = s_webhook_url s" and "sim_ended s' = sim_ended s"
    and "s_handler s' = None \<longleftrightarrow> s_handler s = None"
  shows "sim_good uid url s' \<and> step_accounts uid url s s' es"
  using assms by (simp add: sim_good_def step_accounts_def)

lemma pump_step_good:
  assumes "sim_good uid url s"
  shows "\<exists>s' es. pump_step ec elapsed ts s = Some (s', es) \<and> sim_good uid url s' \<and> step_accounts uid url s s' es"
proof (cases "s_pump s = AtLoop \<and> s_running s \<and> elapsed < 60")
  case True
  have "sim_wf s" using assms by (simp add: sim_good_def)
  from pump_tick_wf [OF this, of ec ts] obtain h r es where
    "pump_tick ec ts s = Some (s\<lparr>s_handler := h, s_recorder := r\<rparr>, map SimWs es)" "sim_wf (s\<lparr>s_handler := h, s_recorder := r\<rparr>)"
    "h = None \<longleftrightarrow> s_handler s = None" by metis
  with True assms show ?thesis by (simp add: pump_step_def sim_good_def step_accounts_def sim_ended_def sim_ctl_def)
next
  case False
  with assms show ?thesis
    by (auto simp: pump_step_def sim_state_defs)
qed

lemma pump_stop_recording_good:
  assumes "sim_good uid url s"
  shows "\<exists>s' um' es. pump_stop_recording can_open (s, um) = ((s', um'), es) \<and> sim_good uid url s' \<and> step_accounts uid url s s' es"
proof (cases "s_pump s = LoopLeft")
  case False
  with assms show ?thesis by (simp add: pump_stop_recording_def sim_good_def step_accounts_def)
next
  case True
  show ?thesis
  proof (cases "s_recorder s")
    case None
    with True assms show ?thesis by (auto simp: pump_stop_recording_def sim_state_defs)
  next
    case (Some r)
    obtain r' um' files where st: "stopRecording can_open r um = (r', um', files)" by (cases "stopRecording can_open r um")
    have "rec_wf (nat (s_sample_rate s)) r'"
      using stopRecording_wf [of "nat (s_sample_rate s)" r can_open um] st assms Some by (simp add: sim_good_def sim_wf_def)
    with assms have "sim_wf (s\<lparr>s_recorder := Some r'\<rparr>)" by (auto simp: sim_good_def sim_wf_def split: option.splits)
    with True Some st assms show ?thesis by (auto simp: pump_stop_recording_def sim_state_defs)
  qed
qed

lemma pump_finish_good:
  assumes "sim_good uid url s" and "pump_finish fmt now s = (s', es)"
  shows "sim_good uid url s' \<and> step_accounts uid url s s' es"
proof (cases "s_pump s = RecordingStopped \<and> \<not> s_terminated s")
  case True
  with assms(2) have "sim_close fmt now (s\<lparr>s_terminated := True, s_pump := PumpEnded True\<rparr>) = (s', es)"
    by (simp add: pump_finish_def)
  from sim_close_fields [OF this] True assms(1) show ?thesis by (auto simp: sim_state_defs)
next
  case False
  with assms show ?thesis by (auto simp: pump_finish_def sim_state_defs split: if_splits)
qed

lemma terminate_finish_good:
  assumes "sim_good uid url s" and "terminate_finish fmt now s = (s', es)"
  shows "sim_good uid url s' \<and> step_accounts uid url s s' es"
proof (cases "s_terminator s = Joining \<and> s_pump s = PumpEnded False")
  case True
  with assms(2) have "sim_close fmt now (s\<lparr>s_pump := Joined False, s_terminator := Terminated\<rparr>) = (s', es)"
    by (simp add: terminate_finish_def)
  from sim_close_fields [OF this] True assms(1) show ?thesis by (auto simp: sim_state_defs)
next
  case False
  then have "s' = s \<and> es = []" using assms
    by (cases "s_pump s") (auto simp: terminate_finish_def sim_good_def sim_ctl_def split: if_splits)
  with assms(1) show ?thesis by (simp add: step_accounts_def)
qed

text \<open>What the handler did leaves the call as it was, but for the handler.\<close>

lemma handler_did_good:
  assumes "sim_good uid url s" and "s_handler s = Some h" and "handler_wf (s_sample_rate s) (fst d)"
    and "handler_did d (s\<lparr>s_detached := ts\<rparr>) = (s', es)"
  shows "sim_good uid url s' \<and> step_accounts uid url s s' es \<and> s_terminator s' = s_terminator s"
proof -
  obtain h1 ws where d: "d = (h1, ws)" by (cases d)
  have s': "s' = s\<lparr>s_handler := Some h1, s_running := (s_running s \<and> InvokeDisconnect \<notin> set ws), s_detached := ts @ spawned h1 ws\<rparr>"
    and es: "es = map SimWs ws" using assms(4) by (auto simp: handler_did_def d)
  have "sim_wf s'" using assms(1-3) by (auto simp: s' d sim_good_def sim_wf_def split: option.splits)
  moreover have "sim_ctl s'" "sim_ended s' = sim_ended s" "s_call_id s' = s_call_id s" "s_webhook_url s' = s_webhook_url s"
    "s_handler s' = None \<longleftrightarrow> s_handler s = None" "s_terminator s' = s_terminator s"
    using assms(1,2) by (auto simp: s' sim_good_def sim_ctl_def sim_ended_def)
  ultimately show ?thesis using sim_quiet_step [OF assms(1), of es s'] by (simp add: es)
qed

lemma sim_handler_wf: "sim_good uid url s \<Longrightarrow> s_handler s = Some h \<Longrightarrow> handler_wf (s_sample_rate s) h"
  by (simp add: sim_good_def sim_wf_def)

text \<open>The steps that are undefined: audio with a volume that overflows, and a detached thread that goes on
  after the call was ended and its handler deleted.\<close>

definition sim_fails :: "'j ws_libs \<Rightarrow> sim_event \<Rightarrow> sim \<Rightarrow> bool" where
  "sim_fails L e s \<longleftrightarrow>
     (case e of
        WsMessage is_text msg \<Rightarrow> (\<exists>h. s_handler s = Some h \<and> message_handler L is_text msg ''none'' h = None)
      | DetachedRuns i D \<Rightarrow> i < length (s_detached s) \<and> s_detached s ! i \<noteq> Working \<and> s_handler s = None
      | DetachedEnds i \<Rightarrow> i < length (s_detached s) \<and> s_detached s ! i = Working \<and> s_handler s = None
      | _ \<Rightarrow> False)"

definition sim_step_ok :: "string \<Rightarrow> string \<Rightarrow> sim \<Rightarrow> ((sim \<times> upload_mgr) \<times> sim_effect list) option \<Rightarrow> bool" where
  "sim_step_ok uid url s r \<longleftrightarrow> (\<exists>s' um' es. r = Some ((s', um'), es) \<and> sim_good uid url s' \<and> step_accounts uid url s s' es)"

lemma sim_step_okI:
  "sim_good uid url s' \<and> step_accounts uid url s s' es \<Longrightarrow> sim_step_ok uid url s (Some ((s', um'), es))"
  by (auto simp: sim_step_ok_def)

lemma sim_same: "sim_good uid url s \<Longrightarrow> sim_step_ok uid url s (Some ((s, um), []))"
  by (rule sim_step_okI) (simp add: step_accounts_def)

lemma sim_step_good:
  assumes g: "sim_good uid url s"
  shows "if sim_fails L e s then sim_step L fmt e (s, um) = None else sim_step_ok uid url s (sim_step L fmt e (s, um))"
proof (cases e)
  case (PumpStep ec elapsed ts)
  with pump_step_good [OF assms, of ec elapsed ts] show ?thesis
    by (auto simp: sim_step_def sim_fails_def intro: sim_step_okI)
next
  case (StopRecording can_open)
  with pump_stop_recording_good [OF assms, of can_open um] show ?thesis
    by (auto simp: sim_step_def sim_fails_def intro: sim_step_okI)
next
  case (PumpFinish now)
  with pump_finish_good [OF assms, of fmt now "fst (pump_finish fmt now s)" "snd (pump_finish fmt now s)"]
  show ?thesis by (simp add: sim_step_def sim_fails_def split_beta sim_step_okI)
next
  case (TerminateFinish now)
  with terminate_finish_good [OF assms, of fmt now "fst (terminate_finish fmt now s)" "snd (terminate_finish fmt now s)"]
  show ?thesis by (simp add: sim_step_def sim_fails_def split_beta sim_step_okI)
next
  case TerminateBegin
  then show ?thesis using assms
    by (auto simp: sim_step_def sim_fails_def terminate_begin_def sim_state_defs intro!: sim_step_okI)
next
  case (WsMessage is_text msg)
  show ?thesis
  proof (cases "s_handler s")
    case None
    with WsMessage sim_same [OF g] show ?thesis by (simp add: sim_step_def sim_fails_def sim_message_def)
  next
    case (Some h)
    show ?thesis
    proof (cases "message_handler L is_text msg ''none'' h")
      case None
      with WsMessage Some show ?thesis by (simp add: sim_step_def sim_fails_def sim_message_def)
    next
      case d: (Some d)
      then have "handler_wf (s_sample_rate s) (fst d)"
        using message_handler_wf [OF sim_handler_wf [OF g Some], of L is_text msg "''none''" "fst d" "snd d"] by simp
      from handler_did_good [OF g Some this, of "s_detached s"] d WsMessage Some show ?thesis
        by (cases "handler_did d s") (simp add: sim_step_def sim_fails_def sim_message_def sim_step_okI)
    qed
  qed
next
  case (WsClosed con_ok)
  show ?thesis
  proof (cases "s_handler s")
    case None
    with WsClosed sim_same [OF g] show ?thesis by (simp add: sim_step_def sim_fails_def sim_closed_def)
  next
    case (Some h)
    let ?d = "close_handler con_ok ''none'' h"
    have "handler_wf (s_sample_rate s) (fst ?d)" by (rule close_handler_wf [OF sim_handler_wf [OF g Some]])
    from handler_did_good [OF g Some this, of "s_detached s"] WsClosed Some show ?thesis
      by (cases "handler_did ?d s") (simp add: sim_step_def sim_fails_def sim_closed_def sim_step_okI)
  qed
next
  case (DetachedRuns i D)
  show ?thesis
  proof (cases "length (s_detached s) \<le> i \<or> s_detached s ! i = Working")
    case True
    with DetachedRuns sim_same [OF g] show ?thesis by (auto simp: sim_step_def sim_fails_def detached_runs_def)
  next
    case False
    show ?thesis
    proof (cases "s_handler s")
      case None
      with DetachedRuns False show ?thesis by (simp add: sim_step_def sim_fails_def detached_runs_def)
    next
      case (Some h)
      let ?d = "thread_body D (s_detached s ! i) h" and ?s = "s\<lparr>s_detached := (s_detached s)[i := Working]\<rparr>"
      have "handler_wf (s_sample_rate s) (fst ?d)" by (rule thread_body_wf [OF sim_handler_wf [OF g Some]])
      from handler_did_good [OF g Some this] DetachedRuns Some False show ?thesis
        by (cases "handler_did ?d ?s") (auto simp: sim_step_def sim_fails_def detached_runs_def intro: sim_step_okI)
    qed
  qed
next
  case (DetachedEnds i)
  have "sim_step_ok uid url s (Some ((s\<lparr>s_detached := ts\<rparr>, um), []))" for ts
    by (rule sim_step_okI) (use g in \<open>auto simp: sim_state_defs\<close>)
  with DetachedEnds g sim_same [OF g] show ?thesis
    by (auto simp: sim_step_def sim_fails_def detached_ends_def split: option.splits)
qed

lemma ends_call_append:
  "sim_accounting es = [] \<Longrightarrow> ends_call uid url (es @ fs) = ends_call uid url fs"
  "sim_accounting fs = [] \<Longrightarrow> ends_call uid url (es @ fs) = ends_call uid url es"
  by (simp_all add: ends_call_def)

lemma step_accounts_trans:
  assumes "step_accounts uid url s t es" and "step_accounts uid url t u fs"
  shows "step_accounts uid url s u (es @ fs)"
proof (cases "sim_ended s")
  case True
  then have "sim_ended t" "sim_accounting es = []" using assms(1) by (simp_all add: step_accounts_def)
  with True assms(2) show ?thesis by (simp add: step_accounts_def)
next
  case s: False
  show ?thesis
  proof (cases "sim_ended t")
    case True
    with s assms(1) have "ends_call uid url es" by (simp add: step_accounts_def)
    moreover from True assms(2) have "sim_ended u" "sim_accounting fs = []" by (simp_all add: step_accounts_def)
    ultimately show ?thesis using s ends_call_append(2) [of fs uid url es] by (simp add: step_accounts_def)
  next
    case False
    with s assms(1) have "sim_accounting es = []" by (simp add: step_accounts_def)
    with s False assms(2) ends_call_append(1) [of es uid url fs] show ?thesis by (simp add: step_accounts_def)
  qed
qed

text \<open>Over a run: it is fine up to the first step that fails.\<close>

lemma sim_run_good:
  assumes "sim_good uid url s"
  shows "case sim_run L fmt evs (s, um) of
      None \<Rightarrow> \<exists>pre e post s1 um1 es1. evs = pre @ e # post \<and> sim_run L fmt pre (s, um) = Some ((s1, um1), es1)
        \<and> sim_good uid url s1 \<and> sim_fails L e s1
    | Some ((s', um'), es) \<Rightarrow> sim_good uid url s' \<and> step_accounts uid url s s' es"
  using assms
proof (induction evs arbitrary: s um)
  case Nil
  then show ?case by (simp add: step_accounts_def)
next
  case (Cons e evs)
  show ?case
  proof (cases "sim_fails L e s")
    case True
    then have f: "sim_step L fmt e (s, um) = None" using sim_step_good [OF Cons.prems, of L e fmt um] by simp
    have "\<exists>pre e' post s1 um1 es1. e # evs = pre @ e' # post \<and> sim_run L fmt pre (s, um) = Some ((s1, um1), es1)
        \<and> sim_good uid url s1 \<and> sim_fails L e' s1"
      using True Cons.prems by (intro exI [of _ "[]"] exI [of _ e] exI [of _ evs] exI [of _ s] exI [of _ um] exI [of _ "[]"]) simp
    with f show ?thesis by simp
  next
    case False
    then obtain t um1 es where 1: "sim_step L fmt e (s, um) = Some ((t, um1), es)" "sim_good uid url t" "step_accounts uid url s t es"
      using sim_step_good [OF Cons.prems, of L e fmt um] by (auto simp: sim_step_ok_def)
    show ?thesis
    proof (cases "sim_run L fmt evs (t, um1)")
      case None
      with Cons.IH [OF 1(2), of um1] obtain pre e' post s1 um2 es1 where "evs = pre @ e' # post"
        "sim_run L fmt pre (t, um1) = Some ((s1, um2), es1)" "sim_good uid url s1" "sim_fails L e' s1" by auto
      with 1(1) have "e # evs = (e # pre) @ e' # post \<and> sim_run L fmt (e # pre) (s, um) = Some ((s1, um2), es @ es1)
        \<and> sim_good uid url s1 \<and> sim_fails L e' s1" by simp
      then have "\<exists>pre e' post s1 um1 es1. e # evs = pre @ e' # post \<and> sim_run L fmt pre (s, um) = Some ((s1, um1), es1)
        \<and> sim_good uid url s1 \<and> sim_fails L e' s1" by blast
      moreover have "sim_run L fmt (e # evs) (s, um) = None" using None 1(1) by simp
      ultimately show ?thesis by simp
    next
      case (Some r)
      obtain u um2 fs where r: "r = ((u, um2), fs)" by (metis prod.exhaust)
      have "sim_good uid url u" "step_accounts uid url t u fs" using Cons.IH [OF 1(2), of um1] Some r by simp_all
      with 1 Some r step_accounts_trans [OF 1(3)] show ?thesis by simp
    qed
  qed
qed

lemma sim_run_good_defined:
  "sim_good uid url s \<Longrightarrow> sim_run L fmt evs (s, um) = Some ((s', um'), es) \<Longrightarrow> sim_good uid url s' \<and> step_accounts uid url s s' es"
  using sim_run_good [of uid url s evs L fmt um] by simp

lemma ws_connect_handler_wf:
  assumes "rate \<in> {8000, 16000}" and "ws_connect fs c uri (setDisconnectCallback (new_handler rate uri stamp)) = (ok, h, es)"
  shows "handler_wf rate h"
proof -
  let ?h0 = "setDisconnectCallback (new_handler rate uri stamp)"
  have h0: "handler_wf rate ?h0"
    using assms(1) new_handler_queue_wf [of rate uri stamp] new_handler_ok [of rate uri stamp] new_handler_bpf [of rate uri stamp]
    by (auto simp: handler_wf_def setDisconnectCallback_def queue_wf_def ringing_ok_def)
  have "queue_wf h \<and> bytes_per_frame h = bytes_per_frame ?h0 \<and> ringing_ok h" using assms(2) h0
    by (auto simp: handler_wf_def ws_connect_def poll_loop_eq open_handler_eq queue_wf_def Let_def frame_simps
        ringing_ok_def loadRingingFile_wf startRinging_def split_beta split: if_splits conn.splits)
  with h0 show ?thesis by (simp add: handler_wf_def)
qed

lemma sim_start_good:
  assumes "sim_start fs c stamp fmt now (new_sim uid ws url rate trunk t0) = (True, s, es)" and "rate \<in> {8000, 16000}"
  shows "sim_good uid url s \<and> s_pump s = AtLoop \<and> \<not> s_terminated s"
proof -
  obtain ok h ws_es where c: "ws_connect fs c ws (setDisconnectCallback (new_handler rate ws stamp)) = (ok, h, ws_es)"
    by (cases "ws_connect fs c ws (setDisconnectCallback (new_handler rate ws stamp))")
  note h = ws_connect_handler_wf [OF assms(2) c]
  then have "handler_wf rate (startRinging fs h)"
    by (auto simp: handler_wf_def queue_wf_def frame_simps intro: wf_intros)
  moreover have "rec_wf (nat rate) (snd (startRecording now (new_recorder uid (nat (rate mod 2 ^ 64)) now)))"
    using assms(2) startRecording_wf [OF new_recorder_wf, of "nat rate" now uid now] by auto
  ultimately show ?thesis
    using assms c by (auto simp: sim_start_def new_sim_def sim_good_def sim_wf_def sim_ctl_def sim_ended_def Let_def split: if_splits)
qed

section \<open>Terminating as a whole\<close>

text \<open>The rest of the pump is its own steps.\<close>

lemma pump_drains_run:
  "\<not> s_running s \<Longrightarrow> sim_run L fmt [PumpStep ec elapsed ts, StopRecording can_open, PumpFinish now] (s, um)
     = Some (pump_drains can_open fmt now (s, um))"
  by (cases "s_pump s = AtLoop") (auto simp: sim_step_def pump_step_def pump_drains_def Let_def split: prod.splits)

lemma pump_stop_recording_left:
  assumes "s_pump s = LoopLeft"
  shows "\<exists>r um1 es. pump_stop_recording can_open (s, um) = ((s\<lparr>s_pump := RecordingStopped, s_recorder := r\<rparr>, um1), es)
    \<and> sim_accounting es = []"
proof (cases "s_recorder s")
  case None
  have "s\<lparr>s_pump := RecordingStopped, s_recorder := None\<rparr> = s\<lparr>s_pump := RecordingStopped\<rparr>" using None by simp
  with None assms show ?thesis by (intro exI [of _ None]) (simp add: pump_stop_recording_def)
next
  case (Some r)
  with assms show ?thesis by (auto simp: pump_stop_recording_def split: prod.splits)
qed

lemma pump_drains_terminated:
  assumes "s_terminated s" and "s_pump s \<in> {AtLoop, LoopLeft, RecordingStopped}"
  shows "\<exists>r um1 es. pump_drains can_open fmt now (s, um) = ((s\<lparr>s_pump := PumpEnded False, s_recorder := r\<rparr>, um1), es)
    \<and> sim_accounting es = []"
proof (cases "s_pump s = RecordingStopped")
  case True
  have "s\<lparr>s_pump := PumpEnded False, s_recorder := s_recorder s\<rparr> = s\<lparr>s_pump := PumpEnded False\<rparr>" by simp
  with True assms(1) show ?thesis
    by (intro exI [of _ "s_recorder s"]) (simp add: pump_drains_def pump_stop_recording_def pump_finish_def)
next
  case False
  define s1 where "s1 = (if s_pump s = AtLoop then s\<lparr>s_pump := LoopLeft\<rparr> else s)"
  then have p: "s_pump s1 = LoopLeft" "s_terminated s1"
    "s1\<lparr>s_pump := PumpEnded False, s_recorder := r\<rparr> = s\<lparr>s_pump := PumpEnded False, s_recorder := r\<rparr>" for r
    using assms False by auto
  from pump_stop_recording_left [OF p(1), of can_open um] obtain r um1 es where
    l: "pump_stop_recording can_open (s1, um) = ((s1\<lparr>s_pump := RecordingStopped, s_recorder := r\<rparr>, um1), es)"
    "sim_accounting es = []" by blast
  have "s1\<lparr>s_recorder := r, s_pump := PumpEnded False\<rparr> = s\<lparr>s_pump := PumpEnded False, s_recorder := r\<rparr>"
    by (cases s) (simp add: s1_def)
  with l p(2) have "pump_drains can_open fmt now (s, um) = ((s\<lparr>s_pump := PumpEnded False, s_recorder := r\<rparr>, um1), es)"
    by (simp add: pump_drains_def s1_def [symmetric] pump_finish_def)
  with l(2) show ?thesis by blast
qed

text \<open>A started call that nobody has ended is ended by \<^verbatim>\<open>terminate()\<close>, once, and its thread is joined.\<close>

lemma terminate_sim_ends:
  assumes "sim_good uid url s" and "s_terminator s = NotCalled" and "s_pump s \<noteq> PumpEnded True"
  shows "\<exists>s1 um1 es. terminate_sim can_open fmt now (s, um) = ((s1, um1), es) \<and> ends_call uid url es
    \<and> \<not> joinable (s_pump s1)"
proof -
  have ctl: "sim_ctl s" "s_call_id s = uid" "s_webhook_url s = url" using assms(1) by (simp_all add: sim_good_def)
  then have nt: "\<not> s_terminated s" using assms(2,3) by (auto simp: sim_ctl_def)
  then have p: "s_pump s \<in> {AtLoop, LoopLeft, RecordingStopped}"
    using ctl(1) assms(2,3) by (cases "s_pump s") (auto simp: sim_ctl_def)
  let ?s0 = "s\<lparr>s_terminated := True, s_running := False, s_terminator := Joining\<rparr>"
  have b: "terminate_begin s = ?s0" using nt by (simp add: terminate_begin_def)
  from pump_drains_terminated [of ?s0 can_open fmt now um] p obtain r um1 es where
    d: "pump_drains can_open fmt now (?s0, um) = ((?s0\<lparr>s_pump := PumpEnded False, s_recorder := r\<rparr>, um1), es)"
    "sim_accounting es = []" by auto
  obtain s2 fs where c: "sim_close fmt now
      (?s0\<lparr>s_pump := PumpEnded False, s_recorder := r, s_pump := Joined False, s_terminator := Terminated\<rparr>) = (s2, fs)"
    by (cases "sim_close fmt now
      (?s0\<lparr>s_pump := PumpEnded False, s_recorder := r, s_pump := Joined False, s_terminator := Terminated\<rparr>)")
  note f = sim_close_fields [OF c]
  have "terminate_sim can_open fmt now (s, um) = ((s2, um1), es @ fs)"
    using nt b d(1) c by (simp add: terminate_sim_def terminate_finish_def)
  moreover have "ends_call uid url (es @ fs)" using f ctl(2,3) ends_call_append(1) [OF d(2)] by simp
  ultimately show ?thesis using f by simp
qed

section \<open>Properties\<close>

text \<open>C26: A started simulated call is ended at most once, whatever the pump thread, the terminating thread,
  the WebSocket's thread and the detached threads that reconnect or transfer do, and in whatever
  order. A run of their steps is undefined only where its first undefined step is one of a detached
  thread that goes on after the call was ended and its handler deleted, or audio with a volume that
  overflows. In every other run, as soon as one thread has ended the call there has been exactly one
  report \<open>completed\<close> and one decrement of the call counter, and before that none.\<close>

theorem simulated_call_ends_once:
  assumes "sim_start fs c stamp fmt now (new_sim uid ws url rate trunk t0) = (True, s, es0)" and "rate \<in> {8000, 16000}"
  shows "case sim_run L fmt evs (s, um) of
      None \<Rightarrow> \<exists>pre e post s1 um1 es1. evs = pre @ e # post \<and> sim_run L fmt pre (s, um) = Some ((s1, um1), es1)
        \<and> ((\<exists>i D. (e = DetachedRuns i D \<or> e = DetachedEnds i) \<and> i < length (s_detached s1) \<and> s_handler s1 = None
              \<and> (s_terminator s1 = Terminated \<or> s_pump s1 = PumpEnded True))
          \<or> (\<exists>is_text msg h. e = WsMessage is_text msg \<and> s_handler s1 = Some h \<and> message_handler L is_text msg ''none'' h = None))
    | Some ((s', um'), es) \<Rightarrow>
        if s_terminator s' = Terminated \<or> s_pump s' = PumpEnded True
        then \<exists>r. cdr_status r = ''completed'' \<and> sim_accounting es = [SimReport uid url (cdr_json r), SimCountDown]
        else sim_accounting es = []"
proof -
  note g = sim_start_good [OF assms]
  then have n: "\<not> sim_ended s" by (auto simp: sim_ended_def sim_good_def sim_ctl_def)
  note run = sim_run_good [of uid url s evs L fmt um]
  show ?thesis
  proof (cases "sim_run L fmt evs (s, um)")
    case None
    then obtain pre e post s1 um1 es1 where p: "evs = pre @ e # post" "sim_run L fmt pre (s, um) = Some ((s1, um1), es1)"
      "sim_good uid url s1" "sim_fails L e s1" using run g by auto
    then have "s_handler s1 = None \<longleftrightarrow> s_terminator s1 = Terminated \<or> s_pump s1 = PumpEnded True"
      by (simp add: sim_good_def sim_ended_def)
    with p(4) have "(\<exists>i D. (e = DetachedRuns i D \<or> e = DetachedEnds i) \<and> i < length (s_detached s1) \<and> s_handler s1 = None
              \<and> (s_terminator s1 = Terminated \<or> s_pump s1 = PumpEnded True))
          \<or> (\<exists>is_text msg h. e = WsMessage is_text msg \<and> s_handler s1 = Some h \<and> message_handler L is_text msg ''none'' h = None)"
      by (cases e) (simp_all add: sim_fails_def)
    with p(1,2) None show ?thesis by (simp only: option.case) blast
  next
    case (Some r)
    obtain s' um' es where r: "r = ((s', um'), es)" by (metis prod.exhaust)
    have "step_accounts uid url s s' es" using run g Some r by simp
    with n Some r show ?thesis by (auto simp: step_accounts_def ends_call_def sim_ended_def)
  qed
qed

definition demo_fmt :: "int \<Rightarrow> string" where
  "demo_fmt t = ''t''"

definition demo_start :: "bool \<times> sim \<times> sim_effect list" where
  "demo_start = sim_start Map.empty (ClientRuns (\<lambda>k. k = 1)) ''0'' demo_fmt 0
     (new_sim ''u1'' ''wss://a'' ''https://w'' 8000 ''tata_byebye'' 0)"

lemma demo_start_ok: "fst demo_start"
proof -
  let ?h = "setDisconnectCallback (new_handler 8000 ''wss://a'' ''0'')"
  have "\<not> connected ?h"
    by (auto simp: setDisconnectCallback_def new_handler_def setAgentId_def Let_def split: option.splits)
  moreover obtain ok h es where c: "ws_connect Map.empty (ClientRuns (\<lambda>k. k = 1)) ''wss://a'' ?h = (ok, h, es)"
    by (cases "ws_connect Map.empty (ClientRuns (\<lambda>k. k = 1)) ''wss://a'' ?h")
  ultimately have ok using ws_connect_ok(1) [OF c] by (auto simp: CONNECT_POLLS_def)
  with c show ?thesis by (simp add: demo_start_def sim_start_def new_sim_def Let_def)
qed

lemma demo_start_eq:
  "sim_start Map.empty (ClientRuns (\<lambda>k. k = 1)) ''0'' demo_fmt 0
     (new_sim ''u1'' ''wss://a'' ''https://w'' 8000 ''tata_byebye'' 0) = (True, fst (snd demo_start), snd (snd demo_start))"
  unfolding demo_start_def [symmetric] using demo_start_ok by (simp add: prod_eq_iff)

definition silent_libs :: "json ws_libs" where
  "silent_libs = demo_libs (\<lambda>m. None)"

lemma simulated_call_ends_once_witness:
  "\<exists>s1 um1 es1 r. sim_run silent_libs demo_fmt [PumpStep False 60 (0, 0, 0), StopRecording (\<lambda>_. True), PumpFinish 60]
       (fst (snd demo_start), new_upload_mgr Map.empty) = Some ((s1, um1), es1)
     \<and> sim_accounting es1 = [SimReport ''u1'' ''https://w'' (cdr_json r), SimCountDown]"
proof -
  let ?evs = "[PumpStep False 60 (0, 0, 0), StopRecording (\<lambda>_. True), PumpFinish 60]"
  let ?W = "(fst (snd demo_start), new_upload_mgr Map.empty)"
  have rate: "(8000 :: int) \<in> {8000, 16000}" by simp
  note g = sim_start_good [OF demo_start_eq rate]
  then have p: "s_pump (fst (snd demo_start)) = AtLoop" "\<not> s_terminated (fst (snd demo_start))" by simp_all
  then have e: "\<exists>s1 um1 es1. sim_run silent_libs demo_fmt ?evs ?W = Some ((s1, um1), es1) \<and> s_pump s1 = PumpEnded True"
    by (auto simp: sim_step_def pump_step_def pump_stop_recording_def pump_finish_def Let_def
        split: option.splits prod.splits dest!: sim_close_fields)
  then obtain s1 um1 es1 where s1: "sim_run silent_libs demo_fmt ?evs ?W = Some ((s1, um1), es1)" "s_pump s1 = PumpEnded True"
    by blast
  from simulated_call_ends_once [OF demo_start_eq rate, of ?evs silent_libs "new_upload_mgr Map.empty"] s1
  obtain r where "sim_accounting es1 = [SimReport ''u1'' ''https://w'' (cdr_json r), SimCountDown]"
    by (auto simp del: sim_run.simps)
  with s1(1) show ?thesis by blast
qed

text \<open>And such a step does come: the connection drops shortly before the sixty seconds are over, the call
  ends itself at the timeout and deletes the handler, and the reconnect thread wakes up after that.\<close>

lemma reconnect_after_end:
  assumes "sim_start fs c stamp fmt now (new_sim uid ws url rate trunk t0) = (True, s, es0)" and "\<not> str_contains ''rupture2'' ws"
  shows "sim_run L fmt [WsClosed True, PumpStep ec 60 ts, StopRecording can_open, PumpFinish t1, DetachedRuns 0 D] (s, um) = None"
proof -
  let ?h0 = "setDisconnectCallback (new_handler rate ws stamp)"
  obtain ok h ws_es where c: "ws_connect fs c ws ?h0 = (ok, h, ws_es)" by (cases "ws_connect fs c ws ?h0")
  have h0: "\<not> agent_transfer_in_progress ?h0" "\<not> hangup_received ?h0" "\<not> intentional_close ?h0"
    "reconnect_attempts ?h0 = 0" "ws_uri ?h0 = ws"
    by (auto simp: setDisconnectCallback_def new_handler_def setAgentId_def Let_def split: option.splits)
  let ?h = "startRinging fs h"
  have h: "\<not> agent_transfer_in_progress ?h" "\<not> hangup_received ?h" "\<not> intentional_close ?h" "may_reconnect ?h" "ws_uri ?h = ws"
    using ws_connect_frame [OF c] h0 assms(2) by (simp_all add: frame_simps may_reconnect_def MAX_RECONNECT_ATTEMPTS_def)
  have s: "s_handler s = Some ?h" "s_pump s = AtLoop" "s_detached s = []" "s_running s" "\<not> s_terminated s"
    using assms(1) c by (auto simp: sim_start_def new_sim_def Let_def split: if_splits)
  let ?h1 = "?h\<lparr>connected := False, reconnect_attempts := reconnect_attempts ?h + 1\<rparr>"
  have "close_handler True ''none'' ?h = (?h1, [SpawnReconnect])"
    using h by (simp add: close_handler_def may_reconnect_def Let_def)
  then have 1: "sim_closed True s = (s\<lparr>s_handler := Some ?h1, s_detached := [Reconnecting (reconnect_uri ws)]\<rparr>, [SimWs SpawnReconnect])"
    using s h(5) by (simp add: sim_closed_def handler_did_def)
  let ?s1 = "s\<lparr>s_handler := Some ?h1, s_detached := [Reconnecting (reconnect_uri ws)]\<rparr>"
  let ?s2 = "?s1\<lparr>s_hangup_source := ''timeout'', s_running := False, s_pump := LoopLeft\<rparr>"
  have 2: "pump_step ec 60 ts ?s1 = Some (?s2, [])" using s by (simp add: pump_step_def)
  obtain r um1 es1 where 3: "pump_stop_recording can_open (?s2, um) = ((?s2\<lparr>s_pump := RecordingStopped, s_recorder := r\<rparr>, um1), es1)"
    using pump_stop_recording_left [of ?s2 can_open um] by auto
  let ?s3 = "?s2\<lparr>s_pump := RecordingStopped, s_recorder := r\<rparr>"
  obtain s4 es4 where 4: "pump_finish fmt t1 ?s3 = (s4, es4)" by (cases "pump_finish fmt t1 ?s3")
  then have "s_handler s4 = None" "s_detached s4 = [Reconnecting (reconnect_uri ws)]"
    using s(5) by (auto simp: pump_finish_def dest!: sim_close_fields)
  then have 5: "detached_runs 0 D s4 = None" by (simp add: detached_runs_def)
  show ?thesis using 1 2 3 4 5 by (simp add: sim_step_def)
qed

text \<open>C27: One more round of the threads ends a simulated call after its sixty seconds: from whatever state
  a run has reached, a pump step that sees sixty seconds gone, the end of the recording, the end of
  the pump and the return of a pending \<open>terminate()\<close> leave the call ended.\<close>

theorem simulated_call_times_out:
  assumes "sim_start fs c stamp fmt now (new_sim uid ws url rate trunk t0) = (True, s, es0)" and "rate \<in> {8000, 16000}"
    and "sim_run L fmt evs (s, um) = Some ((s1, um1), es1)" and "60 \<le> elapsed"
  shows "\<exists>s2 um2 es2. sim_run L fmt [PumpStep ec elapsed ts, StopRecording can_open, PumpFinish t1, TerminateFinish t2] (s1, um1)
       = Some ((s2, um2), es2) \<and> (s_terminator s2 = Terminated \<or> s_pump s2 = PumpEnded True)"
proof -
  have "sim_good uid url s1" using sim_run_good_defined [OF _ assms(3)] sim_start_good [OF assms(1,2)] by auto
  then have ctl: "sim_ctl s1" by (simp add: sim_good_def)
  have "\<exists>s2 es2. pump_step ec elapsed ts s1 = Some (s2, es2) \<and> s_pump s2 \<noteq> AtLoop \<and> sim_ctl s2"
    using assms(4) ctl by (cases "s_pump s1 = AtLoop"; cases "s_running s1") (auto simp: pump_step_def sim_ctl_def)
  then obtain s2 es2 where 1: "pump_step ec elapsed ts s1 = Some (s2, es2)" "s_pump s2 \<noteq> AtLoop" "sim_ctl s2" by blast
  obtain s3 um3 es3 where 2: "pump_stop_recording can_open (s2, um1) = ((s3, um3), es3)"
    by (cases "pump_stop_recording can_open (s2, um1)") auto
  then have 3: "s_pump s3 \<noteq> AtLoop" "s_pump s3 \<noteq> LoopLeft" "sim_ctl s3"
    using 1 by (auto simp: pump_stop_recording_def sim_ctl_def Let_def split: if_splits option.splits prod.splits)
  obtain s4 es4 where 4: "pump_finish fmt t1 s3 = (s4, es4)" by (cases "pump_finish fmt t1 s3")
  then have 5: "s_pump s4 \<in> {PumpEnded True, PumpEnded False, Joined False}" "sim_ctl s4"
    using 3 by (cases "s_pump s3"; auto simp: pump_finish_def sim_ctl_def dest!: sim_close_fields split: if_splits)+
  obtain s5 es5 where 6: "terminate_finish fmt t2 s4 = (s5, es5)" by (cases "terminate_finish fmt t2 s4")
  then have "s_terminator s5 = Terminated \<or> s_pump s5 = PumpEnded True"
    using 5 by (cases "s_terminator s4") (auto simp: terminate_finish_def sim_ctl_def dest!: sim_close_fields split: if_splits)
  with 1(1) 2 4 6 show ?thesis by (simp add: sim_step_def)
qed

lemma simulated_call_times_out_witness:
  "\<exists>s2 um2 es2. sim_run silent_libs demo_fmt [PumpStep False 61 (0, 0, 0), StopRecording (\<lambda>_. True), PumpFinish 61, TerminateFinish 62]
       (fst (snd demo_start), new_upload_mgr Map.empty)
     = Some ((s2, um2), es2) \<and> (s_terminator s2 = Terminated \<or> s_pump s2 = PumpEnded True)"
proof -
  have r: "(8000 :: int) \<in> {8000, 16000}" "sim_run silent_libs demo_fmt [] (fst (snd demo_start), new_upload_mgr Map.empty)
      = Some ((fst (snd demo_start), new_upload_mgr Map.empty), [])" by simp_all
  from simulated_call_times_out [OF demo_start_eq r, of 61] show ?thesis by simp
qed

text \<open>Destroying a simulated call is safe exactly when its owner terminated it. After \<open>terminate()\<close>
  has returned, the destructor does nothing more. But when the call ended itself, by the timeout or
  because the WebSocket went away, its thread was never joined, and the destructor aborts the whole
  process.\<close>

lemma self_ended_call_aborts:
  assumes "sim_start fs c stamp fmt now (new_sim uid ws url rate trunk t0) = (True, s, es0)" and "rate \<in> {8000, 16000}"
    and "sim_run L fmt evs (s, um) = Some ((s1, um1), es1)"
  shows "(s_terminator s1 = Terminated \<longrightarrow> destroy_sim can_open fmt t1 (s1, um1) = Destroyed um1 [])
    \<and> (s_pump s1 = PumpEnded True \<longrightarrow> destroy_sim can_open fmt t1 (s1, um1) = Aborts)"
proof -
  have "sim_good uid url s1" using sim_run_good_defined [OF _ assms(3)] sim_start_good [OF assms(1,2)] by auto
  then have "sim_ctl s1" by (simp add: sim_good_def)
  then show ?thesis
    by (auto simp: destroy_sim_def terminate_sim_def sim_ctl_def)
qed

text \<open>A simulated call whose WebSocket cannot be reached reports \<open>fail\<close>; but destroying it, which the
  caller of \<open>start()\<close> does at once, then also reports \<open>completed\<close> and takes one off the call counter,
  to which the call was never added.\<close>

lemma failed_start_counts_down:
  assumes "sim_start fs c stamp fmt now (new_sim uid ws url rate trunk t0) = (False, s, es)"
  shows "(\<exists>r. cdr_status r = ''fail'' \<and> sim_accounting es = [SimReport uid url (cdr_json r)])
    \<and> (\<exists>r es2. destroy_sim can_open fmt t1 (s, um) = Destroyed um es2 \<and> cdr_status r = ''completed''
         \<and> sim_accounting es2 = [SimReport uid url (cdr_json r), SimCountDown])"
proof
  let ?s = "(new_sim uid ws url rate trunk t0)\<lparr>s_handler := None\<rparr>"
  have s: "s = ?s" "\<exists>ws_es. es = map SimWs ws_es @ [sim_report fmt now ''fail'' 0 ?s]"
    using assms by (auto simp: sim_start_def new_sim_def Let_def split: prod.splits if_splits)
  let ?r = "sim_record fmt now ''fail'' 0 ?s"
  have "cdr_status ?r = ''fail''" "sim_accounting es = [SimReport uid url (cdr_json ?r)]"
    using s by (auto simp: sim_record_def sim_report_def buildWebhookJson_def new_sim_def)
  then show "\<exists>r. cdr_status r = ''fail'' \<and> sim_accounting es = [SimReport uid url (cdr_json r)]" by blast
  obtain s3 es3 where 3: "sim_close fmt t1 (?s\<lparr>s_terminated := True, s_running := False, s_terminator := Joining, s_pump := NoPump, s_terminator := Terminated\<rparr>) = (s3, es3)"
    by (cases "sim_close fmt t1 (?s\<lparr>s_terminated := True, s_running := False, s_terminator := Joining, s_pump := NoPump, s_terminator := Terminated\<rparr>)")
  note f = sim_close_fields [OF 3]
  have "s_pump ?s = NoPump" "\<not> s_terminated ?s" by (simp_all add: new_sim_def)
  with 3 f s(1) have "destroy_sim can_open fmt t1 (s, um) = Destroyed um es3"
    by (simp add: destroy_sim_def terminate_sim_def pump_drains_def pump_stop_recording_def pump_finish_def terminate_begin_def
        terminate_finish_def)
  moreover have "s_call_id ?s = uid" "s_webhook_url ?s = url" by (simp_all add: new_sim_def)
  ultimately show "\<exists>r es2. destroy_sim can_open fmt t1 (s, um) = Destroyed um es2 \<and> cdr_status r = ''completed''
         \<and> sim_accounting es2 = [SimReport uid url (cdr_json r), SimCountDown]"
    using f by (auto simp: ends_call_def)
qed

end
