(* ===== verification/Db_Manager.thy ===== *)
theory Db_Manager
  imports Cpp_Std
begin

text \<open>
  \<^verbatim>\<open>DbManager\<close> of \<^verbatim>\<open>db_manager.cpp\<close>: the MySQL connection with its one reconnect, and the
  statements it sends to Asterisk's realtime tables. The server is the record \<open>mysql\<close>: the
  outcome of the \<open>n\<close>-th connection attempt and the error number the client sees for the \<open>i\<close>-th
  statement, 0 for success. The state logs every statement sent, with its error number and whether
  the server ran it: on success it did, on an error it did not, except that after 2013, by which
  MySQL reports that no full answer came back, it may or may not have, as \<open>my_lost_ran\<close> says.
  \<open>None\<close> is an exception.
\<close>

type_synonym row = "string option list"

text \<open>Host, user, password, schema and port.\<close>

type_synonym db_params = "string \<times> string \<times> string \<times> string \<times> int"

record mysql =
  my_init :: "nat \<Rightarrow> bool"
  my_connect :: "nat \<Rightarrow> db_params \<Rightarrow> bool"
  my_errno :: "nat \<Rightarrow> int"
  my_lost_ran :: "nat \<Rightarrow> bool"
  my_result :: "nat \<Rightarrow> row list option"

record db =
  db_conn :: bool
  db_connects :: nat
  db_log :: "(string \<times> int \<times> bool) list"

definition CR_SERVER_GONE_ERROR :: int where "CR_SERVER_GONE_ERROR = 2006"
definition CR_SERVER_LOST :: int where "CR_SERVER_LOST = 2013"

section \<open>The connection\<close>

definition db_params :: "env \<Rightarrow> db_params option" where
  "db_params e =
     map_option (\<lambda>port. (getEnvString e ''ASTERISK_IP'' ''sip-db.vocallabs.ai'',
        getEnvString e ''MARIA_DB_USERNAME'' ''asterisk'', getEnvString e ''MARIA_DB_PASS'' ''1234'',
        getEnvString e ''MARIA_DB_TABLE'' ''asterisk'', port)) (getEnvInt e ''MARIA_DB_PORT'' 3306)"

definition connectToDatabase :: "env \<Rightarrow> mysql \<Rightarrow> db \<Rightarrow> (bool \<times> db) option" where
  "connectToDatabase e M d =
     (let n = db_connects d; d1 = d\<lparr>db_connects := Suc n\<rparr>
      in if \<not> my_init M n then Some (False, d1\<lparr>db_conn := False\<rparr>)
         else (case db_params e of
                 None \<Rightarrow> None
               | Some ps \<Rightarrow>
                   (let ok = my_connect M n ps in Some (ok, d1\<lparr>db_conn := ok\<rparr>))))"

definition disconnectFromDatabase :: "db \<Rightarrow> db" where
  "disconnectFromDatabase d = (if db_conn d then d\<lparr>db_conn := False\<rparr> else d)"

text \<open>The constructor throws when it cannot connect.\<close>

definition new_db :: "env \<Rightarrow> mysql \<Rightarrow> string + db" where
  "new_db e M =
     (case connectToDatabase e M \<lparr>db_conn = False, db_connects = 0, db_log = []\<rparr> of
        None \<Rightarrow> Inl ''stoi''
      | Some (ok, d) \<Rightarrow> if ok then Inr d else Inl ''Failed to connect to MySQL database'')"

text \<open>The singleton, made by whoever needs it first.\<close>

definition db_instance :: "env \<Rightarrow> mysql \<Rightarrow> db option \<Rightarrow> string + db" where
  "db_instance e M inst = (case inst of Some d \<Rightarrow> Inr d | None \<Rightarrow> new_db e M)"

text \<open>A method of the singleton: its result or an exception, and the singleton afterwards. The port is
  read again on every reconnect; the singleton exists only where it was readable.\<close>

definition use_db :: "env \<Rightarrow> mysql \<Rightarrow> (db \<Rightarrow> ('a \<times> db) option) \<Rightarrow> db option \<Rightarrow> (string + 'a) \<times> db option" where
  "use_db e M f inst =
     (case db_instance e M inst of
        Inl err \<Rightarrow> (Inl err, inst)
      | Inr d \<Rightarrow> (case f d of None \<Rightarrow> (Inl ''stoi'', Some d) | Some (x, d1) \<Rightarrow> (Inr x, Some d1)))"

section \<open>Statements\<close>

text \<open>The statement goes to the server as a C string.\<close>

definition c_str :: "string \<Rightarrow> string" where
  "c_str s = takeWhile (\<lambda>c. c \<noteq> char_of (0 :: nat)) s"

definition mysql_query :: "mysql \<Rightarrow> string \<Rightarrow> db \<Rightarrow> int \<times> db" where
  "mysql_query M q d =
     (let i = length (db_log d); err = my_errno M i; eff = (err = 0 \<or> (err = CR_SERVER_LOST \<and> my_lost_ran M i))
      in (err, d\<lparr>db_log := db_log d @ [(c_str q, err, eff)]\<rparr>))"

definition connection_lost :: "int \<Rightarrow> bool" where
  "connection_lost err \<longleftrightarrow> err = CR_SERVER_GONE_ERROR \<or> err = CR_SERVER_LOST"

text \<open>Both execute functions: connect if there is no connection, send, and on a lost connection
  reconnect and send once more. The result says whether the last statement sent succeeded.\<close>

definition retry_query :: "env \<Rightarrow> mysql \<Rightarrow> string \<Rightarrow> db \<Rightarrow> (bool \<times> db) option" where
  "retry_query e M q d =
     (case connectToDatabase e M (disconnectFromDatabase d) of
        None \<Rightarrow> None
      | Some (ok, d1) \<Rightarrow>
          if ok then (let (err, d2) = mysql_query M q d1 in Some (err = 0, d2)) else Some (False, d1))"

definition send_query :: "env \<Rightarrow> mysql \<Rightarrow> string \<Rightarrow> db \<Rightarrow> (bool \<times> db) option" where
  "send_query e M q d =
     (let (err, d1) = mysql_query M q d
      in if err = 0 then Some (True, d1)
         else if connection_lost err then retry_query e M q d1
         else Some (False, d1))"

definition executeSqlQuery :: "env \<Rightarrow> mysql \<Rightarrow> string \<Rightarrow> db \<Rightarrow> (bool \<times> db) option" where
  "executeSqlQuery e M q d =
     (if db_conn d then send_query e M q d
      else (case connectToDatabase e M d of
              None \<Rightarrow> None
            | Some (ok, d1) \<Rightarrow> if ok then send_query e M q d1 else Some (False, d1)))"

text \<open>The rows of the last statement sent; \<^verbatim>\<open>mysql_store_result\<close> may fail.\<close>

definition executeSelectQuery :: "env \<Rightarrow> mysql \<Rightarrow> string \<Rightarrow> db \<Rightarrow> (row list option \<times> db) option" where
  "executeSelectQuery e M q d =
     (case executeSqlQuery e M q d of
        None \<Rightarrow> None
      | Some (ok, d1) \<Rightarrow> Some (if ok then my_result M (length (db_log d1) - 1) else None, d1))"

text \<open>Statements in a row, up to the first that fails.\<close>

fun execute_all :: "env \<Rightarrow> mysql \<Rightarrow> string list \<Rightarrow> db \<Rightarrow> (bool \<times> db) option" where
  "execute_all e M [] d = Some (True, d)"
| "execute_all e M (q # qs) d =
     (case executeSqlQuery e M q d of
        None \<Rightarrow> None
      | Some (ok, d1) \<Rightarrow> if ok then execute_all e M qs d1 else Some (False, d1))"

section \<open>The tables\<close>

definition sq :: "string \<Rightarrow> string" where
  "sq s = SQ # s @ [SQ]"

definition auth_query :: "string \<Rightarrow> string \<Rightarrow> string \<Rightarrow> string" where
  "auth_query name user pass =
     ''INSERT INTO ps_auths (id, auth_type, username, password, realm) VALUES ('' @
     sq (name @ ''_auth'') @ '', '' @ sq ''userpass'' @ '', '' @ sq user @ '', '' @ sq pass @ '', '' @ sq [] @ '')''"

definition aor_query :: "string \<Rightarrow> string \<Rightarrow> int \<Rightarrow> string" where
  "aor_query name domain port =
     ''INSERT INTO ps_aors (id, contact, qualify_frequency, max_contacts, remove_existing) VALUES ('' @
     sq (name @ ''_aor'') @ '', '' @ sq (''sip:'' @ domain @ '':'' @ to_string port) @ '', 60, 1, '' @ sq ''yes'' @ '')''"

definition endpoint_query :: "string \<Rightarrow> string \<Rightarrow> string \<Rightarrow> string" where
  "endpoint_query name user domain =
     ''INSERT INTO ps_endpoints (id, transport, aors, context, disallow, allow, direct_media, '' @
     ''force_rport, rewrite_contact, rtp_symmetric, ice_support, from_user, from_domain, outbound_auth, '' @
     ''mailboxes, incoming_mwi_mailbox, mwi_subscribe_replaces_unsolicited, message_context, mwi_from_user, mwi_max_messages, '' @
     ''send_pai, send_rpid, direct_media_method, connected_line_method, timers) VALUES ('' @
     sq name @ '', '' @ sq ''transport-udp'' @ '', '' @ sq (name @ ''_aor'') @ '', '' @
     sq ''from-trunk'' @ '', '' @ sq ''all'' @ '', '' @ sq ''ulaw'' @ '', '' @ sq ''yes'' @ '', '' @ sq ''yes'' @ '', '' @
     sq ''yes'' @ '', '' @ sq ''yes'' @ '', '' @ sq ''no'' @ '', NULL, '' @
     sq domain @ '', '' @ sq (name @ ''_auth'') @ '', '' @ sq (user @ ''@'' @ domain) @ '', '' @
     sq (''sip:'' @ user @ ''@'' @ domain) @ '', '' @ sq ''yes'' @ '', '' @
     sq ''from-trunk'' @ '', '' @ sq user @ '', 100, '' @
     sq ''yes'' @ '', '' @ sq ''yes'' @ '', '' @ sq ''reinvite'' @ '', '' @ sq ''reinvite'' @ '', '' @ sq ''no'' @ '')''"

definition reg_query :: "string \<Rightarrow> string \<Rightarrow> string \<Rightarrow> int \<Rightarrow> string" where
  "reg_query name user domain port =
     ''INSERT INTO ps_registrations (id, client_uri, contact_user, expiration, retry_interval, '' @
     ''forbidden_retry_interval, max_retries, fatal_retry_interval, server_uri, transport, outbound_auth, '' @
     ''support_path, line, endpoint) VALUES ('' @
     sq (name @ ''_registration'') @ '', '' @
     sq (''sip:'' @ user @ ''@'' @ domain @ '':'' @ to_string port) @ '', '' @ sq user @ '', '' @
     ''3600, 60, 300, 100000, 600, '' @ sq (''sip:'' @ domain @ '':'' @ to_string port) @ '', '' @
     sq ''transport-udp'' @ '', '' @ sq (name @ ''_auth'') @ '', '' @ sq ''yes'' @ '', '' @ sq ''yes'' @ '', '' @ sq name @ '')''"

definition provider_queries :: "string \<Rightarrow> string \<Rightarrow> string \<Rightarrow> string \<Rightarrow> int \<Rightarrow> bool \<Rightarrow> string list" where
  "provider_queries name user pass domain port with_reg =
     [auth_query name user pass, aor_query name domain port, endpoint_query name user domain]
     @ (if with_reg then [reg_query name user domain port] else [])"

definition db_addProvider ::
  "env \<Rightarrow> mysql \<Rightarrow> string \<Rightarrow> string \<Rightarrow> string \<Rightarrow> string \<Rightarrow> int \<Rightarrow> bool \<Rightarrow> db \<Rightarrow> (bool \<times> db) option" where
  "db_addProvider e M name user pass domain port with_reg d =
     execute_all e M (provider_queries name user pass domain port with_reg) d"

definition did_query :: "string \<Rightarrow> string \<Rightarrow> string \<Rightarrow> string \<Rightarrow> string" where
  "did_query trunk did provider url =
     ''INSERT INTO ps_provider_dids (id, did, provider_id, answer_webhook_url) VALUES ('' @
     sq trunk @ '', '' @ sq did @ '', '' @ sq provider @ '', '' @ sq url @ '')''"

definition webhook_query :: "string \<Rightarrow> string \<Rightarrow> string" where
  "webhook_query provider url =
     ''INSERT INTO trunk_webhooks (trunk_id, answer_webhook_url) VALUES ('' @ sq provider @ '', '' @ sq url @
     '') ON DUPLICATE KEY UPDATE answer_webhook_url = VALUES(answer_webhook_url)''"

definition db_addDid :: "env \<Rightarrow> mysql \<Rightarrow> string \<Rightarrow> string \<Rightarrow> string \<Rightarrow> string \<Rightarrow> db \<Rightarrow> (bool \<times> db) option" where
  "db_addDid e M trunk did provider url d =
     execute_all e M [did_query trunk did provider url, webhook_query provider url] d"

definition remove_queries :: "string \<Rightarrow> string list" where
  "remove_queries name =
     [''DELETE FROM ps_provider_dids WHERE provider_id = '' @ sq name,
      ''DELETE FROM trunk_webhooks WHERE trunk_id = '' @ sq name,
      ''DELETE FROM ps_registrations WHERE endpoint = '' @ sq name,
      ''DELETE FROM ps_aors WHERE id = '' @ sq (name @ ''_aor''),
      ''DELETE FROM ps_auths WHERE id = '' @ sq (name @ ''_auth''),
      ''DELETE FROM ps_endpoints WHERE id = '' @ sq name]"

definition db_removeProvider :: "env \<Rightarrow> mysql \<Rightarrow> string \<Rightarrow> db \<Rightarrow> (bool \<times> db) option" where
  "db_removeProvider e M name d = execute_all e M (remove_queries name) d"

definition remove_did_query :: "string \<Rightarrow> string" where
  "remove_did_query did_id = ''DELETE FROM ps_provider_dids WHERE id = '' @ sq did_id"

definition db_removeDid :: "env \<Rightarrow> mysql \<Rightarrow> string \<Rightarrow> db \<Rightarrow> (bool \<times> db) option" where
  "db_removeDid e M did_id d = executeSqlQuery e M (remove_did_query did_id) d"

record sip_account =
  ac_trunk_name :: string
  ac_username :: string
  ac_domain :: string
  ac_webhook_url :: string
  ac_status :: string

definition accounts_query :: string where
  "accounts_query =
     ''SELECT e.id as trunk_name, e.from_user as username, e.from_domain as domain, '' @
     ''w.answer_webhook_url, CASE   WHEN r.id IS NOT NULL AND r.client_uri LIKE CONCAT('' @ sq ''sip:'' @
     '', e.from_user, '' @ sq ''@'' @ '', e.from_domain, '' @ sq ''%'' @ '')   THEN '' @ sq ''registered'' @
     ''   ELSE '' @ sq ''configured'' @ '' END as status FROM ps_endpoints e '' @
     ''LEFT JOIN trunk_webhooks w ON e.id = w.trunk_id LEFT JOIN ps_registrations r ON r.endpoint = e.id '' @
     ''WHERE e.id NOT LIKE '' @ sq ''pjsip%''"

definition column :: "row \<Rightarrow> nat \<Rightarrow> string \<Rightarrow> string" where
  "column r i dflt = (case r ! i of None \<Rightarrow> dflt | Some v \<Rightarrow> v)"

definition account_of_row :: "row \<Rightarrow> sip_account" where
  "account_of_row r =
     \<lparr>ac_trunk_name = column r 0 [], ac_username = column r 1 [], ac_domain = column r 2 [],
      ac_webhook_url = column r 3 [], ac_status = column r 4 ''unknown''\<rparr>"

definition db_getRegisteredAccounts :: "env \<Rightarrow> mysql \<Rightarrow> db \<Rightarrow> (sip_account list \<times> db) option" where
  "db_getRegisteredAccounts e M d =
     map_option (\<lambda>(rows, d1). (case rows of None \<Rightarrow> [] | Some rs \<Rightarrow> map account_of_row rs, d1))
       (executeSelectQuery e M accounts_query d)"

definition number_query :: "string \<Rightarrow> string" where
  "number_query number = ''SELECT answer_webhook_url FROM ps_provider_dids WHERE did = '' @ sq number"

definition db_getWebhookUrl :: "env \<Rightarrow> mysql \<Rightarrow> string \<Rightarrow> db \<Rightarrow> (string \<times> db) option" where
  "db_getWebhookUrl e M number d =
     map_option (\<lambda>(rows, d1). (case rows of Some (r # rs) \<Rightarrow> column r 0 [] | _ \<Rightarrow> [], d1))
       (executeSelectQuery e M (number_query number) d)"

section \<open>Statements that took effect\<close>

text \<open>The statements the server has run, in order, and how often it ran one whose answer was lost.\<close>

definition executed_sql :: "db \<Rightarrow> string list" where
  "executed_sql d = map fst (filter (\<lambda>(q, err, eff). eff) (db_log d))"

definition unanswered :: "string \<times> int \<times> bool \<Rightarrow> bool" where
  "unanswered e \<longleftrightarrow> fst (snd e) \<noteq> 0 \<and> snd (snd e)"

definition lost_runs :: "db \<Rightarrow> nat" where
  "lost_runs d = length (filter unanswered (db_log d))"

lemma connectToDatabase_log: "connectToDatabase e M d = Some (ok, d1) \<Longrightarrow> db_log d1 = db_log d \<and> db_conn d1 = ok"
  by (auto simp: connectToDatabase_def Let_def split: if_splits option.splits)

lemma disconnect_log: "db_log (disconnectFromDatabase d) = db_log d"
  by (simp add: disconnectFromDatabase_def)

lemma mysql_query_log: "mysql_query M q d = (err, d1) \<Longrightarrow>
   \<exists>eff. db_log d1 = db_log d @ [(c_str q, err, eff)] \<and> (err = 0 \<longrightarrow> eff) \<and> (eff \<longrightarrow> err = 0 \<or> err = CR_SERVER_LOST)"
  by (auto simp: mysql_query_def Let_def)

text \<open>What one execution adds to the log: nothing, one statement, or a lost one and its repetition.\<close>

definition logged :: "string \<Rightarrow> int \<Rightarrow> bool \<Rightarrow> bool" where
  "logged q err eff \<longleftrightarrow> (err = 0 \<longrightarrow> eff) \<and> (eff \<longrightarrow> err = 0 \<or> err = CR_SERVER_LOST)"

definition execution :: "string \<Rightarrow> bool \<Rightarrow> (string \<times> int \<times> bool) list \<Rightarrow> bool" where
  "execution q ok new \<longleftrightarrow> (new = [] \<and> \<not> ok)
     \<or> (\<exists>err eff. new = [(c_str q, err, eff)] \<and> logged q err eff \<and> ok = (err = 0))
     \<or> (\<exists>err eff. new = [(c_str q, err, eff)] \<and> logged q err eff \<and> connection_lost err \<and> \<not> ok)
     \<or> (\<exists>err eff err' eff'. new = [(c_str q, err, eff), (c_str q, err', eff')] \<and> logged q err eff \<and> logged q err' eff'
          \<and> connection_lost err \<and> ok = (err' = 0))"

lemma send_query_log:
  assumes "send_query e M q d = Some (ok, d1)"
  shows "\<exists>new. db_log d1 = db_log d @ new \<and> execution q ok new"
proof -
  obtain err d2 where q: "mysql_query M q d = (err, d2)" by (cases "mysql_query M q d")
  from mysql_query_log [OF q] obtain eff where l: "db_log d2 = db_log d @ [(c_str q, err, eff)]" "logged q err eff"
    by (auto simp: logged_def)
  show ?thesis
  proof (cases "err \<noteq> 0 \<and> connection_lost err")
    case False
    with assms q have "d1 = d2" "ok = (err = 0)" by (auto simp: send_query_def split: if_splits)
    with l show ?thesis by (auto simp: execution_def)
  next
    case True
    with assms q have "retry_query e M q d2 = Some (ok, d1)" by (simp add: send_query_def)
    then obtain up d3 where c: "connectToDatabase e M (disconnectFromDatabase d2) = Some (up, d3)"
      and r: "if up then (let (err, d2) = mysql_query M q d3 in Some (err = 0, d2)) = Some (ok, d1)
        else Some (False, d3) = Some (ok, d1)"
      by (auto simp: retry_query_def split: option.splits if_splits)
    have d3: "db_log d3 = db_log d @ [(c_str q, err, eff)]"
      using connectToDatabase_log [OF c] l by (simp add: disconnect_log)
    show ?thesis
    proof (cases up)
      case False
      with r d3 True l(2) show ?thesis by (auto simp: execution_def)
    next
      case t: True
      obtain err' d4 where q2: "mysql_query M q d3 = (err', d4)" by (cases "mysql_query M q d3")
      from mysql_query_log [OF q2] obtain eff' where "db_log d4 = db_log d3 @ [(c_str q, err', eff')]" "logged q err' eff'"
        by (auto simp: logged_def)
      with r t q2 d3 True l(2) show ?thesis by (auto simp: execution_def)
    qed
  qed
qed

lemma executeSqlQuery_log:
  assumes "executeSqlQuery e M q d = Some (ok, d1)"
  shows "\<exists>new. db_log d1 = db_log d @ new \<and> execution q ok new"
proof (cases "db_conn d")
  case True
  with assms send_query_log show ?thesis by (simp add: executeSqlQuery_def)
next
  case False
  then obtain up d2 where c: "connectToDatabase e M d = Some (up, d2)"
    and r: "(if up then send_query e M q d2 else Some (False, d2)) = Some (ok, d1)"
    using assms by (auto simp: executeSqlQuery_def split: option.splits)
  note l = connectToDatabase_log [OF c]
  show ?thesis
  proof (cases up)
    case True
    with r send_query_log [of e M q d2 ok d1] l show ?thesis by simp
  next
    case False
    with r l show ?thesis by (auto simp: execution_def)
  qed
qed

lemma execution_runs:
  assumes "db_log d1 = db_log d @ new" and "execution q ok new"
  shows "\<exists>lost. lost_runs d1 = lost_runs d + lost \<and> (if ok then 1 else 0) + lost \<le> 2
    \<and> executed_sql d1 = executed_sql d @ replicate ((if ok then 1 else 0) + lost) (c_str q)"
proof -
  have "\<exists>lost. length (filter unanswered new) = lost \<and> (if ok then 1 else 0) + lost \<le> 2
    \<and> map fst (filter (\<lambda>(q, err, eff). eff) new) = replicate ((if ok then 1 else 0) + lost) (c_str q)"
    using assms(2)
    by (auto simp: execution_def logged_def unanswered_def connection_lost_def CR_SERVER_GONE_ERROR_def
        CR_SERVER_LOST_def numeral_2_eq_2)
  with assms(1) show ?thesis by (auto simp: executed_sql_def lost_runs_def)
qed

lemma executeSqlQuery_runs:
  assumes "executeSqlQuery e M q d = Some (ok, d1)"
  obtains lost where "lost_runs d1 = lost_runs d + lost" and "(if ok then 1 else 0) + lost \<le> 2"
    and "executed_sql d1 = executed_sql d @ replicate ((if ok then 1 else 0) + lost) (c_str q)"
  using executeSqlQuery_log [OF assms] execution_runs by metis

text \<open>Statements in a row: those acknowledged, each with the number of times it ran, and how often the
  one refused ran.\<close>

definition unroll :: "(string \<times> nat) list \<Rightarrow> string list" where
  "unroll runs = concat (map (\<lambda>(q, n). replicate n (c_str q)) runs)"

lemma unroll_simps [simp]: "unroll [] = []" "unroll ((q, n) # runs) = replicate n (c_str q) @ unroll runs"
  by (simp_all add: unroll_def)

definition runs_of :: "string list \<Rightarrow> bool \<Rightarrow> db \<Rightarrow> db \<Rightarrow> (string \<times> nat) list \<Rightarrow> nat \<Rightarrow> bool" where
  "runs_of qs ok d d1 runs k \<longleftrightarrow>
     prefix (map fst runs) qs \<and> (\<forall>(q, n) \<in> set runs. 1 \<le> n \<and> n \<le> 2) \<and> ok = (map fst runs = qs) \<and> (ok \<longrightarrow> k = 0) \<and> k \<le> 2
     \<and> executed_sql d1 = executed_sql d @ unroll runs @ (if ok then [] else replicate k (c_str (qs ! length runs)))
     \<and> lost_runs d \<le> lost_runs d1 \<and> (lost_runs d1 = lost_runs d \<longrightarrow> (\<forall>(q, n) \<in> set runs. n = 1) \<and> k = 0)"

lemma execute_all_runs:
  "execute_all e M qs d = Some (ok, d1) \<Longrightarrow> \<exists>runs k. runs_of qs ok d d1 runs k"
proof (induction qs arbitrary: d)
  case Nil
  then show ?case by (intro exI [of _ "[]"] exI [of _ 0]) (simp add: runs_of_def)
next
  case (Cons q qs)
  obtain ok1 d2 where x: "executeSqlQuery e M q d = Some (ok1, d2)"
    and r: "(if ok1 then execute_all e M qs d2 else Some (False, d2)) = Some (ok, d1)"
    using Cons.prems by (auto split: option.splits)
  obtain lost where l: "lost_runs d2 = lost_runs d + lost" "(if ok1 then 1 else 0) + lost \<le> 2"
    "executed_sql d2 = executed_sql d @ replicate ((if ok1 then 1 else 0) + lost) (c_str q)"
    using executeSqlQuery_runs [OF x] by blast
  show ?case
  proof (cases ok1)
    case True
    with r Cons.IH [of d2] obtain runs k where "runs_of qs ok d2 d1 runs k" by auto
    with True l show ?thesis
      by (intro exI [of _ "(q, Suc lost) # runs"] exI [of _ k]) (auto simp: runs_of_def)
  next
    case False
    with r l show ?thesis by (intro exI [of _ "[]"] exI [of _ lost]) (auto simp: runs_of_def)
  qed
qed

section \<open>String literals\<close>

text \<open>How the server reads a string literal, from behind its opening quote: the contents and the rest of
  the statement. A doubled quote and a backslash escape; other escapes than these are read as the
  character itself.\<close>

fun sql_literal :: "string \<Rightarrow> (string \<times> string) option" where
  "sql_literal [] = None"
| "sql_literal (c # s) =
     (if c = SQ
      then (case s of
              d # t \<Rightarrow> (if d = SQ then map_option (\<lambda>(x, r). (SQ # x, r)) (sql_literal t) else Some ([], s))
            | [] \<Rightarrow> Some ([], []))
      else if c = CHR 0x5C
      then (case s of d # t \<Rightarrow> map_option (\<lambda>(x, r). (d # x, r)) (sql_literal t) | [] \<Rightarrow> None)
      else map_option (\<lambda>(x, r). (c # x, r)) (sql_literal s))"

definition plain_text :: "string \<Rightarrow> bool" where
  "plain_text s \<longleftrightarrow> SQ \<notin> set s \<and> CHR 0x5C \<notin> set s"

lemma sql_literal_plain:
  assumes "plain_text s" and "t = [] \<or> hd t \<noteq> SQ"
  shows "sql_literal (s @ SQ # t) = Some (s, t)"
  using assms(1)
proof (induction s)
  case Nil
  from assms(2) show ?case by (cases t) auto
next
  case (Cons c s)
  then have "c \<noteq> SQ" "c \<noteq> CHR 0x5C" "sql_literal (s @ SQ # t) = Some (s, t)" by (auto simp: plain_text_def)
  then show ?case by simp
qed

section \<open>Properties\<close>

text \<open>C28: What an execution leaves on the server: the statement has run once more if the result is true and
  not at all if it is false, plus once for every time it ran and its answer was lost; at most twice
  in all. It is sent at most twice, and a second time only after the connection was lost.\<close>

theorem execute_outcome:
  assumes "executeSqlQuery e M q d = Some (ok, d1)"
  shows "\<exists>lost. lost_runs d1 = lost_runs d + lost \<and> (if ok then 1 else 0) + lost \<le> 2
    \<and> executed_sql d1 = executed_sql d @ replicate ((if ok then 1 else 0) + lost) (c_str q)
    \<and> (\<exists>new. db_log d1 = db_log d @ new \<and> length new \<le> 2 \<and> fst ` set new \<subseteq> {c_str q}
         \<and> (length new = 2 \<longrightarrow> connection_lost (fst (snd (hd new)))))"
proof -
  obtain lost where l: "lost_runs d1 = lost_runs d + lost" "(if ok then 1 else 0) + lost \<le> 2"
    "executed_sql d1 = executed_sql d @ replicate ((if ok then 1 else 0) + lost) (c_str q)"
    using executeSqlQuery_runs [OF assms] by blast
  obtain new where "db_log d1 = db_log d @ new" "execution q ok new" using executeSqlQuery_log [OF assms] by blast
  then have "\<exists>new. db_log d1 = db_log d @ new \<and> length new \<le> 2 \<and> fst ` set new \<subseteq> {c_str q}
         \<and> (length new = 2 \<longrightarrow> connection_lost (fst (snd (hd new))))"
    by (intro exI [of _ new]) (auto simp: execution_def)
  with l show ?thesis by blast
qed

definition demo_mysql :: "int list \<Rightarrow> mysql" where
  "demo_mysql errs = \<lparr>my_init = (\<lambda>_. True), my_connect = (\<lambda>_ _. True),
     my_errno = (\<lambda>i. if i < length errs then errs ! i else 0), my_lost_ran = (\<lambda>_. True),
     my_result = (\<lambda>_. None)\<rparr>"

definition demo_db :: db where
  "demo_db = \<lparr>db_conn = True, db_connects = 1, db_log = []\<rparr>"

lemmas demo_sql_defs = demo_mysql_def demo_db_def mysql_query_def connection_lost_def CR_SERVER_GONE_ERROR_def
  CR_SERVER_LOST_def

lemma execute_outcome_witness:
  "\<exists>d1 lost. executeSqlQuery Map.empty (demo_mysql [2013]) ''q'' demo_db = Some (True, d1)
     \<and> lost_runs d1 = lost \<and> executed_sql d1 = replicate (1 + lost) ''q''"
proof -
  have "\<exists>d1. executeSqlQuery Map.empty (demo_mysql [2013]) ''q'' demo_db = Some (True, d1)"
    by (simp add: executeSqlQuery_def send_query_def retry_query_def connectToDatabase_def disconnectFromDatabase_def
        db_params_def getEnvInt_def demo_sql_defs Let_def)
  then obtain d1 where x: "executeSqlQuery Map.empty (demo_mysql [2013]) ''q'' demo_db = Some (True, d1)" by blast
  have "c_str ''q'' = ''q''" by code_simp
  with execute_outcome [OF x] x show ?thesis
    by (auto simp: executed_sql_def lost_runs_def demo_db_def simp del: replicate.simps)
qed

text \<open>So a statement can run twice and be reported as done, and can run and be reported as failed: after
  a lost answer it is sent again, although it may have run.\<close>

lemma lost_answer_runs_twice:
  "\<exists>d1. executeSqlQuery Map.empty (demo_mysql [2013]) ''q'' demo_db = Some (True, d1) \<and> executed_sql d1 = [''q'', ''q'']"
  "\<exists>d1. executeSqlQuery Map.empty (demo_mysql [2013, 1062]) ''q'' demo_db = Some (False, d1) \<and> executed_sql d1 = [''q'']"
proof -
  have "c_str ''q'' = ''q''" by code_simp
  then show "\<exists>d1. executeSqlQuery Map.empty (demo_mysql [2013]) ''q'' demo_db = Some (True, d1) \<and> executed_sql d1 = [''q'', ''q'']"
    "\<exists>d1. executeSqlQuery Map.empty (demo_mysql [2013, 1062]) ''q'' demo_db = Some (False, d1) \<and> executed_sql d1 = [''q'']"
    by (simp_all add: executeSqlQuery_def send_query_def retry_query_def connectToDatabase_def disconnectFromDatabase_def
        db_params_def getEnvInt_def demo_sql_defs executed_sql_def Let_def)
qed

text \<open>Adding a provider is not atomic: the server has run a beginning of its statements, and it succeeds
  exactly when that is all of them. What a failed attempt left behind is not removed.\<close>

lemma add_provider_runs:
  assumes "db_addProvider e M name user pass domain port with_reg d = Some (ok, d1)"
  shows "\<exists>runs k. runs_of (provider_queries name user pass domain port with_reg) ok d d1 runs k"
  using execute_all_runs assms by (simp add: db_addProvider_def)

text \<open>The statement that removes a DID can be rewritten by its argument: a quote in the id ends the
  literal early, and the server reads what follows it as part of the statement.\<close>

lemma remove_did_injectable:
  assumes "plain_text a" and "hd b \<noteq> SQ" and "b \<noteq> []"
  shows "\<exists>s. remove_did_query (a @ SQ # b) = ''DELETE FROM ps_provider_dids WHERE id = '' @ SQ # s
    \<and> sql_literal s = Some (a, b @ [SQ])"
  using sql_literal_plain [OF assms(1), of "b @ [SQ]"] assms(2,3)
  by (simp add: remove_did_query_def sq_def)

end
