(* ===== verification/Account.thy ===== *)
theory Account
  imports Http_Json Db_Manager
begin

text \<open>
  The incoming side of \<^verbatim>\<open>MyAccount\<close> in \<^verbatim>\<open>account.cpp\<close>: what is read out of an INVITE, and where the
  answer to \<open>which agent takes this call\<close> comes from. The creation of the call is with the call
  manager, which owns the calls.
\<close>

section \<open>Reading the INVITE\<close>

definition blank :: "char \<Rightarrow> bool" where
  "blank c \<longleftrightarrow> c = CHR '' '' \<or> c = TAB \<or> c = CR \<or> c = LF"

definition number_char :: "char \<Rightarrow> bool" where
  "number_char c \<longleftrightarrow> is_digit c \<or> c = CHR ''+''"

definition cleanPhoneNumber :: "string \<Rightarrow> string" where
  "cleanPhoneNumber number = filter number_char (trim_with blank number)"

definition trim :: "string \<Rightarrow> string" where
  "trim s = trim_with is_space s"

text \<open>The rest of the line behind a marker found at a position; without a line end, all the rest.\<close>

definition rest_of_line :: "string \<Rightarrow> nat \<Rightarrow> nat \<Rightarrow> string" where
  "rest_of_line msg pos len =
     (case str_find_from [CR, LF] msg pos of
        None \<Rightarrow> drop (pos + len) msg
      | Some fin \<Rightarrow> take (fin - (pos + len)) (drop (pos + len) msg))"

definition trunk_of :: "string \<Rightarrow> string" where
  "trunk_of msg =
     (case str_find ''X-Trunk:'' msg of
        None \<Rightarrow> []
      | Some pos \<Rightarrow> trim (trim_with blank (rest_of_line msg pos 8)))"

definition to_number_of :: "string \<Rightarrow> string + string" where
  "to_number_of msg =
     (case str_find ''X-To-Number:'' msg of
        None \<Rightarrow> Inl ''Missing X-To-Number header''
      | Some pos \<Rightarrow> Inr (cleanPhoneNumber (rest_of_line msg pos 12)))"

definition from_number_of :: "string \<Rightarrow> string" where
  "from_number_of msg =
     (case str_find ''P-Asserted-Identity:'' msg of
        None \<Rightarrow> []
      | Some pai \<Rightarrow>
          (case str_find_from ''sip:'' msg pai of
             None \<Rightarrow> []
           | Some sip \<Rightarrow>
               (case str_find_from ''@'' msg sip of
                  None \<Rightarrow> []
                | Some at \<Rightarrow> cleanPhoneNumber (take (at - (sip + 4)) (drop (sip + 4) msg)))))"

text \<open>From, to and trunk.\<close>

definition parse_invite :: "string \<Rightarrow> string + string \<times> string \<times> string" where
  "parse_invite msg =
     on_ok (to_number_of msg) (\<lambda>to.
       if from_number_of msg = [] \<or> to = [] then Inl ''Failed to get valid phone numbers''
       else Inr (from_number_of msg, to, trunk_of msg))"

section \<open>Asking which agent answers\<close>

text \<open>curl's initialisation and outcome, with the response body.\<close>

record webhook_answer =
  wa_init :: bool
  wa_ok :: bool
  wa_body :: string

definition DEFAULT_ANSWER_WEBHOOK :: string where
  "DEFAULT_ANSWER_WEBHOOK = ''https://api.vocallabs.ai/sip-answer-webhook''"

definition answer_payload :: "string \<Rightarrow> string \<Rightarrow> string \<Rightarrow> string \<Rightarrow> jv" where
  "answer_payload call_id from to trunk =
     JvObj [(''call_id'', JvStr call_id), (''from_number'', JvStr from), (''to_number'', JvStr to), (''trunk_name'', JvStr trunk)]"

text \<open>The WebSocket and webhook URLs of the call, the request that was made for them, and the database
  singleton, which the lookup may have made.\<close>

definition lookup_answer_url ::
  "env \<Rightarrow> mysql \<Rightarrow> string \<Rightarrow> db option \<Rightarrow> (string + string) \<times> db option" where
  "lookup_answer_url e M to inst =
     (let (found, inst1) = use_db e M (db_getWebhookUrl e M to) inst
      in (on_ok found (\<lambda>url. Inr (if url = [] then DEFAULT_ANSWER_WEBHOOK else url)), inst1))"

definition read_answer :: "'j json_libs \<Rightarrow> webhook_answer \<Rightarrow> string + string \<times> string" where
  "read_answer L a =
     (if wa_ok a
      then on_ok (jl_parse L (wa_body a)) (\<lambda>j.
           on_ok (jl_value_string L j ''websocket_url'' []) (\<lambda>ws.
           on_ok (jl_value_string L j ''webhook_url'' []) (\<lambda>hook.
             if ws = [] then Inl ''Empty websocket_url in response'' else Inr (ws, hook))))
      else Inl ''Curl request failed'')"

definition answer_urls ::
  "'j json_libs \<Rightarrow> env \<Rightarrow> mysql \<Rightarrow> webhook_answer \<Rightarrow> string \<Rightarrow> string \<times> string \<times> string \<Rightarrow> db option
     \<Rightarrow> (string + string \<times> string) \<times> (string \<times> jv) list \<times> db option" where
  "answer_urls L e M a call_id parsed inst =
     (let (from, to, trunk) = parsed
      in if trunk = ''test_sipp'' then (Inr (''wss://call-in.vocallabs.ai/wstest'', []), [], inst)
         else if \<not> wa_init a then (Inl ''Failed to initialize CURL'', [], inst)
         else
           (case lookup_answer_url e M to inst of
              (Inl err, inst1) \<Rightarrow> (Inl err, [], inst1)
            | (Inr url, inst1) \<Rightarrow> (read_answer L a, [(url, answer_payload call_id from to trunk)], inst1)))"

section \<open>Facts\<close>

lemma number_char_not_blank: "number_char c \<Longrightarrow> \<not> blank c"
proof -
  have "CHR ''+'' \<noteq> TAB" "CHR ''+'' \<noteq> CR" "CHR ''+'' \<noteq> LF" by code_simp+
  moreover have "\<not> is_digit (CHR '' '')" "\<not> is_digit TAB" "\<not> is_digit CR" "\<not> is_digit LF" by code_simp+
  ultimately show "number_char c \<Longrightarrow> \<not> blank c" by (auto simp: number_char_def blank_def)
qed

lemma filter_dropWhile: "(\<And>c. p c \<Longrightarrow> \<not> q c) \<Longrightarrow> filter q (dropWhile p s) = filter q s"
  by (induction s) auto

lemma filter_trim_with: "(\<And>c. p c \<Longrightarrow> \<not> q c) \<Longrightarrow> filter q (trim_with p s) = filter q s"
  by (simp add: trim_with_def erase_front_def erase_back_def filter_dropWhile rev_filter [symmetric])

lemma cleanPhoneNumber_filter: "cleanPhoneNumber s = filter number_char s"
  unfolding cleanPhoneNumber_def by (rule filter_trim_with) (use number_char_not_blank in blast)

lemma cleanPhoneNumber_plain: "plain_text (cleanPhoneNumber s)"
proof -
  have "\<not> number_char SQ" "\<not> number_char (CHR 0x5C)" by code_simp+
  then show ?thesis by (auto simp: plain_text_def cleanPhoneNumber_filter)
qed

lemma parse_invite_Inr:
  assumes "parse_invite msg = Inr (from, to, trunk)"
  shows "from \<noteq> []" "to \<noteq> []" "list_all number_char to" "plain_text to"
proof -
  obtain pos where "str_find ''X-To-Number:'' msg = Some pos" and t: "to = cleanPhoneNumber (rest_of_line msg pos 12)"
    using assms by (auto simp: parse_invite_def to_number_of_def on_ok_Inr split: option.splits if_splits)
  show "from \<noteq> []" "to \<noteq> []" using assms by (auto simp: parse_invite_def on_ok_Inr split: if_splits)
  show "list_all number_char to" by (auto simp: t cleanPhoneNumber_filter list_all_iff)
  show "plain_text to" by (simp add: t cleanPhoneNumber_plain)
qed

lemma drop_past: "length m = n \<Longrightarrow> drop (length pre + (n + length b)) (pre @ m @ b @ t) = t"
  by simp

section \<open>Properties\<close>

text \<open>C30: An incoming call cannot inject SQL: whatever the INVITE says, when it is accepted the called
  number is a non-empty string of digits and plus signs, and the lookup statement ends with exactly
  that number as its literal.\<close>

theorem lookup_not_injectable:
  assumes "parse_invite msg = Inr (from, to, trunk)"
  shows "to \<noteq> [] \<and> list_all (\<lambda>c. is_digit c \<or> c = CHR ''+'') to
    \<and> (\<exists>s. number_query to = ''SELECT answer_webhook_url FROM ps_provider_dids WHERE did = '' @ SQ # s
         \<and> sql_literal s = Some (to, []))"
proof -
  note p = parse_invite_Inr [OF assms]
  have "list_all (\<lambda>c. is_digit c \<or> c = CHR ''+'') to"
    using p(3) by (simp add: number_char_def list_all_iff)
  with p(2) sql_literal_plain [OF p(4), of "[]"] show ?thesis by (simp add: number_query_def sq_def)
qed

definition demo_invite :: string where
  "demo_invite = ''X-To-Number: 91-1; DROP'' @ [CR, LF] @ ''P-Asserted-Identity: <sip:+9199@a>'' @ [CR, LF]"

lemma demo_invite_parsed: "parse_invite demo_invite = Inr (''+9199'', ''911'', [])"
  by code_simp

lemma lookup_not_injectable_witness:
  "\<exists>s. number_query ''911'' = ''SELECT answer_webhook_url FROM ps_provider_dids WHERE did = '' @ SQ # s
     \<and> sql_literal s = Some (''911'', [])"
  using lookup_not_injectable [OF demo_invite_parsed] by blast

text \<open>The caller's number is what stands between the first \<open>sip:\<close> and the next at sign anywhere behind
  the P-Asserted-Identity header, also when that header has a \<open>tel:\<close> URI and the number belongs to a
  header that follows it.\<close>

lemma caller_id_first_sip:
  assumes "msg = pre @ ''P-Asserted-Identity:'' @ between @ ''sip:'' @ num @ CHR ''@'' # rest"
    and "str_find ''P-Asserted-Identity:'' msg = Some (length pre)"
    and "str_find ''sip:'' (''P-Asserted-Identity:'' @ between @ ''sip:'' @ num @ CHR ''@'' # rest) = Some (20 + length between)"
    and "CHR ''@'' \<notin> set num"
  shows "from_number_of msg = filter (\<lambda>c. is_digit c \<or> c = CHR ''+'') num"
proof -
  let ?sip = "length pre + (20 + length between)"
  have "drop (length pre) msg = ''P-Asserted-Identity:'' @ between @ ''sip:'' @ num @ CHR ''@'' # rest"
    by (simp add: assms(1))
  then have s: "str_find_from ''sip:'' msg (length pre) = Some ?sip"
    using assms(1,3) by (simp add: str_find_from_def)
  have d: "drop ?sip msg = ''sip:'' @ num @ CHR ''@'' # rest"
    unfolding assms(1) by (rule drop_past) simp
  have "CHR ''@'' \<notin> set (''sip:'' @ num)" using assms(4) by simp
  from str_find_char [OF this, of rest] have "str_find ''@'' (drop ?sip msg) = Some (4 + length num)"
    unfolding d by simp
  then have a: "str_find_from ''@'' msg ?sip = Some (?sip + (4 + length num))"
    using assms(1) by (simp add: str_find_from_def)
  have "drop (?sip + 4) msg = drop 4 (drop ?sip msg)" by (simp add: add.commute)
  then have "take (?sip + (4 + length num) - (?sip + 4)) (drop (?sip + 4) msg) = num" unfolding d by simp
  moreover have "cleanPhoneNumber num = filter (\<lambda>c. is_digit c \<or> c = CHR ''+'') num"
    by (simp add: cleanPhoneNumber_filter number_char_def [abs_def])
  ultimately show ?thesis using assms(2) s a by (simp add: from_number_of_def)
qed

end
