(* ===== verification/Call_Manager.thy ===== *)
theory Call_Manager
  imports Call Simulated_Call Account "HOL-Library.AList"
begin

text \<open>
  \<^verbatim>\<open>CallManager\<close> of \<^verbatim>\<open>call_manager.cpp\<close>: the process-wide owner of the calls. It admits, places and
  ends calls, counts them, and answers the HTTP API; \<^verbatim>\<open>onIncomingCall\<close> of \<^verbatim>\<open>account.cpp\<close> adds the
  calls that come in. The maps of the class are association lists from keys to what they own: an
  endpoint or a null pointer, the address of a call in the heap, a simulated call.
\<close>

record endpoint =
  ep_initialized :: bool
  ep_answer_webhook :: string

record manager =
  mg_endpoints :: "(string \<times> endpoint option) list"
  mg_active :: "(string \<times> nat) list"
  mg_sims :: "(string \<times> sim) list"
  mg_current :: int
  mg_answered :: int
  mg_max :: int

text \<open>What surrounds a request: the environment, a fresh identifier and address, the time, whether
  \<^verbatim>\<open>makeCall\<close> succeeds, and what a simulated call meets.\<close>

record mg_ctx =
  cx_env :: env
  cx_uuid :: string
  cx_addr :: nat
  cx_now :: int
  cx_make_ok :: bool
  cx_fs :: file_system
  cx_conn :: conn
  cx_stamp :: string
  cx_fmt :: "int \<Rightarrow> string"
  cx_um :: upload_mgr
  cx_can_open :: "string \<Rightarrow> bool"

record dial =
  d_target :: string
  d_headers :: "(string \<times> string) list"

datatype mg_effect = Dial nat dial | SimFx sim_effect | SpawnHangup nat | SpawnTerminate sim
  | Refer nat string | HangUp nat | AskWebhook string jv | AnswerCall nat | Reject500
  | ShutdownAccount string | StopWebhooks | DestroyCall nat | LibDestroy

section \<open>Counting\<close>

definition decrementCallCounter :: "manager \<Rightarrow> manager" where
  "decrementCallCounter m = m\<lparr>mg_current := mg_current m - 1\<rparr>"

definition incrementAnsweredCallsCount :: "manager \<Rightarrow> manager" where
  "incrementAnsweredCallsCount m = m\<lparr>mg_answered := mg_answered m + 1\<rparr>"

definition getAnsweredCallsCount :: "manager \<Rightarrow> int" where
  "getAnsweredCallsCount m = mg_answered m"

text \<open>The calls into the manager that calls and simulated calls make.\<close>

fun count_call :: "call_effect list \<Rightarrow> manager \<Rightarrow> manager" where
  "count_call [] m = m"
| "count_call (CountDown # es) m = count_call es (decrementCallCounter m)"
| "count_call (CountAnswered # es) m = count_call es (incrementAnsweredCallsCount m)"
| "count_call (e # es) m = count_call es m"

fun count_sim :: "sim_effect list \<Rightarrow> manager \<Rightarrow> manager" where
  "count_sim [] m = m"
| "count_sim (SimCountDown # es) m = count_sim es (decrementCallCounter m)"
| "count_sim (e # es) m = count_sim es m"

section \<open>Placing calls\<close>

definition isValidPhoneNumber :: "string \<Rightarrow> bool" where
  "isValidPhoneNumber s \<longleftrightarrow> 10 \<le> length s \<and> length s \<le> 15 \<and> list_all is_digit s"

definition TRUNK_DID :: string where "TRUNK_DID = ''919484952308''"

definition asterisk_ip :: "env \<Rightarrow> string" where
  "asterisk_ip e = getEnvString e ''ASTERISK_IP'' ''100.28.249.26''"

definition public_ip :: "env \<Rightarrow> string" where
  "public_ip e = getEnvString e ''PUBLIC_IP'' ''3.108.51.244''"

definition sip_username :: "env \<Rightarrow> string" where
  "sip_username e = getEnvString e ''SIP_USERNAME'' ''india_media''"

definition own_endpoint :: "env \<Rightarrow> string" where
  "own_endpoint e = sip_username e @ ''@'' @ asterisk_ip e"

definition dial_through :: "env \<Rightarrow> string \<Rightarrow> string \<Rightarrow> string \<Rightarrow> dial" where
  "dial_through e number trunk uuid =
     \<lparr>d_target = ''sip:'' @ number @ ''@'' @ asterisk_ip e,
      d_headers = [(''X-Trunk'', trunk), (''X-Call-UUID'', uuid),
        (''From'', [DQ] @ ''+'' @ TRUNK_DID @ [DQ] @ '' <sip:+'' @ TRUNK_DID @ ''@'' @ asterisk_ip e @ ''>''),
        (''Contact'', ''<sip:+'' @ TRUNK_DID @ ''@'' @ public_ip e @ '':34222>''),
        (''User-Agent'', ''DirectRTP-MediaServer/1.0'')]\<rparr>"

text \<open>\<^verbatim>\<open>endpoints[key]\<close>: a missing key is inserted with a null pointer.\<close>

definition touch_endpoint :: "string \<Rightarrow> manager \<Rightarrow> endpoint option \<times> manager" where
  "touch_endpoint key m =
     (case map_of (mg_endpoints m) key of
        Some ep \<Rightarrow> (ep, m)
      | None \<Rightarrow> (None, m\<lparr>mg_endpoints := AList.update key None (mg_endpoints m)\<rparr>))"

definition endpoint_ready :: "endpoint option \<Rightarrow> bool" where
  "endpoint_ready ep = (case ep of None \<Rightarrow> False | Some x \<Rightarrow> ep_initialized x)"

text \<open>Dialling a call that was made, and owning it if that succeeds.\<close>

definition place_leg :: "mg_ctx \<Rightarrow> string \<Rightarrow> string \<Rightarrow> mycall \<Rightarrow> manager \<times> call_heap \<Rightarrow> bool \<times> (manager \<times> call_heap) \<times> mg_effect list" where
  "place_leg C number trunk c W =
     (let (m, H) = W; a = cx_addr C; d = Dial a (dial_through (cx_env C) number trunk (cx_uuid C))
      in if \<not> cx_make_ok C then (False, W, [d])
         else (True, (m\<lparr>mg_active := AList.update (cx_uuid C) a (mg_active m), mg_current := mg_current m + 1\<rparr>,
                      H(a \<mapsto> c)), [d]))"

record call_request =
  rq_phone :: string
  rq_ws_url :: string
  rq_webhook_url :: string
  rq_trunk :: string
  rq_rate :: int

definition read_request :: "'j json_libs \<Rightarrow> env \<Rightarrow> string \<Rightarrow> string + call_request" where
  "read_request L e text =
     on_ok (jl_parse L text) (\<lambda>j.
     on_ok (jl_strings L j [''phone_number'', ''websocket_url'', ''webhook_url'', ''trunk_name'']) (\<lambda>vs.
     on_ok (env_int e ''SAMPLE_RATE'' 8000) (\<lambda>dflt.
     on_ok (jl_value_int L j ''sample_rate'' dflt) (\<lambda>rate.
       Inr \<lparr>rq_phone = vs ! 0, rq_ws_url = vs ! 1, rq_webhook_url = vs ! 2, rq_trunk = vs ! 3, rq_rate = rate\<rparr>))))"

definition calls_full :: "env \<Rightarrow> manager \<Rightarrow> string + bool" where
  "calls_full e m = on_ok (env_int e ''MAX_CONCURRENT_CALLS'' 25) (\<lambda>max_calls. Inr (max_calls \<le> mg_current m))"

definition simulated_body :: "call_request \<Rightarrow> string \<Rightarrow> body" where
  "simulated_body R uuid =
     success_body ''Simulated call initiated''
       [(''call_id'', JvStr uuid), (''sample_rate'', JvInt (rq_rate R)), (''webhook_url'', JvStr (rq_webhook_url R))]"

definition initiated_body :: "env \<Rightarrow> int \<Rightarrow> call_request \<Rightarrow> string \<Rightarrow> body" where
  "initiated_body e http_port R uuid =
     success_body ''Call initiated with direct RTP''
       [(''call_id'', JvStr uuid),
        (''rtp_range'', JvStr (getEnvString e ''RTP_PORT_START'' ''4000'' @ ''-'' @ getEnvString e ''RTP_PORT_END'' ''4999'')),
        (''container_id'', JvStr (sip_username e @ ''-'' @ public_ip e @ ''-'' @ to_string http_port)),
        (''sample_rate'', JvInt (rq_rate R)), (''webhook_url'', JvStr (rq_webhook_url R))]"

text \<open>A simulated call. One that does not start is destroyed at once; it has no recording to upload.\<close>

definition simulate_call :: "mg_ctx \<Rightarrow> call_request \<Rightarrow> manager \<times> call_heap
    \<Rightarrow> (response option \<times> (manager \<times> call_heap) \<times> mg_effect list) option" where
  "simulate_call C R W =
     (let (m, H) = W;
          (ok, s, es) = sim_start (cx_fs C) (cx_conn C) (cx_stamp C) (cx_fmt C) (cx_now C)
            (new_sim (cx_uuid C) (rq_ws_url R) (rq_webhook_url R) (rq_rate R) (rq_trunk R) (cx_now C))
      in if ok
         then Some (Some (Response OK (simulated_body R (cx_uuid C))),
                (m\<lparr>mg_sims := AList.update (cx_uuid C) s (mg_sims m), mg_current := mg_current m + 1\<rparr>, H), map SimFx es)
         else
           (case destroy_sim (cx_can_open C) (cx_fmt C) (cx_now C) (s, cx_um C) of
              Destroyed um ds \<Rightarrow>
                Some (Some (Response SERVER_ERROR (Text ''Failed to start simulated call'')), (count_sim ds m, H),
                      map SimFx (es @ ds))
            | _ \<Rightarrow> None))"

definition dialled_call :: "mg_ctx \<Rightarrow> call_request \<Rightarrow> mycall" where
  "dialled_call C R =
     (new_call (rq_ws_url R) (cx_uuid C) (rq_webhook_url R) (rq_trunk R) (cx_now C) (rq_rate R)
        (str_contains ''rupture'' (rq_ws_url R)))\<lparr>endpoint_key := own_endpoint (cx_env C)\<rparr>"

text \<open>A real call. When \<^verbatim>\<open>makeCall\<close> throws, the handler returns without a response.\<close>

definition dial_call :: "mg_ctx \<Rightarrow> call_request \<Rightarrow> manager \<times> call_heap
    \<Rightarrow> response option \<times> (manager \<times> call_heap) \<times> mg_effect list" where
  "dial_call C R W =
     (let e = cx_env C; (m, H) = W
      in case env_int e ''HTTP_PORT'' 8086 of
           Inl err \<Rightarrow> (Some (Response SERVER_ERROR (Text (''Error initiating call: '' @ err))), W, [])
         | Inr http_port \<Rightarrow>
             (let (ep, m1) = touch_endpoint (own_endpoint e) m
              in if \<not> endpoint_ready ep
                 then (Some (Response SERVER_ERROR (Text ''Error initiating call: Asterisk endpoint not initialized'')), (m1, H), [])
                 else
                   (let (ok, W1, es) = place_leg C (rq_phone R) (rq_trunk R) (dialled_call C R) (m1, H)
                    in (if ok then Some (Response OK (initiated_body e http_port R (cx_uuid C))) else None, W1, es))))"

text \<open>The handler behind the admission check.\<close>

definition serve_call :: "'j json_libs \<Rightarrow> mg_ctx \<Rightarrow> string \<Rightarrow> manager \<times> call_heap
    \<Rightarrow> (response option \<times> (manager \<times> call_heap) \<times> mg_effect list) option" where
  "serve_call L C text W =
     (case read_request L (cx_env C) text of
        Inl err \<Rightarrow> Some (Some (Response SERVER_ERROR (Text (''Error initiating call: '' @ err))), W, [])
      | Inr R \<Rightarrow>
          if \<not> isValidPhoneNumber (rq_phone R) \<or> rq_trunk R = []
          then Some (Some (Response BAD_REQUEST (Text ''Invalid or missing parameters'')), W, [])
          else if rq_rate R \<noteq> 8000 \<and> rq_rate R \<noteq> 16000
          then Some (Some (Response BAD_REQUEST (Text ''Invalid sample rate. Must be 8000 or 16000'')), W, [])
          else if rq_trunk R = ''tata_byebye'' then simulate_call C R W
          else Some (dial_call C R W))"

definition initiateCall :: "'j json_libs \<Rightarrow> mg_ctx \<Rightarrow> string \<Rightarrow> manager \<times> call_heap
    \<Rightarrow> (response option \<times> (manager \<times> call_heap) \<times> mg_effect list) option" where
  "initiateCall L C text W =
     (case calls_full (cx_env C) (fst W) of
        Inl err \<Rightarrow> Some (Some (Response SERVER_ERROR (Text (''Error initiating call: '' @ err))), W, [])
      | Inr full \<Rightarrow>
          if full then Some (Some (Response UNAVAILABLE (Text ''Maximum concurrent calls reached'')), W, [])
          else serve_call L C text W)"

section \<open>Ending calls\<close>

definition endCall :: "string \<Rightarrow> manager \<Rightarrow> response \<times> manager \<times> mg_effect list" where
  "endCall call_id m =
     (case map_of (mg_sims m) call_id of
        Some s \<Rightarrow>
          (Response OK (Text ''Call end initiated''), m\<lparr>mg_sims := AList.delete call_id (mg_sims m)\<rparr>, [SpawnTerminate s])
      | None \<Rightarrow>
          (case map_of (mg_active m) call_id of
             None \<Rightarrow> (Response NOT_FOUND (Text ''Call not found''), m, [])
           | Some a \<Rightarrow>
               (Response OK (Text ''Call end initiated''), m\<lparr>mg_active := AList.delete call_id (mg_active m)\<rparr>, [SpawnHangup a])))"

text \<open>The thread that hangs up. \<open>info\<close> is the state of the call, \<open>None\<close> when asking throws. After it the
  call is destroyed.\<close>

definition hangup_thread :: "bool \<Rightarrow> inv_state option \<Rightarrow> nat \<Rightarrow> call_heap \<Rightarrow> (call_heap \<times> mg_effect list) option" where
  "hangup_thread thread_ok info a H =
     (if \<not> thread_ok then Some (H, [])
      else
        (case H a of
           None \<Rightarrow> None
         | Some c \<Rightarrow>
             Some (H(a \<mapsto> setHangupSource ''server'' c),
                   if info = None \<or> info = Some InvDisconnected then [] else [HangUp a])))"

section \<open>Transfers to a human\<close>

definition transferToHumanNumber :: "mg_ctx \<Rightarrow> nat option \<Rightarrow> string \<Rightarrow> manager \<times> call_heap
    \<Rightarrow> ((manager \<times> call_heap) \<times> mg_effect list) option" where
  "transferToHumanNumber C caller number W =
     (case caller of
        None \<Rightarrow> Some (W, [])
      | Some a \<Rightarrow>
          if \<not> isValidPhoneNumber number then Some (W, [])
          else
            (let (m, H) = W
             in case H a of
                  None \<Rightarrow> None
                | Some c \<Rightarrow>
                    (let (ep, m1) = touch_endpoint (endpoint_key c) m
                     in if \<not> endpoint_ready ep then Some ((m1, H), [])
                        else
                          (let h = setupAsBridgeLeg a ((new_call [] (cx_uuid C) [] (trunk_name c) (cx_now C) (c_sample_rate c) True)
                                     \<lparr>endpoint_key := endpoint_key c\<rparr>);
                               (ok, W1, es) = place_leg C number (trunk_name c) h (m1, H)
                           in Some (W1, es)))))"

definition referCallerToHuman :: "env \<Rightarrow> bool \<Rightarrow> nat option \<Rightarrow> string \<Rightarrow> call_heap \<Rightarrow> (call_heap \<times> mg_effect list) option" where
  "referCallerToHuman e xfer_ok caller number H =
     (case caller of
        None \<Rightarrow> Some (H, [])
      | Some a \<Rightarrow>
          if \<not> isValidPhoneNumber number then Some (H, [])
          else
            (case H a of
               None \<Rightarrow> None
             | Some c \<Rightarrow>
                 (let refer = Refer a (''sip:xfer'' @ number @ ''@'' @ getEnvString e ''ASTERISK_IP'' ''127.0.0.1'')
                  in if xfer_ok then Some (H, [refer])
                     else Some (H(a \<mapsto> setHangupSource ''human'' c), [refer, HangUp a]))))"

section \<open>Incoming calls\<close>

text \<open>\<^verbatim>\<open>MyAccount::onIncomingCall\<close>. Nothing is asked about how many calls there are.\<close>

definition onIncomingCall ::
  "'j json_libs \<Rightarrow> mysql \<Rightarrow> webhook_answer \<Rightarrow> mg_ctx \<Rightarrow> string \<Rightarrow> (manager \<times> call_heap) \<times> db option
     \<Rightarrow> ((manager \<times> call_heap) \<times> db option) \<times> mg_effect list" where
  "onIncomingCall L M a C msg S =
     (let ((m, H), inst) = S
      in case parse_invite msg of
           Inl err \<Rightarrow> (S, [Reject500])
         | Inr parsed \<Rightarrow>
             (let (urls, posts, inst1) = answer_urls L (cx_env C) M a (cx_uuid C) parsed inst;
                  asked = map (\<lambda>(u, p). AskWebhook u p) posts
              in case urls of
                   Inl err \<Rightarrow> (((m, H), inst1), asked @ [Reject500])
                 | Inr (ws, hook) \<Rightarrow>
                     (let c = new_call ws (cx_uuid C) hook (snd (snd parsed)) (cx_now C) 8000 False;
                          m1 = m\<lparr>mg_active := AList.update (cx_uuid C) (cx_addr C) (mg_active m), mg_current := mg_current m + 1\<rparr>
                      in (((m1, H(cx_addr C \<mapsto> c)), inst1), asked @ [AnswerCall (cx_addr C)]))))"

section \<open>Shutting down\<close>

text \<open>The destructor. It terminates every simulated call, which waits for its pump, and destroys them, where
  one that ended itself and was never joined aborts the process. Then it hangs up every listed call,
  waits, and destroys the calls: their destructors' own steps, and the callbacks in between, are the
  machine of the calls at shutdown. Last come the accounts, where a null endpoint is followed, and the
  library.\<close>

datatype shutdown = ShutAborts | ShutCrashes | ShutDown upload_mgr "mg_effect list"

fun terminate_sims :: "(string \<Rightarrow> bool) \<Rightarrow> (int \<Rightarrow> string) \<Rightarrow> int \<Rightarrow> (string \<times> sim) list \<Rightarrow> upload_mgr
    \<Rightarrow> (string \<times> sim) list \<times> upload_mgr \<times> sim_effect list" where
  "terminate_sims can_open fmt now [] um = ([], um, [])"
| "terminate_sims can_open fmt now ((k, s) # ss) um =
     (let ((s1, um1), es) = terminate_sim can_open fmt now (s, um);
          (ss1, um2, fs) = terminate_sims can_open fmt now ss um1
      in ((k, s1) # ss1, um2, es @ fs))"

fun shutdown_accounts :: "(string \<times> endpoint option) list \<Rightarrow> mg_effect list option" where
  "shutdown_accounts [] = Some []"
| "shutdown_accounts ((key, ep) # eps) =
     (case ep of
        None \<Rightarrow> None
      | Some x \<Rightarrow> map_option (\<lambda>es. ShutdownAccount key # es) (shutdown_accounts eps))"

definition destroy_manager :: "(string \<Rightarrow> bool) \<Rightarrow> (int \<Rightarrow> string) \<Rightarrow> int \<Rightarrow> upload_mgr \<Rightarrow> manager \<Rightarrow> shutdown" where
  "destroy_manager can_open fmt now um m =
     (let (sims, um1, es) = terminate_sims can_open fmt now (mg_sims m) um
      in if list_ex (\<lambda>(k, s). joinable (s_pump s)) sims then ShutAborts
         else
           (case shutdown_accounts (mg_endpoints m) of
              None \<Rightarrow> ShutCrashes
            | Some fs \<Rightarrow>
                ShutDown um1 (StopWebhooks # map SimFx es @ map (\<lambda>(k, a). HangUp a) (mg_active m)
                  @ map (\<lambda>(k, a). DestroyCall a) (mg_active m) @ fs @ [LibDestroy])))"

section \<open>Facts\<close>

lemma count_sim_fields:
  "mg_current (count_sim es m) = mg_current m - int (count_list es SimCountDown)"
  "mg_active (count_sim es m) = mg_active m" "mg_endpoints (count_sim es m) = mg_endpoints m"
  "mg_sims (count_sim es m) = mg_sims m" "mg_max (count_sim es m) = mg_max m"
  by (induction es m rule: count_sim.induct) (simp_all add: decrementCallCounter_def)

lemma count_call_fields:
  "mg_current (count_call es m) = mg_current m - int (count_list es CountDown)"
  "mg_answered (count_call es m) = mg_answered m + int (count_list es CountAnswered)"
  by (induction es m rule: count_call.induct)
    (simp_all add: decrementCallCounter_def incrementAnsweredCallsCount_def)

lemma touch_endpoint_fields [simp]:
  "mg_current (snd (touch_endpoint key m)) = mg_current m" "mg_active (snd (touch_endpoint key m)) = mg_active m"
  "mg_sims (snd (touch_endpoint key m)) = mg_sims m" "mg_max (snd (touch_endpoint key m)) = mg_max m"
  by (simp_all add: touch_endpoint_def split: option.split)

lemma dialled_call_fields:
  "\<not> is_bridge_leg (dialled_call C R)" "bridged_leg (dialled_call C R) = None"
  "string_call_id (dialled_call C R) = cx_uuid C" "c_webhook_url (dialled_call C R) = rq_webhook_url R"
  by (simp_all add: dialled_call_def new_call_def)

lemma dial_call_cases:
  assumes "dial_call C R (m, H) = (resp, (m1, H1), es)"
  obtains (failed) "m1 = m \<or> m1 = snd (touch_endpoint (own_endpoint (cx_env C)) m)" "H1 = H" "mg_current m1 = mg_current m"
      "\<forall>b. resp \<noteq> Some (Response OK b)"
  | (placed) "cx_make_ok C" "mg_current m1 = mg_current m + 1" "H1 = H(cx_addr C \<mapsto> dialled_call C R)"
      "mg_active m1 = AList.update (cx_uuid C) (cx_addr C) (mg_active m)" "mg_endpoints m1 = mg_endpoints m"
      "mg_sims m1 = mg_sims m"
proof -
  let ?e = "cx_env C"
  obtain ep m2 where t: "touch_endpoint (own_endpoint ?e) m = (ep, m2)" by (cases "touch_endpoint (own_endpoint ?e) m")
  have m2: "m2 = snd (touch_endpoint (own_endpoint ?e) m)" "mg_current m2 = mg_current m" "mg_active m2 = mg_active m"
    "mg_sims m2 = mg_sims m" using t touch_endpoint_fields [of "own_endpoint ?e" m] by simp_all
  have ready: "endpoint_ready ep \<Longrightarrow> m2 = m" using t
    by (auto simp: touch_endpoint_def endpoint_ready_def split: option.splits)
  show ?thesis
  proof (cases "env_int ?e ''HTTP_PORT'' 8086")
    case (Inl err)
    with assms show ?thesis by (intro failed) (auto simp: dial_call_def OK_def SERVER_ERROR_def)
  next
    case (Inr port)
    show ?thesis
    proof (cases "endpoint_ready ep")
      case False
      then have r: "resp = Some (Response SERVER_ERROR (Text ''Error initiating call: Asterisk endpoint not initialized''))"
        "m1 = m2" "H1 = H" using assms Inr t by (simp_all add: dial_call_def)
      show ?thesis by (rule failed) (use r m2 in \<open>auto simp: OK_def SERVER_ERROR_def\<close>)
    next
      case True
      with ready t have t': "touch_endpoint (own_endpoint ?e) m = (ep, m)" by simp
      show ?thesis
      proof (cases "cx_make_ok C")
        case make: False
        with assms Inr t' True have "resp = None" "m1 = m" "H1 = H" by (simp_all add: dial_call_def place_leg_def)
        then show ?thesis by (intro failed) simp_all
      next
        case make: True
        show ?thesis
          by (rule placed) (use assms Inr t' True make in \<open>auto simp: dial_call_def place_leg_def Let_def\<close>)
      qed
    qed
  qed
qed

lemma simulate_call_fields:
  assumes "simulate_call C R (m, H) = Some (resp, (m1, H1), es)"
  shows "H1 = H" "mg_active m1 = mg_active m" "mg_endpoints m1 = mg_endpoints m" "mg_current m1 \<le> mg_current m + 1"
    and "\<not> (\<exists>a d. Dial a d \<in> set es)" "resp \<noteq> None"
  using assms count_sim_fields
  by (auto simp: simulate_call_def Let_def split: prod.splits if_splits destruction.splits)

end
