(* ===== verification/Ami_Manager.thy ===== *)
theory Ami_Manager
  imports Cpp_Std
begin

text \<open>
  \<^verbatim>\<open>AmiManager\<close> of \<^verbatim>\<open>ami_manager.cpp\<close>: the conversation with Asterisk's manager port. What the
  sockets answer is the record \<open>ami_net\<close>; the effects are the sockets opened, closed and the texts
  sent. \<open>None\<close> is a read past a receive buffer that holds no terminating zero.
\<close>

datatype connect_result = ConnectNow | ConnectRefused | PollReady | PollTimeout | PollSocketError

datatype recv = Data string | PeerClosed | WouldBlock | RecvError

record ami_net =
  an_socket :: bool
  an_resolve :: bool
  an_getfl :: bool
  an_setfl :: bool
  an_connect :: connect_result
  an_restore :: bool
  an_welcome :: recv
  an_login_sent :: bool
  an_login_reply :: recv
  an_command_sent :: bool
  an_replies :: "nat \<Rightarrow> recv"

datatype ami_effect = SocketOpened | SocketClosed | SentText string

definition crlf :: string where "crlf = [CR, LF]"

definition connectToAMI :: "ami_net \<Rightarrow> bool \<times> ami_effect list" where
  "connectToAMI n =
     (if \<not> an_socket n then (False, [])
      else if \<not> an_resolve n \<or> \<not> an_getfl n \<or> \<not> an_setfl n then (False, [SocketOpened, SocketClosed])
      else if an_connect n \<in> {ConnectRefused, PollTimeout, PollSocketError} then (False, [SocketOpened, SocketClosed])
      else if \<not> an_restore n then (False, [SocketOpened, SocketClosed])
      else (True, [SocketOpened]))"

text \<open>The text in a zeroed buffer of \<open>n\<close> bytes after at most \<open>n\<close> bytes were received into it.\<close>

definition buffer_text :: "nat \<Rightarrow> string \<Rightarrow> string option" where
  "buffer_text n s =
     (if length s < n \<or> char_of (0 :: nat) \<in> set s then Some (takeWhile (\<lambda>c. c \<noteq> char_of (0 :: nat)) s) else None)"

definition login_command :: string where
  "login_command = ''Action: Login'' @ crlf @ ''Username: admin'' @ crlf @ ''Secret: admin'' @ crlf @ crlf"

definition loginToAMI :: "ami_net \<Rightarrow> (bool \<times> ami_effect list) option" where
  "loginToAMI n =
     (case an_welcome n of
        Data w \<Rightarrow>
          (case buffer_text 1024 w of
             None \<Rightarrow> None
           | Some _ \<Rightarrow>
               if \<not> an_login_sent n then Some (False, [])
               else
                 (case an_login_reply n of
                    Data r \<Rightarrow> map_option (\<lambda>t. (str_contains ''Authentication accepted'' t, [SentText login_command]))
                               (buffer_text 1024 r)
                  | _ \<Rightarrow> Some (False, [SentText login_command])))
      | _ \<Rightarrow> Some (False, []))"

text \<open>The replies to a command are read at most three times.\<close>

definition complete_reply :: "string \<Rightarrow> bool" where
  "complete_reply t \<longleftrightarrow> str_contains ''Response: Success'' t \<and> str_contains ''Output: Objects found:'' t"

fun reply_loop :: "(nat \<Rightarrow> recv) \<Rightarrow> nat \<Rightarrow> nat \<Rightarrow> string \<Rightarrow> bool" where
  "reply_loop replies i 0 full = str_contains ''Response: Success'' full"
| "reply_loop replies i (Suc retries) full =
     (case replies i of
        PeerClosed \<Rightarrow> False
      | WouldBlock \<Rightarrow> str_contains ''Response: Success'' full
      | RecvError \<Rightarrow> False
      | Data s \<Rightarrow> if complete_reply (full @ s) then True else reply_loop replies (Suc i) retries (full @ s))"

definition AMI_RETRIES :: nat where "AMI_RETRIES = 3"

definition sendAMICommand :: "ami_net \<Rightarrow> string \<Rightarrow> bool \<times> ami_effect list" where
  "sendAMICommand n command =
     (if \<not> an_command_sent n then (False, [])
      else (reply_loop (an_replies n) 0 AMI_RETRIES [],
            [SentText (''Action: Command'' @ crlf @ ''Command: '' @ command @ crlf @ crlf)]))"

definition logoff_command :: string where
  "logoff_command = ''Action: Logoff'' @ crlf @ crlf"

definition triggerRegistrationCheck :: "ami_net \<Rightarrow> (bool \<times> ami_effect list) option" where
  "triggerRegistrationCheck n =
     (let (up, es) = connectToAMI n
      in if \<not> up then Some (False, es)
         else
           (case loginToAMI n of
              None \<Rightarrow> None
            | Some (ok, fs) \<Rightarrow>
                if \<not> ok then Some (False, es @ fs @ [SocketClosed])
                else (let (res, gs) = sendAMICommand n ''pjsip show registrations''
                      in Some (res, es @ fs @ gs @ [SentText logoff_command, SocketClosed]))))"

text \<open>Reading the details of a call: everything received up to the completion event or the end of the
  stream, each chunk as the text in a buffer of 1024 bytes.\<close>

fun details_loop :: "recv list \<Rightarrow> string \<Rightarrow> string option" where
  "details_loop [] full = Some full"
| "details_loop (r # rs) full =
     (case r of
        Data s \<Rightarrow>
          (case buffer_text 1024 s of
             None \<Rightarrow> None
           | Some t \<Rightarrow>
               if str_contains ''Event: StatusComplete'' (full @ t) then Some (full @ t)
               else details_loop rs (full @ t))
      | _ \<Rightarrow> Some full)"

definition getCallDetailsFromAMI :: "ami_net \<Rightarrow> recv list \<Rightarrow> string \<Rightarrow> (string \<times> ami_effect list) option" where
  "getCallDetailsFromAMI n rs call_id =
     (let (up, es) = connectToAMI n
      in if \<not> up then Some ([], es)
         else
           (case loginToAMI n of
              None \<Rightarrow> None
            | Some (ok, fs) \<Rightarrow>
                if \<not> ok then Some ([], es @ fs @ [SocketClosed])
                else
                  map_option (\<lambda>t. (t, es @ fs @
                      [SentText (''Action: Filter'' @ crlf @ ''Operation: Add'' @ crlf @ ''Filter: Call-ID = '' @ call_id @
                         crlf @ crlf @ ''Action: Status'' @ crlf @ ''ActionID: getcalldetails'' @ crlf @ crlf),
                       SentText logoff_command, SocketClosed])) (details_loop rs [])))"

section \<open>Facts\<close>

lemma connectToAMI_sockets:
  "connectToAMI n = (ok, es) \<Longrightarrow> es = (if ok then [SocketOpened] else if an_socket n then [SocketOpened, SocketClosed] else [])"
  by (auto simp: connectToAMI_def split: if_splits)

lemma login_sends: "loginToAMI n = Some (ok, fs) \<Longrightarrow> fs = [] \<or> fs = [SentText login_command]"
  by (auto simp: loginToAMI_def split: recv.splits option.splits if_splits)

lemma sendAMICommand_sends:
  "sendAMICommand n c = (res, gs) \<Longrightarrow> SocketOpened \<notin> set gs \<and> SocketClosed \<notin> set gs"
  by (auto simp: sendAMICommand_def split: if_splits)

lemma registration_check_sockets:
  "triggerRegistrationCheck n = Some (ok, es) \<Longrightarrow> es \<noteq> [] \<longleftrightarrow> an_socket n"
  using connectToAMI_sockets [of n]
  by (cases "connectToAMI n") (auto simp: triggerRegistrationCheck_def connectToAMI_def Let_def split: option.splits if_splits prod.splits)

section \<open>Properties\<close>

text \<open>C29: A registration check leaks no socket: whichever step of the conversation fails, every socket it
  opened is closed, exactly once and as the last thing done.\<close>

theorem registration_check_closes:
  assumes "triggerRegistrationCheck n = Some (ok, es)"
  shows "count_list es SocketOpened = (if an_socket n then 1 else 0)
    \<and> count_list es SocketClosed = count_list es SocketOpened
    \<and> (an_socket n \<longrightarrow> hd es = SocketOpened \<and> last es = SocketClosed)
    \<and> (ok \<longrightarrow> last (butlast es) = SentText logoff_command)"
proof -
  obtain up es1 where c: "connectToAMI n = (up, es1)" by (cases "connectToAMI n")
  note s = connectToAMI_sockets [OF c]
  show ?thesis
  proof (cases up)
    case False
    with assms c s show ?thesis by (auto simp: triggerRegistrationCheck_def)
  next
    case True
    then obtain lok fs where l: "loginToAMI n = Some (lok, fs)"
      using assms c by (auto simp: triggerRegistrationCheck_def split: option.splits)
    obtain res gs where g: "sendAMICommand n ''pjsip show registrations'' = (res, gs)"
      by (cases "sendAMICommand n ''pjsip show registrations''")
    have es: "(ok, es) = (if \<not> lok then (False, es1 @ fs @ [SocketClosed])
        else (res, es1 @ fs @ gs @ [SentText logoff_command, SocketClosed]))"
      using assms c True l g by (simp add: triggerRegistrationCheck_def split: if_splits)
    have "an_socket n" using c True by (auto simp: connectToAMI_def split: if_splits)
    moreover have "count_list gs SocketOpened = 0" "count_list gs SocketClosed = 0"
      using sendAMICommand_sends [OF g] by (simp_all add: count_list_0_iff)
    ultimately show ?thesis using s True login_sends [OF l] es by (cases lok) (auto simp: butlast_append)
  qed
qed

definition demo_net :: ami_net where
  "demo_net = \<lparr>an_socket = True, an_resolve = True, an_getfl = True, an_setfl = True, an_connect = PollReady,
     an_restore = True, an_welcome = Data ''Asterisk'', an_login_sent = True, an_login_reply = PeerClosed,
     an_command_sent = True, an_replies = (\<lambda>_. WouldBlock)\<rparr>"

lemma registration_check_closes_witness:
  "\<exists>es. triggerRegistrationCheck demo_net = Some (False, es) \<and> count_list es SocketClosed = 1"
proof -
  have "an_welcome demo_net = Data ''Asterisk''" "buffer_text 1024 ''Asterisk'' \<noteq> None"
    by (simp_all add: demo_net_def buffer_text_def)
  then have "\<exists>es. triggerRegistrationCheck demo_net = Some (False, es)"
    by (auto simp: triggerRegistrationCheck_def connectToAMI_def loginToAMI_def demo_net_def)
  then obtain es where x: "triggerRegistrationCheck demo_net = Some (False, es)" by blast
  from registration_check_closes [OF x] x show ?thesis by (simp add: demo_net_def)
qed

end
