(* ===== verification/Http_Api.thy ===== *)
theory Http_Api
  imports Call_Manager Ami_Manager Db_Manager "HOL-Library.Word"
begin

text \<open>
  The rest of \<^verbatim>\<open>CallManager\<close>: the HTTP handlers that administer trunks and numbers on top of the
  database and Asterisk's manager port, the handlers that report on the calls, the registration of
  threads with PJLIB, and the start of the process. A handler gives its response and the database
  singleton, which it may have made.
\<close>

section \<open>Providers and numbers\<close>

text \<open>What the handlers reach: the environment, the MySQL server, the manager port.\<close>

record backend =
  be_env :: env
  be_mysql :: mysql
  be_ami :: ami_net

text \<open>\<^verbatim>\<open>CallManager::addProvider\<close>: the result is that of the database, whatever the registration check
  says. \<open>None\<close> is undefined behaviour in the manager conversation.\<close>

definition addProvider ::
  "backend \<Rightarrow> string \<Rightarrow> string \<Rightarrow> string \<Rightarrow> string \<Rightarrow> int \<Rightarrow> bool \<Rightarrow> db option
     \<Rightarrow> ((string + bool) \<times> db option \<times> ami_effect list) option" where
  "addProvider B name user pass domain port with_reg inst =
     (let (r, inst1) = use_db (be_env B) (be_mysql B)
            (db_addProvider (be_env B) (be_mysql B) name user pass domain port with_reg) inst
      in if r = Inr True \<and> with_reg
         then map_option (\<lambda>(checked, es). (r, inst1, es)) (triggerRegistrationCheck (be_ami B))
         else Some (r, inst1, []))"

definition addDid :: "backend \<Rightarrow> string \<Rightarrow> string \<Rightarrow> string \<Rightarrow> string \<Rightarrow> db option \<Rightarrow> (string + bool) \<times> db option" where
  "addDid B trunk did provider url = use_db (be_env B) (be_mysql B) (db_addDid (be_env B) (be_mysql B) trunk did provider url)"

definition removeProvider :: "backend \<Rightarrow> string \<Rightarrow> db option \<Rightarrow> (string + bool) \<times> db option" where
  "removeProvider B name = use_db (be_env B) (be_mysql B) (db_removeProvider (be_env B) (be_mysql B) name)"

definition removeDid :: "backend \<Rightarrow> string \<Rightarrow> db option \<Rightarrow> (string + bool) \<times> db option" where
  "removeDid B did_id = use_db (be_env B) (be_mysql B) (db_removeDid (be_env B) (be_mysql B) did_id)"

definition getRegisteredAccounts :: "backend \<Rightarrow> db option \<Rightarrow> (string + sip_account list) \<times> db option" where
  "getRegisteredAccounts B = use_db (be_env B) (be_mysql B) (db_getRegisteredAccounts (be_env B) (be_mysql B))"

definition parseYesNoBool :: "'j json_libs \<Rightarrow> 'j \<Rightarrow> bool \<Rightarrow> bool" where
  "parseYesNoBool L v dflt =
     (case jl_get_bool L v of
        Some b \<Rightarrow> b
      | None \<Rightarrow>
          (case jl_get_string L v of
             None \<Rightarrow> dflt
           | Some s0 \<Rightarrow>
               (let s = map to_lower s0
                in if s = ''yes'' \<or> s = ''true'' \<or> s = ''1'' then True
                   else if s = ''no'' \<or> s = ''false'' \<or> s = ''0'' then False
                   else dflt)))"

record provider_request =
  pr_name :: string
  pr_user :: string
  pr_pass :: string
  pr_domain :: string
  pr_port :: int
  pr_register :: bool

definition read_registration :: "'j json_libs \<Rightarrow> 'j \<Rightarrow> string + bool" where
  "read_registration L j =
     (if jl_contains L j ''registration'' then on_ok (jl_at L j ''registration'') (\<lambda>v. Inr (parseYesNoBool L v False))
      else if jl_contains L j ''register'' then on_ok (jl_at L j ''register'') (\<lambda>v. Inr (parseYesNoBool L v False))
      else Inr False)"

definition read_provider :: "'j json_libs \<Rightarrow> env \<Rightarrow> string \<Rightarrow> string + provider_request" where
  "read_provider L e text =
     on_ok (jl_parse L text) (\<lambda>j.
     on_ok (jl_value_string L j ''provider_name'' []) (\<lambda>name.
     on_ok (jl_strings L j [''username'', ''password'', ''domain'']) (\<lambda>vs.
     on_ok (jl_value_int L j ''port'' (atoi (getenv_or e ''ASTERISK_PORT'' ''5060''))) (\<lambda>port.
     on_ok (read_registration L j) (\<lambda>reg.
       Inr \<lparr>pr_name = name, pr_user = vs ! 0, pr_pass = vs ! 1, pr_domain = vs ! 2, pr_port = port, pr_register = reg\<rparr>)))))"

text \<open>The two checks of a provider request; \<open>None\<close> when it passes.\<close>

definition reject_provider :: "provider_request \<Rightarrow> response option" where
  "reject_provider P =
     (if pr_name P = [] \<or> pr_user P = [] \<or> pr_pass P = [] \<or> pr_domain P = []
      then Some (Response BAD_REQUEST (Text ''Missing required fields''))
      else if pr_port P \<le> 0 \<or> 65535 < pr_port P
      then Some (Response BAD_REQUEST (Text ''Invalid port number (must be between 1 and 65535)''))
      else None)"

definition provider_answer :: "bool \<Rightarrow> string + bool \<Rightarrow> response" where
  "provider_answer reg r = answer_or ''Error adding provider: ''
     (on_ok r (\<lambda>ok. Inr (if ok then Response OK (success_body ''Provider added successfully'' [(''registration'', JvBool reg)])
        else Response SERVER_ERROR (Text ''Failed to add provider''))))"

definition addProviderEndpoint ::
  "'j json_libs \<Rightarrow> backend \<Rightarrow> string \<Rightarrow> db option \<Rightarrow> (response \<times> db option \<times> ami_effect list) option" where
  "addProviderEndpoint L B text inst =
     (case read_provider L (be_env B) text of
        Inl err \<Rightarrow> Some (Response SERVER_ERROR (Text (''Error adding provider: '' @ err)), inst, [])
      | Inr P \<Rightarrow>
          (case reject_provider P of
             Some resp \<Rightarrow> Some (resp, inst, [])
           | None \<Rightarrow>
               map_option (\<lambda>(r, inst1, es). (provider_answer (pr_register P) r, inst1, es))
                 (addProvider B (pr_name P) (pr_user P) (pr_pass P) (pr_domain P) (pr_port P) (pr_register P) inst)))"

text \<open>The shape the other three administration handlers share: the fields read in order, all of them
  required, an operation of the database, its result reported.\<close>

definition admin_endpoint ::
  "'j json_libs \<Rightarrow> string list \<Rightarrow> string \<Rightarrow> (string list \<Rightarrow> db option \<Rightarrow> (string + bool) \<times> db option) \<Rightarrow> string \<Rightarrow> string
     \<Rightarrow> string \<Rightarrow> string \<Rightarrow> db option \<Rightarrow> response \<times> db option" where
  "admin_endpoint L keys missing f done failed what text inst =
     (case on_ok (jl_parse L text) (\<lambda>j. jl_strings L j keys) of
        Inl err \<Rightarrow> (Response SERVER_ERROR (Text (what @ err)), inst)
      | Inr vs \<Rightarrow>
          if [] \<in> set vs then (Response BAD_REQUEST (Text missing), inst)
          else (let (r, inst1) = f vs inst
                in (answer_or what (on_ok r (\<lambda>ok. Inr (if ok then Response OK (success_body done [])
                      else Response SERVER_ERROR (Text failed)))), inst1)))"

definition addDidEndpoint :: "'j json_libs \<Rightarrow> backend \<Rightarrow> string \<Rightarrow> db option \<Rightarrow> response \<times> db option" where
  "addDidEndpoint L B =
     admin_endpoint L [''trunk_name'', ''did'', ''provider_id'', ''answer_webhook_url''] ''Missing required fields''
       (\<lambda>vs. addDid B (vs ! 0) (vs ! 1) (vs ! 2) (vs ! 3)) ''DID added successfully'' ''Failed to add DID'' ''Error adding DID: ''"

definition removeProviderEndpoint :: "'j json_libs \<Rightarrow> backend \<Rightarrow> string \<Rightarrow> db option \<Rightarrow> response \<times> db option" where
  "removeProviderEndpoint L B =
     admin_endpoint L [''trunk_name''] ''Missing trunk_name'' (\<lambda>vs. removeProvider B (vs ! 0))
       ''Provider removed successfully'' ''Failed to remove provider'' ''Error removing provider: ''"

definition removeDidEndpoint :: "'j json_libs \<Rightarrow> backend \<Rightarrow> string \<Rightarrow> db option \<Rightarrow> response \<times> db option" where
  "removeDidEndpoint L B =
     admin_endpoint L [''provider_id''] ''Missing provider_id'' (\<lambda>vs. removeDid B (vs ! 0))
       ''DID removed successfully'' ''Failed to remove DID'' ''Error removing DID: ''"

definition account_json :: "sip_account \<Rightarrow> jv" where
  "account_json a =
     JvObj [(''trunk_name'', JvStr (ac_trunk_name a)), (''username'', JvStr (ac_username a)), (''domain'', JvStr (ac_domain a)),
            (''answer_webhook_url'', JvStr (ac_webhook_url a)), (''status'', JvStr (ac_status a))]"

definition showAccountsEndpoint :: "backend \<Rightarrow> db option \<Rightarrow> response \<times> db option" where
  "showAccountsEndpoint B inst =
     (let (r, inst1) = getRegisteredAccounts B inst
      in (answer_or ''Error getting accounts: '' (on_ok r (\<lambda>as.
            Inr (Response OK (Json (JvObj [(''status'', JvStr ''success''), (''accounts'', JvArr (map account_json as))]))))),
          inst1))"

section \<open>Reports on the calls\<close>

definition getCallCount :: "int \<Rightarrow> manager \<Rightarrow> response" where
  "getCallCount now m =
     Response OK (Json (JvObj [(''answered_calls'', JvInt (getAnsweredCallsCount m)), (''current_calls'', JvInt (mg_current m)),
       (''timestamp'', JvInt now)]))"

definition call_json :: "mycall \<Rightarrow> jv" where
  "call_json c =
     JvObj [(''call_id'', JvStr (string_call_id c)), (''agent_id'', JvStr (c_agent_id c)), (''env'', JvStr (c_env c)),
            (''webhook_call_id'', JvStr (webhook_call_id c)), (''trunk_name'', JvStr (trunk_name c)),
            (''start_time'', JvInt (c_start_time c))]"

definition sim_json :: "sim \<Rightarrow> jv" where
  "sim_json s =
     JvObj [(''call_id'', JvStr (s_call_id s)), (''trunk_name'', JvStr (s_trunk_name s)), (''simulated'', JvBool True),
            (''start_time'', JvInt (s_start_time s))]"

text \<open>Entries are assigned by key; a JSON value never assigned to stays null.\<close>

fun call_entries :: "call_heap \<Rightarrow> (string \<times> nat) list \<Rightarrow> (string \<times> jv) list \<Rightarrow> (string \<times> jv) list option" where
  "call_entries H [] es = Some es"
| "call_entries H ((k, a) # as) es =
     (case H a of None \<Rightarrow> None | Some c \<Rightarrow> call_entries H as (AList.update k (call_json c) es))"

fun sim_entries :: "(string \<times> sim) list \<Rightarrow> (string \<times> jv) list \<Rightarrow> (string \<times> jv) list" where
  "sim_entries [] es = es"
| "sim_entries ((k, s) # ss) es = sim_entries ss (AList.update k (sim_json s) es)"

definition getAllCalls :: "int \<Rightarrow> manager \<Rightarrow> call_heap \<Rightarrow> response option" where
  "getAllCalls now m H =
     map_option (\<lambda>es0.
       (let es = sim_entries (mg_sims m) es0
        in Response OK (Json (JvObj [(''active_calls'', if es = [] then JvNull else JvObj es),
             (''count'', JvInt (int (length (mg_active m) + length (mg_sims m)))), (''timestamp'', JvInt now)]))))
       (call_entries H (mg_active m) [])"

definition healthCheck :: "int \<Rightarrow> manager \<Rightarrow> response" where
  "healthCheck now m =
     Response (if mg_max m \<le> mg_current m then UNAVAILABLE else OK)
       (Json (JvObj [(''status'', JvStr ''healthy''), (''answered_calls'', JvInt (getAnsweredCallsCount m)),
          (''current_calls'', JvInt (mg_current m)), (''max_calls'', JvInt (mg_max m)),
          (''available_capacity'', JvInt (mg_max m - mg_current m)), (''timestamp'', JvInt now)]))"

text \<open>The crash handler answers before it crashes. A PJSIP error is not one of the exceptions it, or the
  wrapper around it, catches.\<close>

datatype crash = Answers response | ExitsAfter response | ThrowsPjErrorAfter response | WritesNullAfter response

definition quoted :: "string \<Rightarrow> string" where
  "quoted s = [DQ] @ s @ [DQ]"

definition crashEndpoint :: "'j json_libs \<Rightarrow> string \<Rightarrow> crash" where
  "crashEndpoint L text =
     (case on_ok (jl_parse L text) (\<lambda>j. jl_value_int L j ''type'' 0) of
        Inl err \<Rightarrow> Answers (Response SERVER_ERROR (Text (''{'' @ quoted ''error'' @ '':'' @ quoted err @ ''}'')))
      | Inr type \<Rightarrow>
          if type = 0 then ExitsAfter (Response OK (Text (''{'' @ quoted ''status'' @ '':'' @ quoted ''exiting'' @ ''}'')))
          else if type = 1 then ThrowsPjErrorAfter (Response OK (Text (''{'' @ quoted ''status'' @ '':'' @ quoted ''pjsip_exception'' @ ''}'')))
          else if type = 2 then WritesNullAfter (Response OK (Text (''{'' @ quoted ''status'' @ '':'' @ quoted ''segfault'' @ ''}'')))
          else Answers (Response BAD_REQUEST (Text (''{'' @ quoted ''error'' @ '':'' @ quoted ''Invalid type'' @ ''}''))))"

section \<open>Threads\<close>

text \<open>PJLIB remembers, per live thread, the descriptor it was registered with; the table of the manager
  owns the descriptors by thread identifier, and an identifier may be used again after its thread has
  ended. Descriptors are numbered in the order they are made.\<close>

record thread_table =
  th_registered :: "nat \<Rightarrow> nat option"
  th_descs :: "(nat \<times> nat) list"
  th_made :: nat

definition new_threads :: "nat \<Rightarrow> thread_table" where
  "new_threads main = \<lparr>th_registered = [main \<mapsto> 0], th_descs = [(main, 0)], th_made = 1\<rparr>"

text \<open>The table afterwards and the name the thread was registered under, if it was.\<close>

definition registerThread :: "nat \<Rightarrow> thread_table \<Rightarrow> thread_table \<times> string option" where
  "registerThread t T =
     (if th_registered T t \<noteq> None then (T, None)
      else (T\<lparr>th_registered := (th_registered T)(t \<mapsto> th_made T), th_descs := AList.update t (th_made T) (th_descs T),
              th_made := th_made T + 1\<rparr>,
            Some (''Thread-'' @ show_nat (length (th_descs T)))))"

definition thread_ends :: "nat \<Rightarrow> thread_table \<Rightarrow> thread_table" where
  "thread_ends t T = T\<lparr>th_registered := (th_registered T)(t := None)\<rparr>"

definition handleRequest :: "nat \<Rightarrow> string + response \<Rightarrow> thread_table \<Rightarrow> response \<times> thread_table" where
  "handleRequest t handled T = (answer_or ''Internal error: '' handled, fst (registerThread t T))"

section \<open>Routes\<close>

datatype http_method = GetMethod | PostMethod

datatype api = ApiHealth | ApiInitiateCall | ApiEndCall | ApiCallCount | ApiAllCalls | ApiAddProvider | ApiAddDid
  | ApiRemoveProvider | ApiRemoveDid | ApiShowAccounts | ApiCrash

definition setupRoutes :: "(http_method \<times> string \<times> api) list" where
  "setupRoutes =
     [(GetMethod, ''/health'', ApiHealth), (PostMethod, ''/initiate-call'', ApiInitiateCall),
      (PostMethod, ''/end-call/:callId'', ApiEndCall), (GetMethod, ''/get-call-count'', ApiCallCount),
      (GetMethod, ''/get-all-calls'', ApiAllCalls), (PostMethod, ''/add-provider'', ApiAddProvider),
      (PostMethod, ''/add-did'', ApiAddDid), (PostMethod, ''/remove-provider'', ApiRemoveProvider),
      (PostMethod, ''/remove-did'', ApiRemoveDid), (GetMethod, ''/show-accounts'', ApiShowAccounts),
      (PostMethod, ''/crash'', ApiCrash)]"

text \<open>What a handler makes of a request with a body and, for \<open>ApiEndCall\<close>, a call identifier: its response,
  if any, and the manager with its calls and the database. The crash handler ends the process or throws;
  \<open>None\<close> is undefined behaviour.\<close>

datatype outcome = Answered "response option" "(manager \<times> call_heap) \<times> db option" | Crashes crash

definition run_api :: "'j json_libs \<Rightarrow> backend \<Rightarrow> mg_ctx \<Rightarrow> string \<Rightarrow> string \<Rightarrow> api \<Rightarrow> (manager \<times> call_heap) \<times> db option
    \<Rightarrow> outcome option" where
  "run_api L B C text param which S =
     (let ((m, H), inst) = S; now = cx_now C; db_answer = (\<lambda>(resp, inst1). Some (Answered (Some resp) ((m, H), inst1)))
      in case which of
           ApiHealth \<Rightarrow> Some (Answered (Some (healthCheck now m)) S)
         | ApiInitiateCall \<Rightarrow> map_option (\<lambda>(resp, W, es). Answered resp (W, inst)) (initiateCall L C text (m, H))
         | ApiEndCall \<Rightarrow> (let (resp, m1, es) = endCall param m in Some (Answered (Some resp) ((m1, H), inst)))
         | ApiCallCount \<Rightarrow> Some (Answered (Some (getCallCount now m)) S)
         | ApiAllCalls \<Rightarrow> map_option (\<lambda>resp. Answered (Some resp) S) (getAllCalls now m H)
         | ApiAddProvider \<Rightarrow> map_option (\<lambda>(resp, inst1, es). Answered (Some resp) ((m, H), inst1)) (addProviderEndpoint L B text inst)
         | ApiAddDid \<Rightarrow> db_answer (addDidEndpoint L B text inst)
         | ApiRemoveProvider \<Rightarrow> db_answer (removeProviderEndpoint L B text inst)
         | ApiRemoveDid \<Rightarrow> db_answer (removeDidEndpoint L B text inst)
         | ApiShowAccounts \<Rightarrow> db_answer (showAccountsEndpoint B inst)
         | ApiCrash \<Rightarrow> (case crashEndpoint L text of Answers resp \<Rightarrow> Some (Answered (Some resp) S) | c \<Rightarrow> Some (Crashes c)))"

section \<open>Starting\<close>

text \<open>The configuration the library and the account are given.\<close>

record pj_config =
  pj_clock_rate :: int
  pj_media_ports :: "32 word"
  pj_max_calls :: int
  pj_sip_port :: int
  pj_bound :: string
  pj_public :: string

record account_config =
  acc_id_uri :: string
  acc_registrar :: string
  acc_contact :: string
  acc_contact_params :: string
  acc_public :: string
  acc_bound :: string
  acc_rtp_port :: int
  acc_port_range :: "32 word"
  acc_realm :: string
  acc_username :: string
  acc_password :: string

definition registerWithAsterisk :: "env \<Rightarrow> string \<Rightarrow> int \<Rightarrow> string \<Rightarrow> string \<Rightarrow> string \<Rightarrow> string \<Rightarrow> int
    \<Rightarrow> string + (string \<times> endpoint option) \<times> account_config" where
  "registerWithAsterisk e ip port user pass realm public sip_port =
     on_ok (env_int e ''RTP_PORT_START'' 4000) (\<lambda>rtp_start.
     on_ok (env_int e ''RTP_PORT_END'' 4999) (\<lambda>rtp_end.
       Inr ((user @ ''@'' @ ip, Some \<lparr>ep_initialized = True, ep_answer_webhook = []\<rparr>),
            \<lparr>acc_id_uri = ''sip:'' @ user @ ''@'' @ ip, acc_registrar = ''sip:'' @ ip @ '':'' @ to_string port,
             acc_contact = ''sip:'' @ user @ ''@'' @ public @ '':'' @ to_string sip_port, acc_contact_params = '';ob'',
             acc_public = public, acc_bound = ''0.0.0.0'', acc_rtp_port = rtp_start,
             acc_port_range = word_of_int (rtp_end - rtp_start + 1), acc_realm = realm, acc_username = user,
             acc_password = pass\<rparr>)))"

text \<open>The integers the constructor reads, in the order it reads them.\<close>

fun env_ints :: "env \<Rightarrow> (string \<times> int) list \<Rightarrow> string + int list" where
  "env_ints e [] = Inr []"
| "env_ints e ((k, d) # ks) = on_ok (env_int e k d) (\<lambda>i. on_ok (env_ints e ks) (\<lambda>is. Inr (i # is)))"

definition start_ints :: "(string \<times> int) list" where
  "start_ints = [(''HTTP_PORT'', 8086), (''ASTERISK_PORT'', 5060), (''SIP_PORT'', 5060), (''RTP_PORT_START'', 4000),
     (''RTP_PORT_END'', 4999), (''MAX_CONCURRENT_CALLS'', 25)]"

text \<open>The constructor. \<open>created\<close> and \<open>started\<close> are the PJSIP error, if any, of making the library and of
  what follows. \<open>Inl\<close> is an exception that leaves the constructor.\<close>

definition new_manager :: "env \<Rightarrow> string option \<Rightarrow> string option \<Rightarrow> string + manager \<times> pj_config \<times> account_config" where
  "new_manager e created started =
     on_ok (env_ints e start_ints) (\<lambda>is.
     (let max_calls = is ! 5; public = getEnvString e ''PUBLIC_IP'' ''3.108.51.244'';
          failed = (\<lambda>info. Inl (''Failed to initialize PJSIP: '' @ info))
      in case created of
           Some info \<Rightarrow> failed info
         | None \<Rightarrow>
             on_ok (env_int e ''SAMPLE_RATE'' 8000) (\<lambda>rate.
             on_ok (registerWithAsterisk e (asterisk_ip e) (is ! 1) (sip_username e)
                      (getEnvString e ''SIP_PASSWORD'' ''secret123'') (getEnvString e ''SIP_REALM'' ''asterisk'') public (is ! 2))
               (\<lambda>(ep, acc).
                 (case started of
                    Some info \<Rightarrow> failed info
                  | None \<Rightarrow>
                      Inr (\<lparr>mg_endpoints = [ep], mg_active = [], mg_sims = [], mg_current = 0, mg_answered = 0, mg_max = max_calls\<rparr>,
                           \<lparr>pj_clock_rate = rate, pj_media_ports = word_of_int (4 * max_calls), pj_max_calls = max_calls,
                            pj_sip_port = is ! 2, pj_bound = getEnvString e ''PRIVATE_IP'' ''0.0.0.0'', pj_public = public\<rparr>,
                           acc))))))"

text \<open>The exit status of the process.\<close>

definition main_status :: "string + 'a \<Rightarrow> int" where
  "main_status r = (case r of Inl err \<Rightarrow> 1 | Inr x \<Rightarrow> 0)"

section \<open>Facts\<close>

lemma routes_distinct: "distinct (map (\<lambda>(method, path, which). (method, path)) setupRoutes)"
  by (simp add: setupRoutes_def)

text \<open>Reading requests leave the manager and its calls alone.\<close>

lemma get_reads_only:
  assumes "(GetMethod, path, which) \<in> set setupRoutes" and "run_api L B C text param which (W, inst) = Some (Answered resp (W1, inst1))"
  shows "W1 = W"
  using assms by (cases W) (auto simp: setupRoutes_def run_api_def Let_def split: prod.splits option.splits)


lemma use_db_made: "use_db e M f (Some d) = (r, inst1) \<Longrightarrow>
    (r = Inl ''stoi'' \<and> f d = None \<and> inst1 = Some d) \<or> (\<exists>x d1. r = Inr x \<and> f d = Some (x, d1) \<and> inst1 = Some d1)"
  by (auto simp: use_db_def db_instance_def split: option.splits)

text \<open>Threads come and go in any order.\<close>

datatype thread_event = Registers nat | EndsThread nat

fun thread_step :: "thread_table \<Rightarrow> thread_event \<Rightarrow> thread_table" where
  "thread_step T (Registers t) = fst (registerThread t T)"
| "thread_step T (EndsThread t) = thread_ends t T"

definition threads_ok :: "thread_table \<Rightarrow> bool" where
  "threads_ok T \<longleftrightarrow> (\<forall>t d. th_registered T t = Some d \<longrightarrow> d < th_made T \<and> map_of (th_descs T) t = Some d
     \<and> (\<forall>u. th_registered T u = Some d \<longrightarrow> u = t))"

lemma threads_ok_register: "threads_ok T \<Longrightarrow> threads_ok (fst (registerThread t T))"
  unfolding threads_ok_def registerThread_def
  by (auto simp: update_conv' less_Suc_eq split: if_splits)

lemma threads_ok_run: "threads_ok T \<Longrightarrow> threads_ok (foldl thread_step T evs)"
proof (induction evs arbitrary: T)
  case (Cons ev evs)
  have "threads_ok (thread_step T ev)"
  proof (cases ev)
    case (EndsThread t)
    with Cons.prems show ?thesis by (auto simp: threads_ok_def thread_ends_def split: if_splits)
  qed (use Cons.prems threads_ok_register in simp)
  with Cons.IH show ?case by simp
qed simp

section \<open>Properties\<close>

text \<open>C32: Whatever threads register and end, in any order and with identifiers used again, a thread that is
  registered with PJLIB finds its descriptor in the table of the manager, where no other thread uses it;
  a handler that runs is registered.\<close>

theorem registered_descriptor_alive:
  assumes "th_registered (foldl thread_step (new_threads main) evs) t = Some d"
  shows "map_of (th_descs (foldl thread_step (new_threads main) evs)) t = Some d
    \<and> (\<forall>u. th_registered (foldl thread_step (new_threads main) evs) u = Some d \<longrightarrow> u = t)
    \<and> (\<forall>u handled. th_registered (snd (handleRequest u handled (foldl thread_step (new_threads main) evs))) u \<noteq> None)"
proof -
  have "threads_ok (new_threads main)" by (simp add: threads_ok_def new_threads_def)
  from threads_ok_run [OF this, of evs] assms show ?thesis
    by (auto simp: threads_ok_def handleRequest_def registerThread_def)
qed

lemma registered_descriptor_alive_witness:
  "map_of (th_descs (foldl thread_step (new_threads 0) [Registers 7, EndsThread 7, Registers 7])) 7 = Some 2"
proof -
  have "th_registered (foldl thread_step (new_threads 0) [Registers 7, EndsThread 7, Registers 7]) 7 = Some 2"
    by (simp add: registerThread_def thread_ends_def new_threads_def)
  from registered_descriptor_alive [OF this] show ?thesis by blast
qed

text \<open>C31: What a request to add a provider that passes the checks leaves behind. It is answered with success
  exactly when the server has acknowledged, in order, all the statements that make up the provider.
  Each acknowledged statement has run, and those of any other answer are a proper beginning, after which
  the statement that was not acknowledged may have run as well. Statements ran more than once, or
  unacknowledged, only where an answer of the server was lost: if none was, each acknowledged one ran
  exactly once, and no other. The registration check has no say in the answer, and is made exactly when
  a provider with registration was added.\<close>

theorem add_provider_reported:
  assumes "read_provider L (be_env B) text = Inr P" and "reject_provider P = None"
    and "addProviderEndpoint L B text (Some d) = Some (Response code b, Some d1, es)"
    and "qs = provider_queries (pr_name P) (pr_user P) (pr_pass P) (pr_domain P) (pr_port P) (pr_register P)"
  shows "\<exists>runs k. prefix (map fst runs) qs \<and> (\<forall>(q, n) \<in> set runs. 1 \<le> n \<and> n \<le> 2) \<and> k \<le> 2
    \<and> (code = OK \<longleftrightarrow> map fst runs = qs)
    \<and> executed_sql d1 = executed_sql d @ unroll runs
         @ (if code = OK then [] else replicate k (c_str (qs ! length runs)))
    \<and> (lost_runs d1 = lost_runs d \<longrightarrow> (\<forall>(q, n) \<in> set runs. n = 1) \<and> k = 0)
    \<and> (es \<noteq> [] \<longleftrightarrow> code = OK \<and> pr_register P \<and> an_socket (be_ami B))"
proof -
  let ?f = "db_addProvider (be_env B) (be_mysql B) (pr_name P) (pr_user P) (pr_pass P) (pr_domain P) (pr_port P) (pr_register P)"
  obtain r inst1 where u: "use_db (be_env B) (be_mysql B) ?f (Some d) = (r, inst1)"
    by (cases "use_db (be_env B) (be_mysql B) ?f (Some d)")
  have a: "provider_answer (pr_register P) r = Response code b" "inst1 = Some d1"
    "if r = Inr True \<and> pr_register P then map_option snd (triggerRegistrationCheck (be_ami B)) = Some es else es = []"
    using assms u by (auto simp: addProviderEndpoint_def addProvider_def split: if_splits)
  have ok: "code = OK \<longleftrightarrow> r = Inr True" using a(1)
    by (cases r) (auto simp: provider_answer_def answer_or_def OK_def SERVER_ERROR_def split: if_splits)
  have e: "es \<noteq> [] \<longleftrightarrow> code = OK \<and> pr_register P \<and> an_socket (be_ami B)"
    using a(3) ok registration_check_sockets by (auto split: if_splits)
  have "\<exists>runs k. runs_of qs (r = Inr True) d d1 runs k"
    using use_db_made [OF u]
  proof (elim disjE exE conjE)
    assume "r = Inl ''stoi''" "inst1 = Some d"
    with a(2) show ?thesis
      by (intro exI [of _ "[]"] exI [of _ 0]) (simp add: runs_of_def assms(4) provider_queries_def)
  next
    fix x d2 assume x: "r = Inr x" "?f d = Some (x, d2)" "inst1 = Some d2"
    from add_provider_runs [OF x(2)] x(1,3) a(2) show ?thesis by (simp add: assms(4))
  qed
  then obtain runs k where "runs_of qs (r = Inr True) d d1 runs k" by blast
  with ok e show ?thesis by (intro exI [of _ runs] exI [of _ k]) (simp add: runs_of_def)
qed

definition demo_provider_json :: "unit json_libs" where
  "demo_provider_json = \<lparr>jl_parse = (\<lambda>_. Inr ()), jl_string = (\<lambda>_ k. Inr k), jl_value_int = (\<lambda>_ _ d. Inr d),
     jl_value_string = (\<lambda>_ k d. Inr k), jl_contains = (\<lambda>_ k. k = ''register''), jl_at = (\<lambda>_ _. Inr ()),
     jl_get_bool = (\<lambda>_. None), jl_get_string = (\<lambda>_. Some ''Yes'')\<rparr>"

lemma add_provider_reported_witness:
  "\<exists>d1 runs k. addProviderEndpoint demo_provider_json \<lparr>be_env = Map.empty, be_mysql = demo_mysql [0, 1062], be_ami = demo_net\<rparr> []
      (Some demo_db) = Some (Response SERVER_ERROR (Text ''Failed to add provider''), Some d1, [])
    \<and> executed_sql d1 = unroll runs
        @ replicate k (c_str (provider_queries ''provider_name'' ''username'' ''password'' ''domain'' 5060 True ! length runs))
    \<and> prefix (map fst runs) (provider_queries ''provider_name'' ''username'' ''password'' ''domain'' 5060 True)
    \<and> map fst runs \<noteq> provider_queries ''provider_name'' ''username'' ''password'' ''domain'' 5060 True"
proof -
  let ?B = "\<lparr>be_env = Map.empty, be_mysql = demo_mysql [0, 1062], be_ami = demo_net\<rparr>"
  let ?P = "\<lparr>pr_name = ''provider_name'', pr_user = ''username'', pr_pass = ''password'', pr_domain = ''domain'',
    pr_port = 5060, pr_register = True\<rparr>"
  have p: "atoi ''5060'' = 5060" by code_simp
  have y: "to_lower (CHR ''Y'') = CHR ''y''" "to_lower (CHR ''e'') = CHR ''e''" "to_lower (CHR ''s'') = CHR ''s''"
    by code_simp+
  have 1: "read_provider demo_provider_json (be_env ?B) [] = Inr ?P"
    by (simp add: read_provider_def demo_provider_json_def getenv_or_def p y read_registration_def parseYesNoBool_def)
  have 2: "reject_provider ?P = None" by (simp add: reject_provider_def)
  obtain q1 q2 q3 q4 where q: "auth_query ''provider_name'' ''username'' ''password'' = q1" "aor_query ''provider_name'' ''domain'' 5060 = q2"
    "endpoint_query ''provider_name'' ''username'' ''domain'' = q3" "reg_query ''provider_name'' ''username'' ''domain'' 5060 = q4" by blast
  have "\<exists>d1. db_addProvider Map.empty (demo_mysql [0, 1062]) ''provider_name'' ''username'' ''password'' ''domain'' 5060 True demo_db
      = Some (False, d1)"
    unfolding db_addProvider_def provider_queries_def q
    by (simp add: executeSqlQuery_def send_query_def demo_sql_defs Let_def)
  then obtain d1 where "db_addProvider Map.empty (demo_mysql [0, 1062]) ''provider_name'' ''username'' ''password'' ''domain'' 5060 True demo_db
      = Some (False, d1)" by blast
  with 1 2 have 3: "addProviderEndpoint demo_provider_json ?B [] (Some demo_db) = Some (Response SERVER_ERROR (Text ''Failed to add provider''), Some d1, [])"
    by (simp add: addProviderEndpoint_def addProvider_def use_db_def db_instance_def provider_answer_def answer_or_def)
  have "executed_sql demo_db = []" by (simp add: executed_sql_def demo_db_def)
  moreover obtain runs k where
    "prefix (map fst runs) (provider_queries ''provider_name'' ''username'' ''password'' ''domain'' 5060 True)"
    "SERVER_ERROR = OK \<longleftrightarrow> map fst runs = provider_queries ''provider_name'' ''username'' ''password'' ''domain'' 5060 True"
    "executed_sql d1 = executed_sql demo_db @ unroll runs @ (if SERVER_ERROR = OK then []
       else replicate k (c_str (provider_queries ''provider_name'' ''username'' ''password'' ''domain'' 5060 True ! length runs)))"
    using add_provider_reported [OF 1 2 3 refl] by auto
  moreover have "SERVER_ERROR \<noteq> OK" by (simp add: OK_def SERVER_ERROR_def)
  ultimately show ?thesis using 3 by (intro exI [of _ d1] exI [of _ runs] exI [of _ k]) simp
qed

end
