(* ===== verification/Call_Life.thy ===== *)
theory Call_Life
  imports Call
begin

text \<open>
  A call over its whole life: runs of the callbacks PJSIP makes on it, what they account for
  (counters and reports), a WebSocket that cannot be reached, the destructor racing with the last
  callback, and the two legs of a bridge.
\<close>

section \<open>Runs of callbacks\<close>

datatype call_event = StateEv state_env call_info
  | MediaEv media_env "media_info list option" "media_info list option"

fun call_step :: "nat \<Rightarrow> call_event \<Rightarrow> call_heap \<times> upload_mgr \<Rightarrow> ((call_heap \<times> upload_mgr) \<times> call_effect list) option" where
  "call_step self (StateEv S ci) W = onCallState S ci self W"
| "call_step self (MediaEv E media peer_media) (H, um) =
     map_option (\<lambda>(H', es). ((H', um), es)) (onCallMediaState E media peer_media self H)"

fun call_run :: "nat \<Rightarrow> call_event list \<Rightarrow> call_heap \<times> upload_mgr \<Rightarrow> ((call_heap \<times> upload_mgr) \<times> call_effect list) option" where
  "call_run self [] W = Some (W, [])"
| "call_run self (e # evs) W =
     (case call_step self e W of
        None \<Rightarrow> None
      | Some (W1, es) \<Rightarrow>
          (case call_run self evs W1 of None \<Rightarrow> None | Some (W2, fs) \<Rightarrow> Some (W2, es @ fs)))"

fun infos :: "call_event list \<Rightarrow> call_info list" where
  "infos [] = []"
| "infos (StateEv S ci # evs) = ci # infos evs"
| "infos (MediaEv E m p # evs) = infos evs"

text \<open>What the accounting of a call is about.\<close>

fun accounts :: "call_effect \<Rightarrow> bool" where
  "accounts (SendWebhook _ _ _) = True"
| "accounts CountAnswered = True"
| "accounts CountDown = True"
| "accounts _ = False"

definition accounting :: "call_effect list \<Rightarrow> call_effect list" where
  "accounting es = filter accounts es"

lemma accounting_simps [simp]:
  "accounting [] = []" "accounting (e # es) = (if accounts e then e # accounting es else accounting es)"
  "accounting (es @ fs) = accounting es @ accounting fs"
  "accounting (map CallWs ws) = []" "accounting (link_effects lk) = []"
  by (induction ws) (cases lk; simp add: accounting_def)+

text \<open>A plain call: not a human leg and not bridged to one. Its identity does not change.\<close>

definition plain :: "string \<Rightarrow> string \<Rightarrow> mycall \<Rightarrow> bool" where
  "plain uid url c \<longleftrightarrow> \<not> is_bridge_leg c \<and> bridged_leg c = None \<and> string_call_id c = uid \<and> c_webhook_url c = url"

lemma plain_updates [simp]:
  "plain uid url (c\<lparr>med_port := a\<rparr>) = plain uid url c" "plain uid url (c\<lparr>media_connected := b\<rparr>) = plain uid url c"
  "plain uid url (c\<lparr>call_answered := b\<rparr>) = plain uid url c" "plain uid url (c\<lparr>hangup_source := t\<rparr>) = plain uid url c"
  "plain uid url (c\<lparr>should_cleanup := b\<rparr>) = plain uid url c"
  by (simp_all add: plain_def)

lemma setup_loop_plain:
  "setup_loop E ms c = (c', es) \<Longrightarrow> plain uid url c' = plain uid url c \<and> accounting es = []"
proof (induction ms arbitrary: c c' es)
  case (Cons m ms)
  obtain ok p ws where i: "initializeWebSocket (me_fs E) (me_conns E) (me_stamp E) (call_port (c_directCall c) E c)
      = (ok, p, ws)" by (cases "initializeWebSocket (me_fs E) (me_conns E) (me_stamp E) (call_port (c_directCall c) E c)")
  obtain c2 fs where r: "setup_loop E ms (c\<lparr>med_port := Some p, media_connected := True\<rparr>) = (c2, fs)"
    by (cases "setup_loop E ms (c\<lparr>med_port := Some p, media_connected := True\<rparr>)")
  from Cons.IH [OF r] Cons.IH [of c c' es] Cons.prems i r show ?case
    by (auto simp: Let_def split: if_splits option.splits)
qed simp

lemma setupMedia_plain:
  "setupMedia E media c = (c', es) \<Longrightarrow> plain uid url c' = plain uid url c \<and> accounting es = []"
  by (auto simp: setupMedia_def setup_loop_plain split: if_splits option.splits)

lemma bindMedia_plain:
  "bindMedia E c = (c', es) \<Longrightarrow> plain uid url c' = plain uid url c \<and> accounting es = []"
  by (auto simp: bindMedia_def Let_def split: if_splits option.splits prod.splits)

lemma disconnect_not_early: "disconnect_status code c t \<noteq> ''early''"
  by (simp add: disconnect_status_def)

lemma status_early: "status_of ci = ''early'' \<longleftrightarrow> ci_state ci = InvEarly"
  by (cases "ci_state ci") (simp_all add: status_of_def disconnect_not_early)

definition accounted :: "string \<Rightarrow> string \<Rightarrow> call_info \<Rightarrow> call_effect list \<Rightarrow> bool" where
  "accounted uid url ci es \<longleftrightarrow> (\<exists>r. cdr_status r = status_of ci \<and> accounting es =
     (if ci_state ci = InvConfirmed then [CountAnswered] else if ci_state ci = InvDisconnected then [CountDown] else [])
     @ (if ci_state ci = InvEarly then [] else [SendWebhook uid url (cdr_json r)]))"

lemma report_call_plain:
  assumes "report_call S ci (status_of ci) c = (c', es)" and "plain uid url c"
  shows "plain uid url c'"
    and "\<exists>r. cdr_status r = status_of ci
      \<and> accounting es = (if ci_state ci = InvEarly then [] else [SendWebhook uid url (cdr_json r)])"
proof -
  show "plain uid url c'" using assms by (auto simp: report_call_def read_url_def plain_def Let_def)
  have "cdr_status (call_record S ci (status_of ci) (read_url c)) = status_of ci" by (simp add: call_record_def)
  with assms show "\<exists>r. cdr_status r = status_of ci
      \<and> accounting es = (if ci_state ci = InvEarly then [] else [SendWebhook uid url (cdr_json r)])"
    by (intro exI [of _ "call_record S ci (status_of ci) (read_url c)"])
      (auto simp: report_call_def read_url_def plain_def status_early Let_def)
qed

lemma call_confirmed_plain:
  "call_confirmed S c = (c', es) \<Longrightarrow> plain uid url c' = plain uid url c \<and> accounting es = [CountAnswered]"
proof -
  assume r: "call_confirmed S c = (c', es)"
  obtain c1 fs where m: "setupMedia (se_menv S) (se_media S) (c\<lparr>call_answered := True\<rparr>) = (c1, fs)"
    by (cases "setupMedia (se_menv S) (se_media S) (c\<lparr>call_answered := True\<rparr>)")
  with r have "c' = call_startRecording (se_now S) c1" "es = CountAnswered # fs" by (simp_all add: call_confirmed_def)
  with setupMedia_plain [OF m] show ?thesis by (simp add: call_startRecording_def split: option.split)
qed

lemma call_down_plain:
  assumes "plain uid url c"
  shows "\<exists>c' um' es. call_down S c H um = Some (H, c', um', es) \<and> plain uid url c' \<and> accounting es = [CountDown]
     \<and> med_port c' = None"
proof -
  let ?c1 = "c\<lparr>should_cleanup := True\<rparr>"
  let ?c2 = "if hangup_source ?c1 = ''none'' then setHangupSource ''user'' ?c1 else ?c1"
  have h: "hang_bridged ?c1 H = Some (H, ?c1, [])" using assms by (simp add: hang_bridged_def plain_def)
  have c2: "plain uid url ?c2" using assms by (simp add: setHangupSource_def)
  obtain c3 um' files where r: "call_stopRecording (se_can_open S) ?c2 um = (c3, um', files)"
    by (cases "call_stopRecording (se_can_open S) ?c2 um")
  have c3: "plain uid url c3" using r c2
    by (auto simp: call_stopRecording_def split: option.splits prod.splits)
  obtain c4 fs where f: "release_port c3 = (c4, fs)" by (cases "release_port c3")
  have c4: "plain uid url c4" "accounting fs = []" "med_port c4 = None"
    using f c3 by (auto simp: release_port_def split: option.splits)
  have "call_down S c H um = Some (H, c4, um', [] @ [WriteFiles files] @ fs @ [CountDown])"
    unfolding call_down_def h option.case prod.case Let_def r f ..
  with c4 show ?thesis by simp
qed

text \<open>Only a call that goes down gives its media port up.\<close>

lemma setup_loop_has_port: "med_port c \<noteq> None \<Longrightarrow> setup_loop E ms c = (c, [])"
  by (induction ms) auto

lemma setupMedia_port: "setupMedia E media c = (c', es) \<Longrightarrow> med_port c \<noteq> None \<longrightarrow> med_port c' \<noteq> None"
  by (auto simp: setupMedia_def setup_loop_has_port split: if_splits option.splits)

lemma bindMedia_port: "bindMedia E c = (c', es) \<Longrightarrow> med_port c \<noteq> None \<longrightarrow> med_port c' \<noteq> None"
  by (auto simp: bindMedia_def Let_def split: if_splits option.splits prod.splits)

lemma call_confirmed_port: "call_confirmed S c = (c', es) \<Longrightarrow> med_port c \<noteq> None \<longrightarrow> med_port c' \<noteq> None"
  using setupMedia_port [of "se_menv S" "se_media S" "c\<lparr>call_answered := True\<rparr>"]
  by (auto simp: call_confirmed_def call_startRecording_def split: prod.splits option.splits)

lemma report_call_port: "report_call S ci status c = (c', es) \<Longrightarrow> med_port c' = med_port c"
  by (auto simp: report_call_def read_url_def Let_def)

lemma onCallState_plain:
  assumes "H self = Some c" and "plain uid url c"
  shows "\<exists>H' um' c' es. onCallState S ci self (H, um) = Some ((H', um'), es) \<and> H' self = Some c' \<and> plain uid url c'
    \<and> accounted uid url ci es \<and> H' = H(self \<mapsto> c')
    \<and> (if ci_state ci = InvDisconnected then med_port c' = None else med_port c \<noteq> None \<longrightarrow> med_port c' \<noteq> None)"
proof -
  have leg: "\<not> is_bridge_leg c" using assms(2) by (simp add: plain_def)
  consider (up) "ci_state ci = InvConfirmed" | (down) "ci_state ci = InvDisconnected"
    | (other) "ci_state ci \<noteq> InvConfirmed" "ci_state ci \<noteq> InvDisconnected" by blast
  then show ?thesis
  proof cases
    case up
    obtain c1 es where c1: "call_confirmed S c = (c1, es)" by (cases "call_confirmed S c")
    obtain c2 rs where c2: "report_call S ci (status_of ci) c1 = (c2, rs)" by (cases "report_call S ci (status_of ci) c1")
    have "plain uid url c1" "accounting es = [CountAnswered]" using call_confirmed_plain [OF c1] assms(2) by simp_all
    moreover have "med_port c2 = med_port c1" using report_call_port [OF c2] .
    ultimately show ?thesis using call_confirmed_port [OF c1] report_call_plain [OF c2] up leg assms(1) c1 c2
      by (auto simp: onCallState_def accounted_def)
  next
    case down
    obtain c1 um' es where c1: "call_down S c H um = Some (H, c1, um', es)" "plain uid url c1" "accounting es = [CountDown]"
      "med_port c1 = None" using call_down_plain [OF assms(2)] by blast
    obtain c2 rs where c2: "report_call S ci (status_of ci) c1 = (c2, rs)" by (cases "report_call S ci (status_of ci) c1")
    have "med_port c2 = None" using report_call_port [OF c2] c1(4) by simp
    with report_call_plain [OF c2 c1(2)] down leg assms(1) c1 c2 show ?thesis
      by (auto simp: onCallState_def accounted_def)
  next
    case other
    obtain c2 rs where c2: "report_call S ci (status_of ci) c = (c2, rs)" by (cases "report_call S ci (status_of ci) c")
    with report_call_plain [OF c2 assms(2)] report_call_port [OF c2] other leg assms(1) show ?thesis
      by (auto simp: onCallState_def accounted_def)
  qed
qed

lemma onCallMediaState_plain:
  assumes "H self = Some c" and "plain uid url c"
  shows "\<exists>H' c' es. onCallMediaState E media peer_media self H = Some (H', es) \<and> H' self = Some c' \<and> plain uid url c'
    \<and> accounting es = [] \<and> H' = H(self \<mapsto> c') \<and> (med_port c \<noteq> None \<longrightarrow> med_port c' \<noteq> None)"
proof -
  have leg: "\<not> is_bridge_leg c" using assms(2) by (simp add: plain_def)
  have same: "H(self \<mapsto> c) = H" using assms(1) by (simp add: fun_upd_idem)
  obtain c1 es where c1: "setupMedia E media c = (c1, es)" by (cases "setupMedia E media c")
  obtain c2 fs where c2: "bindMedia E c = (c2, fs)" by (cases "bindMedia E c")
  note facts = setupMedia_plain [OF c1] bindMedia_plain [OF c2] setupMedia_port [OF c1] bindMedia_port [OF c2] assms leg c1 c2
  consider (up) "\<not> media_connected c"
    | (bound) ms m where "media_connected c" "media = Some ms" "find m_audio ms = Some m" "m_get m"
    | (idle) "onCallMediaState E media peer_media self H = Some (H, [])"
    using assms(1) leg
    by (cases "media_connected c"; cases media; cases "find m_audio (the media)"; cases "m_get (the (find m_audio (the media)))")
      (auto simp: onCallMediaState_def)
  then show ?thesis
  proof cases
    case up
    with facts show ?thesis by (simp add: onCallMediaState_def)
  next
    case bound
    with facts show ?thesis by (simp add: onCallMediaState_def)
  next
    case idle
    with assms same show ?thesis by simp
  qed
qed

section \<open>Accounting over a run\<close>

fun reported :: "call_effect \<Rightarrow> (string \<times> string \<times> string) option" where
  "reported (SendWebhook u w j) = Some (u, w, j)"
| "reported _ = None"

definition reports :: "call_effect list \<Rightarrow> (string \<times> string \<times> string) list" where
  "reports es = List.map_filter reported es"

definition reported_infos :: "call_info list \<Rightarrow> call_info list" where
  "reported_infos cis = filter (\<lambda>ci. ci_state ci \<noteq> InvEarly) cis"

lemma reports_append [simp]: "reports [] = []" "reports (es @ fs) = reports es @ reports fs"
  by (simp_all add: reports_def List.map_filter_def)

lemma reports_accounting: "reports (accounting es) = reports es"
  "count_list (accounting es) CountDown = count_list es CountDown"
  "count_list (accounting es) CountAnswered = count_list es CountAnswered"
proof -
  show "reports (accounting es) = reports es"
  proof (induction es)
    case (Cons e es)
    then show ?case by (cases e) (simp_all add: reports_def map_filter_simps)
  qed simp
  show "count_list (accounting es) CountDown = count_list es CountDown"
    by (induction es) auto
  show "count_list (accounting es) CountAnswered = count_list es CountAnswered"
    by (induction es) auto
qed

definition run_accounts :: "string \<Rightarrow> string \<Rightarrow> call_info list \<Rightarrow> call_effect list \<Rightarrow> bool" where
  "run_accounts uid url cis es \<longleftrightarrow>
     count_list es CountDown = count_list (map ci_state cis) InvDisconnected
     \<and> count_list es CountAnswered = count_list (map ci_state cis) InvConfirmed
     \<and> (\<exists>rs. reports es = map (\<lambda>r. (uid, url, cdr_json r)) rs
          \<and> map cdr_status rs = map status_of (reported_infos cis))"

lemma run_accounts_Nil: "accounting es = [] \<Longrightarrow> run_accounts uid url [] es"
  using reports_accounting [of es] by (simp add: run_accounts_def reported_infos_def)

lemma run_accounts_one:
  assumes "accounted uid url ci es"
  shows "run_accounts uid url [ci] es"
proof -
  obtain r where r: "cdr_status r = status_of ci" and e: "accounting es =
     (if ci_state ci = InvConfirmed then [CountAnswered] else if ci_state ci = InvDisconnected then [CountDown] else [])
     @ (if ci_state ci = InvEarly then [] else [SendWebhook uid url (cdr_json r)])"
    using assms by (auto simp: accounted_def)
  have e': "reports es = (if ci_state ci = InvEarly then [] else [(uid, url, cdr_json r)])"
    unfolding reports_accounting(1) [of es, symmetric] e reports_append by (simp add: reports_def map_filter_simps)
  have "\<exists>rs. reports es = map (\<lambda>r. (uid, url, cdr_json r)) rs \<and> map cdr_status rs = map status_of (reported_infos [ci])"
    using r e' by (intro exI [of _ "if ci_state ci = InvEarly then [] else [r]"]) (simp add: reported_infos_def)
  with reports_accounting(2,3) [of es] e show ?thesis by (auto simp: run_accounts_def)
qed

lemma run_accounts_append:
  assumes "run_accounts uid url cis es" and "run_accounts uid url dis fs"
  shows "run_accounts uid url (cis @ dis) (es @ fs)"
proof -
  obtain rs qs where "reports es = map (\<lambda>r. (uid, url, cdr_json r)) rs" "map cdr_status rs = map status_of (reported_infos cis)"
    "reports fs = map (\<lambda>r. (uid, url, cdr_json r)) qs" "map cdr_status qs = map status_of (reported_infos dis)"
    using assms by (auto simp: run_accounts_def)
  then have "\<exists>rs. reports (es @ fs) = map (\<lambda>r. (uid, url, cdr_json r)) rs
      \<and> map cdr_status rs = map status_of (reported_infos (cis @ dis))"
    by (intro exI [of _ "rs @ qs"]) (simp add: reported_infos_def)
  with assms show ?thesis by (simp add: run_accounts_def)
qed

lemma call_run_accounts:
  assumes "H self = Some c" and "plain uid url c"
  shows "\<exists>W es. call_run self evs (H, um) = Some (W, es) \<and> run_accounts uid url (infos evs) es"
  using assms
proof (induction evs arbitrary: H um c)
  case Nil
  show ?case by (simp add: run_accounts_Nil)
next
  case (Cons e evs)
  have "\<exists>H' um' c' es. call_step self e (H, um) = Some ((H', um'), es) \<and> H' self = Some c' \<and> plain uid url c'
     \<and> run_accounts uid url (infos [e]) es"
  proof (cases e)
    case (StateEv S ci)
    with onCallState_plain [of H self c uid url S ci um, OF Cons.prems] show ?thesis by (auto intro: run_accounts_one)
  next
    case (MediaEv E media peer_media)
    with onCallMediaState_plain [of H self c uid url E media peer_media, OF Cons.prems] show ?thesis
      by (auto intro: run_accounts_Nil)
  qed
  then obtain H' um' c' es where s: "call_step self e (H, um) = Some ((H', um'), es)" "H' self = Some c'"
    "plain uid url c'" "run_accounts uid url (infos [e]) es" by blast
  from Cons.IH [of H' c' um', OF s(2,3)] obtain W fs where f: "call_run self evs (H', um') = Some (W, fs)"
    "run_accounts uid url (infos evs) fs" by blast
  have "infos (e # evs) = infos [e] @ infos evs" by (cases e) auto
  with s f run_accounts_append [OF s(4) f(2)] show ?case by simp
qed

section \<open>A WebSocket that cannot be reached\<close>

lemma setup_loop_first_audio:
  assumes "find m_audio ms = Some m" and "m_get m" and "med_port c = None"
    and "initializeWebSocket (me_fs E) (me_conns E) (me_stamp E) (call_port (c_directCall c) E c) = (False, p, ws)"
  shows "setup_loop E ms c = (c\<lparr>med_port := Some p\<rparr>, map CallWs ws)"
  using assms(1) by (induction ms) (use assms(2-4) in \<open>auto split: if_splits\<close>)

lemma call_port_fields:
  "\<not> p_initialized (call_port d E c)" "p_ws_uri (call_port d E c) = c_ws_url c" "p_has_call (call_port d E c)"
  by (simp_all add: call_port_def new_port_def setCall_def)

lemma initialize_fails:
  assumes "\<not> p_initialized p" and "p_ws_uri p \<noteq> []" and "p_ws_uri p \<noteq> ''TEST_SIPP_RINGING''"
    and "\<not> conn_opens (conns 1)" "\<not> conn_opens (conns 2)" "\<not> conn_opens (conns 3)"
  shows "\<exists>p' es. initializeWebSocket fs conns stamp p = (False, p', es) \<and> p_handler p' = None \<and> \<not> p_initialized p'"
proof -
  let ?h0 = "setMediaPort (setDisconnectCallback (new_handler (p_sample_rate p) (p_ws_uri p) stamp))"
  have h0: "\<not> connected ?h0"
    by (auto simp: setMediaPort_def setDisconnectCallback_def new_handler_def setAgentId_def Let_def split: option.splits)
  obtain ok h es m where l: "connect_loop fs conns (p_ws_uri p) 1 MAX_RETRIES ?h0 = (ok, h, es, m)"
    by (cases "connect_loop fs conns (p_ws_uri p) 1 MAX_RETRIES ?h0")
  have "\<not> ok"
  proof
    assume ok
    with connect_loop_outcome [OF assms(3) h0 l] have "1 \<le> m" "m < 4" "conn_opens (conns m)" by (auto simp: MAX_RETRIES_def)
    moreover then have "m = 1 \<or> m = 2 \<or> m = 3" by arith
    ultimately show False using assms(4-6) by auto
  qed
  with l assms(1,2) show ?thesis by (simp add: initializeWebSocket_def)
qed

section \<open>Going down\<close>

definition hangups :: "call_effect list \<Rightarrow> nat list" where
  "hangups es = List.map_filter (\<lambda>e. case e of HangupLeg a \<Rightarrow> Some a | _ \<Rightarrow> None) es"

lemma hangups_simps [simp]:
  "hangups [] = []" "hangups (e # es) = (case e of HangupLeg a \<Rightarrow> a # hangups es | _ \<Rightarrow> hangups es)"
  "hangups (es @ fs) = hangups es @ hangups fs"
  by (auto simp: hangups_def List.map_filter_def split: call_effect.split)

text \<open>A caller that goes down: whom it hangs up, and how it is accounted for.\<close>

lemma caller_down:
  assumes "H a = Some c" and "\<not> is_bridge_leg c" and "ci_state ci = InvDisconnected"
    and "case bridged_leg c of None \<Rightarrow> hung = [] \<and> H1 = H
         | Some b \<Rightarrow> (\<exists>h. H b = Some h \<and> hung = [b] \<and> H1 = H(b \<mapsto> h\<lparr>bridge_peer := None\<rparr>))"
  shows "\<exists>c' um' es. onCallState S ci a (H, um) = Some ((H1(a \<mapsto> c'), um'), es) \<and> hangups es = hung
    \<and> count_list es CountDown = 1
    \<and> hangup_source c' = (if hangup_source c = ''none'' then ''user'' else hangup_source c)"
proof -
  obtain c1 es1 where h: "hang_bridged (c\<lparr>should_cleanup := True\<rparr>) H = Some (H1, c1, es1)"
    and c1: "hangup_source c1 = hangup_source c" "hangups es1 = hung" "count_list es1 CountDown = 0"
    using assms(4) by (auto simp: hang_bridged_def split: option.splits)
  let ?c2 = "if hangup_source c1 = ''none'' then setHangupSource ''user'' c1 else c1"
  have c2: "hangup_source ?c2 = (if hangup_source c = ''none'' then ''user'' else hangup_source c)"
    using c1 by (simp add: setHangupSource_def)
  obtain c3 um' files where r: "call_stopRecording (se_can_open S) ?c2 um = (c3, um', files)"
    by (cases "call_stopRecording (se_can_open S) ?c2 um")
  have c3: "hangup_source c3 = hangup_source ?c2" using r
    by (auto simp: call_stopRecording_def split: option.splits prod.splits)
  obtain c4 fs where f: "release_port c3 = (c4, fs)" by (cases "release_port c3")
  have c4: "hangup_source c4 = hangup_source c3" "hangups fs = []" "count_list fs CountDown = 0"
    using f by (auto simp: release_port_def split: option.splits)
  have d: "call_down S c H um = Some (H1, c4, um', es1 @ [WriteFiles files] @ fs @ [CountDown])"
    unfolding call_down_def h option.case prod.case Let_def r f ..
  obtain c5 rs where p: "report_call S ci (status_of ci) c4 = (c5, rs)" by (cases "report_call S ci (status_of ci) c4")
  have c5: "hangup_source c5 = hangup_source c4" "hangups rs = []" "count_list rs CountDown = 0"
    using p by (auto simp: report_call_def read_url_def Let_def)
  have "onCallState S ci a (H, um)
      = Some ((H1(a \<mapsto> c5), um'), (es1 @ [WriteFiles files] @ fs @ [CountDown]) @ rs)"
    using assms(1-3) d p by (simp add: onCallState_def)
  with c1 c2 c3 c4 c5 show ?thesis
    by (intro exI [of _ c5] exI [of _ um'] exI [of _ "(es1 @ [WriteFiles files] @ fs @ [CountDown]) @ rs"] conjI)
      simp_all
qed

section \<open>Properties\<close>

text \<open>C23: Over any run of state and media callbacks, in any order and with any repetition, on a call that
  is no bridge leg and not bridged to one: no callback fails, the call is counted down once for
  each DISCONNECTED callback and counted as answered once for each CONFIRMED one, so exactly once
  each where PJSIP reports the state once; and it reports, in order, one record for each state
  callback other than early, with that callback's status, however often the early state repeats.\<close>

theorem call_accounting:
  assumes "H self = Some c" and "\<not> is_bridge_leg c" and "bridged_leg c = None"
  shows "\<exists>W es rs. call_run self evs (H, um) = Some (W, es)
    \<and> count_list es CountDown = count_list (map ci_state (infos evs)) InvDisconnected
    \<and> count_list es CountAnswered = count_list (map ci_state (infos evs)) InvConfirmed
    \<and> reports es = map (\<lambda>r. (string_call_id c, c_webhook_url c, cdr_json r)) rs
    \<and> map cdr_status rs = map status_of (reported_infos (infos evs))"
proof -
  have "plain (string_call_id c) (c_webhook_url c) c" using assms(2,3) by (simp add: plain_def)
  from call_run_accounts [of H self c "string_call_id c" "c_webhook_url c" evs um, OF assms(1) this] show ?thesis
    by (auto simp: run_accounts_def)
qed

definition demo_state_env :: state_env where
  "demo_state_env = \<lparr>se_now = 0, se_format = (\<lambda>_. ''t''), se_media = None,
     se_menv = \<lparr>me_fs = Map.empty, me_conns = (\<lambda>_. CreateError), me_stamp = ''0'', me_now = 0, me_link = LinkOk\<rparr>,
     se_can_open = (\<lambda>_. True)\<rparr>"

definition demo_info :: "inv_state \<Rightarrow> int \<Rightarrow> call_info" where
  "demo_info st code = \<lparr>ci_state = st, ci_code = code, ci_connect_sec = 0, ci_total_sec = 3,
     ci_remoteUri = ''sip:+911234567890@a'', ci_localUri = ''sip:b''\<rparr>"

definition demo_call :: mycall where
  "demo_call = new_call ''wss://a'' ''u1'' ''https://w'' ''t'' 0 8000 False"

lemma demo_call_fields [simp]:
  "\<not> is_bridge_leg demo_call" "bridged_leg demo_call = None" "med_port demo_call = None"
  "c_ws_url demo_call = ''wss://a''" "\<not> media_connected demo_call" "hangup_source demo_call = ''none''"
  by (simp_all add: demo_call_def new_call_def)

lemma call_accounting_witness:
  "\<exists>W es rs. call_run 0 [StateEv demo_state_env (demo_info InvCalling 0), StateEv demo_state_env (demo_info InvEarly 180),
        StateEv demo_state_env (demo_info InvEarly 183), StateEv demo_state_env (demo_info InvDisconnected 486)]
      ([0 \<mapsto> demo_call], new_upload_mgr Map.empty) = Some (W, es) \<and> count_list es CountDown = 1
    \<and> count_list es CountAnswered = 0 \<and> length (reports es) = 2"
proof -
  let ?evs = "[StateEv demo_state_env (demo_info InvCalling 0), StateEv demo_state_env (demo_info InvEarly 180),
    StateEv demo_state_env (demo_info InvEarly 183), StateEv demo_state_env (demo_info InvDisconnected 486)]"
  obtain W es rs where r: "call_run 0 ?evs ([0 \<mapsto> demo_call], new_upload_mgr Map.empty) = Some (W, es)"
    "count_list es CountDown = count_list (map ci_state (infos ?evs)) InvDisconnected"
    "count_list es CountAnswered = count_list (map ci_state (infos ?evs)) InvConfirmed"
    "reports es = map (\<lambda>r. (string_call_id demo_call, c_webhook_url demo_call, cdr_json r)) rs"
    "map cdr_status rs = map status_of (reported_infos (infos ?evs))"
    using call_accounting [of "[0 \<mapsto> demo_call]" 0 demo_call ?evs "new_upload_mgr Map.empty"] by auto
  have "length rs = 2" using arg_cong [OF r(5), of length] by (simp add: reported_infos_def demo_info_def)
  with r show ?thesis by (auto simp: demo_info_def)
qed

text \<open>When the WebSocket cannot be reached while the media is set up, the call is not hung up: it
  keeps a media port without a handler, every media callback after that does nothing, whatever could
  be reached by then, and the caller hears silence.\<close>

lemma unreachable_never_retried:
  assumes "med_port c = None" and "call_answered c" and "\<not> is_bridge_leg c" and "\<not> media_connected c"
    and "c_ws_url c \<noteq> []" and "c_ws_url c \<noteq> ''TEST_SIPP_RINGING''"
    and "find m_audio ms = Some m" and "m_get m"
    and "\<not> conn_opens (me_conns E 1)" "\<not> conn_opens (me_conns E 2)" "\<not> conn_opens (me_conns E 3)"
  shows "\<exists>p c1 es. setupMedia E (Some ms) c = (c1, es) \<and> med_port c1 = Some p \<and> HangupLeg self \<notin> set es
    \<and> onCallMediaState E2 media2 peer_media (self :: nat) (H(self \<mapsto> c1)) = Some (H(self \<mapsto> c1), [])
    \<and> onFrameRequested expected ts p = Some (replicate expected 0, p, [])"
proof -
  let ?p0 = "call_port (c_directCall c) E c"
  obtain p ws where i: "initializeWebSocket (me_fs E) (me_conns E) (me_stamp E) ?p0 = (False, p, ws)"
    and p: "p_handler p = None" "\<not> p_initialized p"
    using initialize_fails [of ?p0 "me_conns E" "me_fs E" "me_stamp E"] assms(5,6,9-11)
    by (auto simp: call_port_fields)
  let ?c1 = "c\<lparr>med_port := Some p\<rparr>"
  have s: "setupMedia E (Some ms) c = (?c1, map CallWs ws)"
    using setup_loop_first_audio [OF assms(7,8,1) i] assms(2) by (simp add: setupMedia_def)
  have "setupMedia E2 media2 ?c1 = (?c1, [])"
    using assms(2) by (simp add: setupMedia_def setup_loop_has_port split: option.split)
  then have "onCallMediaState E2 media2 peer_media self (H(self \<mapsto> ?c1)) = Some (H(self \<mapsto> ?c1), [])"
    using assms(3,4) by (simp add: onCallMediaState_def)
  moreover have "onFrameRequested expected ts p = Some (replicate expected 0, p, [])"
    using p by (simp add: onFrameRequested_def)
  moreover have "HangupLeg self \<notin> set (map CallWs ws)" by auto
  ultimately show ?thesis using s by auto
qed

text \<open>C24: Ending an answered call over the API: the destructor stops the recording and waits. If nothing
  happens meanwhile, it cleans the port up. But the call's DISCONNECTED callback, which its own
  BYE brings about, takes the port away, and the destructor then follows a null pointer.\<close>

theorem end_call_null_port:
  assumes "H self = Some c" and "\<not> is_bridge_leg c" and "bridged_leg c = None" and "med_port c = Some p"
    and "dtor_begin can_open media c um = (go, c1, um1, es1)" and "ci_state ci = InvDisconnected"
  shows "go \<and> dtor_cleanup thread_ok c1 \<noteq> None
    \<and> (\<exists>H' um' es c2. onCallState S ci self (H(self \<mapsto> c1), um1) = Some ((H', um'), es) \<and> H' self = Some c2
         \<and> dtor_cleanup thread_ok c2 = None)"
proof -
  obtain p1 where c1: "go" "c1 = c\<lparr>med_port := Some p1\<rparr>"
    using assms(4,5) by (auto simp: dtor_begin_def call_stopRecording_def split: prod.splits)
  have "plain (string_call_id c) (c_webhook_url c) c1" using c1(2) assms(2,3) by (simp add: plain_def)
  from onCallState_plain [of "H(self \<mapsto> c1)" self c1 _ _ S ci um1, OF _ this] assms(6)
  obtain H' um' c2 es where r: "onCallState S ci self (H(self \<mapsto> c1), um1) = Some ((H', um'), es)"
    "H' self = Some c2" "med_port c2 = None" by auto
  have "dtor_cleanup thread_ok c2 = None" using r(3) by (simp add: dtor_cleanup_def)
  moreover have "dtor_cleanup thread_ok c1 \<noteq> None" using c1(2) by (simp add: dtor_cleanup_def split: prod.split)
  ultimately show ?thesis using c1(1) r(1,2) by blast
qed

lemma end_call_null_port_witness:
  "\<exists>go c1 um1 es1 c2 H' um' es. dtor_begin (\<lambda>_. True) None (demo_call\<lparr>med_port := Some (call_port False (se_menv demo_state_env) demo_call)\<rparr>)
       (new_upload_mgr Map.empty) = (go, c1, um1, es1)
     \<and> onCallState demo_state_env (demo_info InvDisconnected 200) 0 ([0 \<mapsto> c1], um1) = Some ((H', um'), es)
     \<and> H' 0 = Some c2 \<and> dtor_cleanup True c2 = None"
proof -
  let ?c = "demo_call\<lparr>med_port := Some (call_port False (se_menv demo_state_env) demo_call)\<rparr>"
  obtain go c1 um1 es1 where d: "dtor_begin (\<lambda>_. True) None ?c (new_upload_mgr Map.empty) = (go, c1, um1, es1)"
    by (cases "dtor_begin (\<lambda>_. True) None ?c (new_upload_mgr Map.empty)")
  have "ci_state (demo_info InvDisconnected 200) = InvDisconnected" by (simp add: demo_info_def)
  from end_call_null_port [of "[0 \<mapsto> ?c]" 0 ?c, OF _ _ _ _ d this, of _ True demo_state_env] d
  show ?thesis by simp blast
qed

text \<open>C25: Two bridged legs go down together, whoever hangs up first: the leg that is still up is hung up
  exactly once, its own DISCONNECTED callback does not hang the first one up again, each leg is
  counted down once, and when the human hangs up first the caller's record blames the human.\<close>

theorem bridge_torn_down_together:
  assumes "H a = Some c" and "H b = Some h" and "a \<noteq> b" and "\<not> is_bridge_leg c" and "is_bridge_leg h"
    and "bridge_peer h = Some a" and "bridged_leg c = Some b" and "med_port c = Some p" and "p_has_call p"
    and "ci_state ci = InvDisconnected" and "ci_state di = InvDisconnected"
  shows "(\<exists>W1 W2 es fs. onCallState S ci a (H, um) = Some (W1, es) \<and> onCallState S2 di b W1 = Some (W2, fs)
      \<and> hangups es = [b] \<and> hangups fs = [] \<and> count_list es CountDown = 1 \<and> count_list fs CountDown = 1)
    \<and> (\<exists>W1 W2 es fs c'. onCallState S2 di b (H, um) = Some (W1, fs) \<and> onCallState S ci a W1 = Some (W2, es)
      \<and> hangups fs = [a] \<and> hangups es = [] \<and> count_list es CountDown = 1 \<and> count_list fs CountDown = 1
      \<and> fst W2 a = Some c' \<and> hangup_source c' = ''human'')"
proof
  let ?H1 = "H(b \<mapsto> h\<lparr>bridge_peer := None\<rparr>)"
  have "case bridged_leg c of None \<Rightarrow> [b] = [] \<and> ?H1 = H
       | Some b' \<Rightarrow> \<exists>h. H b' = Some h \<and> [b] = [b'] \<and> ?H1 = H(b' \<mapsto> h\<lparr>bridge_peer := None\<rparr>)"
    using assms(2,7) by simp
  from caller_down [OF assms(1,4,10) this, of S um] obtain c' um' es where
    e: "onCallState S ci a (H, um) = Some ((?H1(a \<mapsto> c'), um'), es)" "hangups es = [b]" "count_list es CountDown = 1" by blast
  have "onCallState S2 di b (?H1(a \<mapsto> c'), um') = Some ((?H1(a \<mapsto> c'), um'), [CountDown])"
    using assms(3,5,11) by (simp add: onCallState_def human_leg_down_def)
  with e show "\<exists>W1 W2 es fs. onCallState S ci a (H, um) = Some (W1, es) \<and> onCallState S2 di b W1 = Some (W2, fs)
      \<and> hangups es = [b] \<and> hangups fs = [] \<and> count_list es CountDown = 1 \<and> count_list fs CountDown = 1"
    by (intro exI) (auto intro: exI)
next
  let ?c1 = "c\<lparr>hangup_source := ''human'', bridged_leg := None\<rparr>"
  let ?H1 = "H(a \<mapsto> ?c1)"
  have f: "onCallState S2 di b (H, um) = Some ((?H1, um), [HangupLeg a, CountDown])"
    using assms(1,2,5,6,8,9,11)
    by (simp add: onCallState_def human_leg_down_def port_setHangupSource_def setHangupSource_def)
  have "?H1 a = Some ?c1" "\<not> is_bridge_leg ?c1" using assms(4) by simp_all
  moreover have "case bridged_leg ?c1 of None \<Rightarrow> [] = [] \<and> ?H1 = ?H1
       | Some b' \<Rightarrow> \<exists>h. ?H1 b' = Some h \<and> [] = [b'] \<and> ?H1 = ?H1(b' \<mapsto> h\<lparr>bridge_peer := None\<rparr>)" by simp
  ultimately obtain c' um' es where
    e: "onCallState S ci a (?H1, um) = Some ((?H1(a \<mapsto> c'), um'), es)" "hangups es = []" "count_list es CountDown = 1"
      "hangup_source c' = ''human''"
    using caller_down [of ?H1 a ?c1 ci "[]" ?H1 S um] assms(10) by auto
  have "fst (?H1(a \<mapsto> c'), um') a = Some c'" by simp
  with e f show "\<exists>W1 W2 es fs c'. onCallState S2 di b (H, um) = Some (W1, fs) \<and> onCallState S ci a W1 = Some (W2, es)
      \<and> hangups fs = [a] \<and> hangups es = [] \<and> count_list es CountDown = 1 \<and> count_list fs CountDown = 1
      \<and> fst W2 a = Some c' \<and> hangup_source c' = ''human''"
    by (intro exI conjI) (assumption | simp)+
qed

definition demo_bridge :: "call_heap" where
  "demo_bridge = [0 \<mapsto> demo_call\<lparr>med_port := Some (call_port False (se_menv demo_state_env) demo_call), bridged_leg := Some 1\<rparr>,
     1 \<mapsto> setupAsBridgeLeg 0 demo_call]"

lemma bridge_torn_down_together_witness:
  "\<exists>W1 W2 es fs. onCallState demo_state_env (demo_info InvDisconnected 200) 1 (demo_bridge, new_upload_mgr Map.empty) = Some (W1, fs)
     \<and> onCallState demo_state_env (demo_info InvDisconnected 200) 0 W1 = Some (W2, es) \<and> hangups fs = [0] \<and> hangups es = []"
proof -
  let ?c = "demo_call\<lparr>med_port := Some (call_port False (se_menv demo_state_env) demo_call), bridged_leg := Some 1\<rparr>"
  let ?h = "setupAsBridgeLeg 0 demo_call"
  have h: "demo_bridge 0 = Some ?c" "demo_bridge 1 = Some ?h" "(0 :: nat) \<noteq> 1" "\<not> is_bridge_leg ?c"
    "is_bridge_leg ?h" "bridge_peer ?h = Some 0" "bridged_leg ?c = Some 1"
    "med_port ?c = Some (call_port False (se_menv demo_state_env) demo_call)"
    "ci_state (demo_info InvDisconnected 200) = InvDisconnected"
    by (simp_all add: demo_bridge_def setupAsBridgeLeg_def demo_info_def)
  from bridge_torn_down_together [OF h(1-8) call_port_fields(3) h(9) h(9), of demo_state_env "new_upload_mgr Map.empty"
      demo_state_env]
  show ?thesis by blast
qed

end
