(* ===== verification/Admission.thy ===== *)
theory Admission
  imports Call_Manager Call_Life
begin

text \<open>
  The HTTP threads of the call manager together. The admission check and the increment of the counter
  are separate steps of a request, with nothing held in between; a call that goes down decrements
  the counter at any time. The relation below interleaves them, and its invariant says by how much
  the limit can be exceeded.
\<close>

section \<open>The threads\<close>

definition HTTP_THREADS :: nat where "HTTP_THREADS = 16"

text \<open>The manager with its calls, and the threads that have passed the check of the request they serve.\<close>

type_synonym server = "(manager \<times> call_heap) \<times> nat set"

inductive server_step :: "'j json_libs \<Rightarrow> env \<Rightarrow> server \<Rightarrow> server \<Rightarrow> bool" for L :: "'j json_libs" and e :: env where
  Admit: "t < HTTP_THREADS \<Longrightarrow> t \<notin> F \<Longrightarrow> calls_full e (fst W) = Inr False \<Longrightarrow> server_step L e (W, F) (W, insert t F)"
| Serve: "t \<in> F \<Longrightarrow> cx_env C = e \<Longrightarrow> serve_call L C req W = Some (resp, W', es) \<Longrightarrow> server_step L e (W, F) (W', F - {t})"
| CallOver: "server_step L e ((m, H), F) ((decrementCallCounter m, H), F)"

inductive_cases server_step_cases: "server_step L e (W, F) s"

inductive server_reaches :: "'j json_libs \<Rightarrow> env \<Rightarrow> server \<Rightarrow> server \<Rightarrow> bool" for L :: "'j json_libs" and e :: env and s :: server where
  Stay: "server_reaches L e s s"
| Step: "server_reaches L e s t \<Longrightarrow> server_step L e t u \<Longrightarrow> server_reaches L e s u"

lemma server_reaches_trans:
  "server_reaches L e t u \<Longrightarrow> server_reaches L e s t \<Longrightarrow> server_reaches L e s u"
  by (induction rule: server_reaches.induct) (auto intro: server_reaches.intros)

section \<open>The bound\<close>

lemma serve_call_current:
  assumes "serve_call L C req (m, H) = Some (resp, (m1, H1), es)"
  shows "mg_current m1 \<le> mg_current m + 1"
proof (cases "read_request L (cx_env C) req")
  case (Inl err)
  with assms show ?thesis by (simp add: serve_call_def)
next
  case (Inr R)
  consider (sim) "simulate_call C R (m, H) = Some (resp, (m1, H1), es)"
    | (dial) "dial_call C R (m, H) = (resp, (m1, H1), es)" | (same) "m1 = m"
    using assms Inr by (auto simp: serve_call_def split: if_splits)
  then show ?thesis
  proof cases
    case sim
    from simulate_call_fields(4) [OF this] show ?thesis .
  next
    case dial
    then show ?thesis by (cases rule: dial_call_cases) simp_all
  qed simp
qed

definition within_limit :: "int \<Rightarrow> server \<Rightarrow> bool" where
  "within_limit max_calls s \<longleftrightarrow> snd s \<subseteq> {..<HTTP_THREADS}
     \<and> mg_current (fst (fst s)) + int (card (snd s)) \<le> max_calls + int HTTP_THREADS - 1"

lemma server_step_within:
  assumes "server_step L e s u" and "within_limit max_calls s" and "env_int e ''MAX_CONCURRENT_CALLS'' 25 = Inr max_calls"
  shows "within_limit max_calls u"
proof -
  obtain W F where s: "s = (W, F)" by (cases s)
  have F: "finite F" "F \<subseteq> {..<HTTP_THREADS}" using assms(2) s finite_subset by (auto simp: within_limit_def)
  consider (admit) t where "u = (W, insert t F)" "t < HTTP_THREADS" "calls_full e (fst W) = Inr False"
    | (serve) t C req resp W' es where "u = (W', F - {t})" "t \<in> F" "serve_call L C req W = Some (resp, W', es)"
    | (over) m H where "W = (m, H)" "u = ((decrementCallCounter m, H), F)"
    using assms(1) unfolding s by (elim server_step_cases) auto
  then show ?thesis
  proof cases
    case admit
    have sub: "insert t F \<subseteq> {..<HTTP_THREADS}" using F(2) admit(2) by auto
    then have "card (insert t F) \<le> HTTP_THREADS" using card_mono [OF _ sub] by simp
    moreover have "mg_current (fst W) < max_calls" using admit(3) assms(3) by (simp add: calls_full_def)
    ultimately show ?thesis using admit(1) sub by (simp add: within_limit_def)
  next
    case serve
    have "int (card F) = int (card (F - {t})) + 1" using card_Suc_Diff1 [OF F(1) serve(2)] by simp
    moreover have "mg_current (fst W') \<le> mg_current (fst W) + 1"
      using serve_call_current [of L C req "fst W" "snd W" resp "fst W'" "snd W'" es] serve(3) by simp
    ultimately show ?thesis using assms(2) serve(1) F(2) s by (auto simp: within_limit_def)
  next
    case over
    with assms(2) s show ?thesis by (simp add: within_limit_def decrementCallCounter_def)
  qed
qed

lemma server_reaches_within:
  assumes "server_reaches L e s u" and "within_limit max_calls s" and "env_int e ''MAX_CONCURRENT_CALLS'' 25 = Inr max_calls"
  shows "within_limit max_calls u"
  using assms by (induction rule: server_reaches.induct) (auto intro: server_step_within)

section \<open>How the bound is reached\<close>

text \<open>A request for a real call that can be served.\<close>

definition good_request :: "'j json_libs \<Rightarrow> env \<Rightarrow> string \<Rightarrow> bool" where
  "good_request L e req \<longleftrightarrow> (\<exists>R port. read_request L e req = Inr R \<and> isValidPhoneNumber (rq_phone R) \<and> rq_trunk R \<noteq> []
     \<and> rq_trunk R \<noteq> ''tata_byebye'' \<and> (rq_rate R = 8000 \<or> rq_rate R = 16000) \<and> env_int e ''HTTP_PORT'' 8086 = Inr port)"

definition registered :: "env \<Rightarrow> manager \<Rightarrow> bool" where
  "registered e m \<longleftrightarrow> (\<exists>ep. map_of (mg_endpoints m) (own_endpoint e) = Some (Some ep) \<and> ep_initialized ep)"

lemma serve_good:
  assumes "good_request L (cx_env C) req" and "registered (cx_env C) m" and "cx_make_ok C"
  shows "\<exists>resp m1 H1 es. serve_call L C req (m, H) = Some (resp, (m1, H1), es)
    \<and> mg_current m1 = mg_current m + 1 \<and> registered (cx_env C) m1"
proof -
  obtain R port where R: "read_request L (cx_env C) req = Inr R" "isValidPhoneNumber (rq_phone R)" "rq_trunk R \<noteq> []"
    "rq_trunk R \<noteq> ''tata_byebye''" "rq_rate R = 8000 \<or> rq_rate R = 16000" "env_int (cx_env C) ''HTTP_PORT'' 8086 = Inr port"
    using assms(1) by (auto simp: good_request_def)
  obtain ep where ep: "touch_endpoint (own_endpoint (cx_env C)) m = (Some ep, m)" "ep_initialized ep"
    using assms(2) by (auto simp: registered_def touch_endpoint_def)
  obtain resp m1 H1 es where d: "dial_call C R (m, H) = (resp, (m1, H1), es)" by (cases "dial_call C R (m, H)") auto
  have "mg_current m1 = mg_current m + 1 \<and> mg_endpoints m1 = mg_endpoints m"
    using d R(6) ep assms(3) by (auto simp: dial_call_def place_leg_def endpoint_ready_def Let_def)
  with d R assms(2) show ?thesis by (auto simp: serve_call_def registered_def)
qed

lemma admit_many:
  assumes "calls_full e (fst W) = Inr False" and "n \<le> HTTP_THREADS"
  shows "server_reaches L e (W, {}) (W, {..<n})"
  using assms(2)
proof (induction n)
  case 0
  show ?case by (simp add: Stay)
next
  case (Suc n)
  have "server_step L e (W, {..<n}) (W, insert n {..<n})" by (rule Admit) (use Suc.prems assms(1) in auto)
  with Suc show ?case by (auto simp: lessThan_Suc intro: Step)
qed

definition demo_ctx :: "env \<Rightarrow> mg_ctx" where
  "demo_ctx e = \<lparr>cx_env = e, cx_uuid = ''u1'', cx_addr = 1, cx_now = 0, cx_make_ok = True, cx_fs = Map.empty,
     cx_conn = CreateError, cx_stamp = ''0'', cx_fmt = (\<lambda>_. ''t''),
     cx_um = new_upload_mgr Map.empty, cx_can_open = (\<lambda>_. True)\<rparr>"

text \<open>Each thread serves its own call: another identifier and address.\<close>

definition thread_ctx :: "env \<Rightarrow> nat \<Rightarrow> mg_ctx" where
  "thread_ctx e k = (demo_ctx e)\<lparr>cx_uuid := show_nat k, cx_addr := k\<rparr>"

lemma serve_many:
  assumes "good_request L e req" and "registered e m"
  shows "\<exists>m1 H1. server_reaches L e ((m, H), {..<n}) ((m1, H1), {}) \<and> mg_current m1 = mg_current m + int n"
  using assms(2)
proof (induction n arbitrary: m H)
  case 0
  show ?case by (auto intro: Stay)
next
  case (Suc n)
  have C: "cx_env (thread_ctx e n) = e" "cx_make_ok (thread_ctx e n)" by (simp_all add: thread_ctx_def demo_ctx_def)
  obtain resp m2 H2 es where s: "serve_call L (thread_ctx e n) req (m, H) = Some (resp, (m2, H2), es)"
    "mg_current m2 = mg_current m + 1" "registered e m2"
    using serve_good [of L "thread_ctx e n" req m H] assms(1) Suc.prems C by auto
  have "server_step L e ((m, H), {..<Suc n}) ((m2, H2), {..<Suc n} - {n})" by (rule Serve [OF _ C(1) s(1)]) simp
  then have step: "server_step L e ((m, H), {..<Suc n}) ((m2, H2), {..<n})" by (simp add: lessThan_Suc)
  from Suc.IH [OF s(3), of H2] obtain m1 H1 where "server_reaches L e ((m2, H2), {..<n}) ((m1, H1), {})"
    "mg_current m1 = mg_current m2 + int n" by blast
  note r = this
  have "server_reaches L e ((m, H), {..<Suc n}) ((m2, H2), {..<n})" by (rule Step [OF Stay step])
  from server_reaches_trans [OF r(1) this] r(2) s(2) show ?case by (intro exI conjI) auto
qed

section \<open>Properties\<close>

text \<open>C33: Over every interleaving of the sixteen HTTP threads with calls going down, at most fifteen calls
  more than the configured limit are counted, requests being served included.\<close>

theorem admission_bound:
  assumes "env_int e ''MAX_CONCURRENT_CALLS'' 25 = Inr max_calls" and "mg_current m0 \<le> max_calls"
    and "server_reaches L e ((m0, H0), {}) ((m, H), F)"
  shows "mg_current m + int (card F) \<le> max_calls + 15"
proof -
  have "within_limit max_calls ((m0, H0), {})" using assms(2) by (simp add: within_limit_def HTTP_THREADS_def)
  from server_reaches_within [OF assms(3) this assms(1)] show ?thesis by (simp add: within_limit_def HTTP_THREADS_def)
qed

definition demo_manager :: "env \<Rightarrow> int \<Rightarrow> manager" where
  "demo_manager e n = \<lparr>mg_endpoints = [(own_endpoint e, Some \<lparr>ep_initialized = True, ep_answer_webhook = []\<rparr>)],
     mg_active = [], mg_sims = [], mg_current = n, mg_answered = 0, mg_max = 25\<rparr>"

definition demo_json :: "unit json_libs" where
  "demo_json = \<lparr>jl_parse = (\<lambda>_. Inr ()), jl_string = (\<lambda>_ k. Inr (if k = ''phone_number'' then ''9876543210'' else ''wss://a'')),
     jl_value_int = (\<lambda>_ _ d. Inr d), jl_value_string = (\<lambda>_ _ d. Inr d), jl_contains = (\<lambda>_ _. False),
     jl_at = (\<lambda>_ _. Inr ()), jl_get_bool = (\<lambda>_. None), jl_get_string = (\<lambda>_. None)\<rparr>"

lemma demo_request: "read_request demo_json Map.empty req = Inr \<lparr>rq_phone = ''9876543210'', rq_ws_url = ''wss://a'',
    rq_webhook_url = ''wss://a'', rq_trunk = ''wss://a'', rq_rate = 8000\<rparr>"
  by (simp add: read_request_def demo_json_def env_int_def getEnvInt_def)

lemma demo_good: "good_request demo_json Map.empty req"
proof -
  have "isValidPhoneNumber ''9876543210''" by code_simp
  then show ?thesis by (simp add: good_request_def demo_request env_int_def getEnvInt_def)
qed

lemma demo_registered: "registered e (demo_manager e n)"
  by (simp add: registered_def demo_manager_def)

lemma demo_limit: "env_int Map.empty ''MAX_CONCURRENT_CALLS'' 25 = Inr 25"
  by (simp add: env_int_def getEnvInt_def)

lemma admission_bound_witness:
  "\<exists>m H. server_reaches demo_json Map.empty ((demo_manager Map.empty 24, Map.empty), {}) ((m, H), {..<16})
     \<and> mg_current m + int (card {..<16 :: nat}) \<le> 40"
proof -
  let ?m = "demo_manager Map.empty 24"
  have "calls_full Map.empty ?m = Inr False" by (simp add: calls_full_def demo_limit demo_manager_def)
  then have r: "server_reaches demo_json Map.empty ((?m, Map.empty), {}) ((?m, Map.empty), {..<16})"
    using admit_many [of Map.empty "(?m, Map.empty)" 16 demo_json] by (simp add: HTTP_THREADS_def)
  have "mg_current ?m \<le> 25" by (simp add: demo_manager_def)
  from admission_bound [OF demo_limit this r] r show ?thesis by auto
qed

text \<open>The limit really is exceeded by that much: with one call below it and sixteen valid requests at
  once, all sixteen are admitted and placed, fifteen more than the limit allows.\<close>

lemma limit_exceeded:
  assumes "env_int e ''MAX_CONCURRENT_CALLS'' 25 = Inr max_calls" and "mg_current m0 = max_calls - 1"
    and "registered e m0" and "good_request L e req"
  shows "\<exists>m H. server_reaches L e ((m0, H0), {}) ((m, H), {}) \<and> mg_current m = max_calls + 15"
proof -
  have "calls_full e (fst (m0, H0)) = Inr False" using assms(1,2) by (simp add: calls_full_def)
  then have 1: "server_reaches L e ((m0, H0), {}) ((m0, H0), {..<16})"
    by (rule admit_many) (simp add: HTTP_THREADS_def)
  obtain m H where 2: "server_reaches L e ((m0, H0), {..<16}) ((m, H), {})" "mg_current m = mg_current m0 + int 16"
    using serve_many [OF assms(4,3), of H0 16] by blast
  from server_reaches_trans [OF 2(1) 1] 2(2) assms(2) show ?thesis by auto
qed

end
