(* ===== verification/Manager_Life.thy ===== *)
theory Manager_Life
  imports Http_Api Admission
begin

text \<open>
  The call manager over time: the tables it keeps stay consistent over any run of requests, incoming
  calls, transfers, hang-ups, callbacks and destructions of calls; what it counts and reports; and the
  answers of the HTTP interface against the state behind them.
\<close>

section \<open>The tables\<close>

definition call_keys :: "manager \<Rightarrow> string set" where
  "call_keys m = fst ` set (mg_active m) \<union> fst ` set (mg_sims m)"

definition tables_ok :: "(string \<times> nat) list \<Rightarrow> string list \<Rightarrow> nat set \<Rightarrow> bool" where
  "tables_ok act sims D \<longleftrightarrow> distinct (map fst act @ sims) \<and> distinct (map snd act) \<and> snd ` set act \<subseteq> D"

text \<open>A key names one call, real or simulated, no two keys share a call, and no call that is listed is gone.\<close>

definition manager_wf :: "manager \<times> call_heap \<Rightarrow> bool" where
  "manager_wf W \<longleftrightarrow> tables_ok (mg_active (fst W)) (map fst (mg_sims (fst W))) (dom (snd W))"

lemma update_fresh: "k \<notin> fst ` set al \<Longrightarrow> AList.update k v al = al @ [(k, v)]"
  by (induction al) auto

lemma delete_map: "AList.delete k al = filter (\<lambda>p. fst p \<noteq> k) al"
  by (auto simp: AList.delete_eq intro: filter_cong)

lemma tables_ok_sub:
  assumes "tables_ok act sims D" and "distinct (map fst act1)" "distinct (map snd act1)" "set act1 \<subseteq> set act"
    and "distinct sims1" "set sims1 \<subseteq> set sims"
  shows "tables_ok act1 sims1 D"
proof -
  have "fst ` set act1 \<subseteq> fst ` set act" "snd ` set act1 \<subseteq> snd ` set act" using assms(4) by auto
  moreover have "fst ` set act \<inter> set sims = {}" "snd ` set act \<subseteq> D" using assms(1) by (auto simp: tables_ok_def)
  ultimately have "fst ` set act1 \<inter> set sims1 = {}" "snd ` set act1 \<subseteq> D" using assms(6) by blast+
  with assms(2,3,5) show ?thesis by (simp add: tables_ok_def)
qed

lemma tables_ok_delete:
  assumes "tables_ok act sims D"
  shows "tables_ok (AList.delete k act) sims D"
  unfolding delete_map by (rule tables_ok_sub [OF assms])
    (use assms in \<open>auto simp: tables_ok_def intro: distinct_map_filter\<close>)

lemma tables_ok_delete_sim:
  assumes "tables_ok act (map fst sims) D"
  shows "tables_ok act (map fst (AList.delete k sims)) D"
  unfolding delete_map by (rule tables_ok_sub [OF assms])
    (use assms in \<open>auto simp: tables_ok_def intro: distinct_map_filter\<close>)

lemma tables_ok_call:
  assumes "tables_ok act sims D" and "k \<notin> fst ` set act" and "k \<notin> set sims" and "a \<notin> D"
  shows "tables_ok (AList.update k a act) sims (insert a D)"
  using assms by (force simp: tables_ok_def update_fresh)

lemma tables_ok_sim:
  assumes "tables_ok act (map fst sims) D" and "k \<notin> fst ` set act" and "k \<notin> fst ` set sims"
  shows "tables_ok act (map fst (AList.update k s sims)) D"
  using assms by (force simp: tables_ok_def update_fresh)

lemma manager_wf_same:
  "manager_wf (m, H) \<Longrightarrow> mg_active m1 = mg_active m \<Longrightarrow> mg_sims m1 = mg_sims m \<Longrightarrow> dom H1 = dom H \<Longrightarrow> manager_wf (m1, H1)"
  by (simp add: manager_wf_def)

section \<open>Each operation keeps them\<close>

lemma place_wf:
  assumes "manager_wf (m, H)" and "k \<notin> call_keys m" and "H a = None"
    and "mg_active m1 = AList.update k a (mg_active m)" and "mg_sims m1 = mg_sims m"
  shows "manager_wf (m1, H(a \<mapsto> c))"
  using assms tables_ok_call [of "mg_active m" "map fst (mg_sims m)" "dom H" k a]
  by (auto simp: manager_wf_def call_keys_def)

lemma dial_call_wf:
  assumes "manager_wf (m, H)" and "cx_uuid C \<notin> call_keys m" and "H (cx_addr C) = None"
    and "dial_call C R (m, H) = (resp, (m1, H1), es)"
  shows "manager_wf (m1, H1)"
  using assms(4)
proof (cases rule: dial_call_cases)
  case failed
  then have "mg_active m1 = mg_active m" "mg_sims m1 = mg_sims m" by auto
  with failed assms(1) show ?thesis by (auto intro: manager_wf_same)
next
  case placed
  with assms(1-3) show ?thesis by (auto intro: place_wf)
qed

lemma simulate_call_wf:
  assumes "manager_wf (m, H)" and "cx_uuid C \<notin> call_keys m"
    and "simulate_call C R (m, H) = Some (resp, (m1, H1), es)"
  shows "manager_wf (m1, H1)"
proof -
  have "mg_sims m1 = mg_sims m \<or> (\<exists>s. mg_sims m1 = AList.update (cx_uuid C) s (mg_sims m))"
    using assms(3) by (auto simp: simulate_call_def Let_def count_sim_fields split: prod.splits if_splits destruction.splits)
  moreover note simulate_call_fields(1,2) [OF assms(3)]
  ultimately show ?thesis using assms(1,2) tables_ok_sim
    by (auto simp: manager_wf_def call_keys_def)
qed

lemma initiateCall_wf:
  assumes "manager_wf W" and "cx_uuid C \<notin> call_keys (fst W)" and "snd W (cx_addr C) = None"
    and "initiateCall L C req W = Some (resp, W1, es)"
  shows "manager_wf W1"
proof -
  obtain m H m1 H1 where W: "W = (m, H)" "W1 = (m1, H1)" by (cases W, cases W1)
  consider "W1 = W" | R where "simulate_call C R W = Some (resp, W1, es)" | R where "dial_call C R W = (resp, W1, es)"
    using assms(4) by (auto simp: initiateCall_def serve_call_def split: sum.splits if_splits)
  then show ?thesis
  proof cases
    case 1
    with assms(1) show ?thesis by simp
  next
    case 2
    with assms(1,2) W show ?thesis by (auto intro: simulate_call_wf)
  next
    case 3
    with assms(1-3) W show ?thesis by (auto intro: dial_call_wf)
  qed
qed

lemma incoming_wf:
  assumes "manager_wf W" and "cx_uuid C \<notin> call_keys (fst W)" and "snd W (cx_addr C) = None"
    and "onIncomingCall L M a C msg (W, inst) = ((W1, inst1), es)"
  shows "manager_wf W1"
proof -
  obtain m H where W: "W = (m, H)" by (cases W)
  have "W1 = W \<or> (\<exists>m1 c. W1 = (m1, H(cx_addr C \<mapsto> c)) \<and> mg_active m1 = AList.update (cx_uuid C) (cx_addr C) (mg_active m)
      \<and> mg_sims m1 = mg_sims m)"
    using assms(4) W by (auto simp: onIncomingCall_def Let_def split: sum.splits prod.splits)
  with assms(1-3) W show ?thesis by (auto intro: place_wf)
qed

lemma transfer_wf:
  assumes "manager_wf W" and "cx_uuid C \<notin> call_keys (fst W)" and "snd W (cx_addr C) = None"
    and "transferToHumanNumber C caller number W = Some (W1, es)"
  shows "manager_wf W1"
proof -
  obtain m H where W: "W = (m, H)" by (cases W)
  have "(\<exists>key. W1 = (m, H) \<or> W1 = (snd (touch_endpoint key m), H))
      \<or> (\<exists>m1 c. W1 = (m1, H(cx_addr C \<mapsto> c)) \<and> mg_active m1 = AList.update (cx_uuid C) (cx_addr C) (mg_active m)
      \<and> mg_sims m1 = mg_sims m)"
  proof (cases caller)
    case None
    with assms(4) W show ?thesis by (simp add: transferToHumanNumber_def)
  next
    case (Some a)
    show ?thesis
    proof (cases "\<not> isValidPhoneNumber number")
      case True
      with assms(4) W Some show ?thesis by (simp add: transferToHumanNumber_def)
    next
      case False
      then obtain c where c: "H a = Some c" using assms(4) W Some
        by (cases "H a") (simp_all add: transferToHumanNumber_def)
      obtain ep m2 where t: "touch_endpoint (endpoint_key c) m = (ep, m2)" by (cases "touch_endpoint (endpoint_key c) m")
      have m2: "m2 = snd (touch_endpoint (endpoint_key c) m)" "mg_active m2 = mg_active m" "mg_sims m2 = mg_sims m"
        using t touch_endpoint_fields [of "endpoint_key c" m] by simp_all
      show ?thesis
      proof (cases "endpoint_ready ep \<and> cx_make_ok C")
        case True
        with assms(4) W Some False c t m2(2,3) show ?thesis
          by (auto simp: transferToHumanNumber_def place_leg_def Let_def)
      next
        case no: False
        with assms(4) W Some False c t have "W1 = (m2, H)"
          by (auto simp: transferToHumanNumber_def place_leg_def Let_def split: if_splits)
        with m2(1) show ?thesis by blast
      qed
    qed
  qed
  then show ?thesis
  proof (elim disjE exE conjE)
    fix key assume "W1 = (snd (touch_endpoint key m), H)"
    with manager_wf_same [of m H "snd (touch_endpoint key m)" H] assms(1) W show ?thesis by simp
  qed (use assms(1-3) W place_wf in simp_all)
qed

lemma endCall_wf:
  assumes "manager_wf (m, H)" and "endCall call_id m = (resp, m1, es)"
  shows "manager_wf (m1, H)"
proof -
  consider "m1 = m" | "m1 = m\<lparr>mg_sims := AList.delete call_id (mg_sims m)\<rparr>"
    | "m1 = m\<lparr>mg_active := AList.delete call_id (mg_active m)\<rparr>"
    using assms(2) by (auto simp: endCall_def split: option.splits)
  then show ?thesis
    by cases (use assms(1) tables_ok_delete tables_ok_delete_sim in \<open>simp_all add: manager_wf_def\<close>)
qed

text \<open>Callbacks change calls but neither make nor remove them.\<close>

lemma dom_upd_same: "H a = Some c \<Longrightarrow> dom (H(a \<mapsto> c1)) = dom H"
  by auto

lemma hangup_thread_dom: "hangup_thread ok info a H = Some (H1, es) \<Longrightarrow> dom H1 = dom H"
  by (auto simp: hangup_thread_def split: if_splits option.splits)

lemma refer_dom: "referCallerToHuman e ok caller number H = Some (H1, es) \<Longrightarrow> dom H1 = dom H"
  by (auto simp: referCallerToHuman_def Let_def split: if_splits option.splits)

lemma hang_bridged_dom: "hang_bridged c H = Some (H1, c1, es) \<Longrightarrow> dom H1 = dom H"
  by (auto simp: hang_bridged_def split: option.splits if_splits)

lemma human_leg_down_dom: "human_leg_down h H = Some (H1, es) \<Longrightarrow> dom H1 = dom H"
  by (auto simp: human_leg_down_def Let_def split: option.splits if_splits)

lemma call_down_dom: "call_down S c H um = Some (H1, c1, um1, es) \<Longrightarrow> dom H1 = dom H"
  by (auto simp: call_down_def Let_def dest!: hang_bridged_dom split: option.splits prod.splits)

lemma onCallState_dom:
  assumes "onCallState S ci self (H, um) = Some ((H1, um1), es)"
  shows "dom H1 = dom H"
proof -
  obtain c where c: "H self = Some c" using assms by (cases "H self") (simp_all add: onCallState_def)
  consider "H1 = H" | d where "H1 = H(self \<mapsto> d)" | fs where "human_leg_down c H = Some (H1, fs)"
    | G d e um2 fs where "call_down S c H um = Some (G, d, um2, fs)" "H1 = G(self \<mapsto> e)"
    using assms c by (auto simp: onCallState_def Let_def split: option.splits if_splits prod.splits)
  then show ?thesis
  proof cases
    case (4 G d e um2 fs)
    note g = call_down_dom [OF 4(1)]
    with c have "self \<in> dom G" by auto
    with g 4(2) show ?thesis by auto
  qed (use c human_leg_down_dom dom_upd_same [of H self, OF c] in auto)
qed

lemma bridgeWithPeer_dom: "bridgeWithPeer lk hm cm self H = Some (H1, es) \<Longrightarrow> dom H1 = dom H"
  by (auto simp: bridgeWithPeer_def Let_def split: option.splits if_splits prod.splits link_result.splits)

lemma onCallMediaState_dom:
  assumes "onCallMediaState E media pm self H = Some (H1, es)"
  shows "dom H1 = dom H"
proof -
  obtain c where c: "H self = Some c" using assms by (cases "H self") (simp_all add: onCallMediaState_def)
  consider "H1 = H" | d where "H1 = H(self \<mapsto> d)" | "bridgeWithPeer (me_link E) media pm self H = Some (H1, es)"
    using assms c by (auto simp: onCallMediaState_def split: option.splits if_splits prod.splits)
  then show ?thesis
    by cases (use bridgeWithPeer_dom dom_upd_same [of H self, OF c] in auto)
qed

lemma call_step_dom: "call_step self ev (H, um) = Some ((H1, um1), es) \<Longrightarrow> dom H1 = dom H"
  by (cases ev) (force dest: onCallState_dom onCallMediaState_dom)+

lemma count_call_tables [simp]: "mg_active (count_call es m) = mg_active m" "mg_sims (count_call es m) = mg_sims m"
  by (induction es m rule: count_call.induct) (simp_all add: decrementCallCounter_def incrementAnsweredCallsCount_def)

section \<open>Runs\<close>

text \<open>What happens to the manager and its calls, in the environment \<open>e\<close>. New calls get identifiers and
  addresses that are not in use; a call is destroyed only once the manager no longer owns it. A listed
  simulated call runs on its own threads; nobody terminates it while it is listed. One that is no longer
  listed is terminated elsewhere, and only its effects on the counter are seen. The transfer by a second
  leg, which nothing calls any more, happens only when \<open>legacy\<close>.\<close>

fun terminates :: "sim_event \<Rightarrow> bool" where
  "terminates TerminateBegin = True"
| "terminates (TerminateFinish now) = True"
| "terminates _ = False"

inductive manager_step :: "'j json_libs \<Rightarrow> mysql \<Rightarrow> env \<Rightarrow> bool \<Rightarrow> manager \<times> call_heap \<Rightarrow> manager \<times> call_heap \<Rightarrow> bool"
  for L :: "'j json_libs" and M :: mysql and e :: env and legacy :: bool where
  Initiated: "cx_uuid C \<notin> call_keys (fst W) \<Longrightarrow> snd W (cx_addr C) = None \<Longrightarrow>
    initiateCall L C req W = Some (resp, W1, es) \<Longrightarrow> cx_env C = e \<Longrightarrow> manager_step L M e legacy W W1"
| Incoming: "cx_uuid C \<notin> call_keys (fst W) \<Longrightarrow> snd W (cx_addr C) = None \<Longrightarrow>
    onIncomingCall L M a C msg (W, inst) = ((W1, inst1), es) \<Longrightarrow> cx_env C = e \<Longrightarrow> manager_step L M e legacy W W1"
| Transferred: "cx_uuid C \<notin> call_keys (fst W) \<Longrightarrow> snd W (cx_addr C) = None \<Longrightarrow>
    transferToHumanNumber C caller number W = Some (W1, es) \<Longrightarrow> legacy \<Longrightarrow> manager_step L M e legacy W W1"
| Referred: "referCallerToHuman e xfer_ok caller number H = Some (H1, es) \<Longrightarrow> manager_step L M e legacy (m, H) (m, H1)"
| Ended: "endCall call_id m = (resp, m1, es) \<Longrightarrow> manager_step L M e legacy (m, H) (m1, H)"
| HungUp: "hangup_thread thread_ok info b H = Some (H1, es) \<Longrightarrow> manager_step L M e legacy (m, H) (m, H1)"
| Destroyed: "b \<notin> snd ` set (mg_active m) \<Longrightarrow> manager_step L M e legacy (m, H) (m, H(b := None))"
| CalledBack: "call_step b ev (H, um) = Some ((H1, um1), cs) \<Longrightarrow> manager_step L M e legacy (m, H) (count_call cs m, H1)"
| SimulatedRuns: "map_of (mg_sims m) k = Some s \<Longrightarrow> sim_step (G :: 'j ws_libs) fmt ev (s, um) = Some ((s1, um1), ss) \<Longrightarrow> \<not> terminates ev \<Longrightarrow>
    manager_step L M e legacy (m, H) (count_sim ss (m\<lparr>mg_sims := AList.update k s1 (mg_sims m)\<rparr>), H)"
| SimulatedBack: "manager_step L M e legacy (m, H) (count_sim ss m, H)"

inductive manager_reaches :: "'j json_libs \<Rightarrow> mysql \<Rightarrow> env \<Rightarrow> bool \<Rightarrow> manager \<times> call_heap \<Rightarrow> manager \<times> call_heap \<Rightarrow> bool"
  for L :: "'j json_libs" and M :: mysql and e :: env and legacy :: bool and W :: "manager \<times> call_heap" where
  Start: "manager_reaches L M e legacy W W"
| Then: "manager_reaches L M e legacy W V \<Longrightarrow> manager_step L M e legacy V U \<Longrightarrow> manager_reaches L M e legacy W U"

lemma manager_step_wf: "manager_step L M e legacy W W1 \<Longrightarrow> manager_wf W \<Longrightarrow> manager_wf W1"
proof (induction rule: manager_step.induct)
  case (Initiated C W req resp W1 es)
  from initiateCall_wf [OF Initiated(5,1-3)] show ?case .
next
  case (Incoming C W a msg inst W1 inst1 es)
  from incoming_wf [OF Incoming(5,1-3)] show ?case .
next
  case (Transferred C W caller number W1 es)
  from transfer_wf [OF Transferred(5,1-3)] show ?case .
next
  case (Referred xfer_ok caller number H H1 es m)
  from manager_wf_same [OF Referred(2) _ _ refer_dom [OF Referred(1)]] show ?case by simp
next
  case (Ended call_id m resp m1 es H)
  from endCall_wf [OF Ended(2,1)] show ?case .
next
  case (HungUp thread_ok info b H H1 es m)
  from manager_wf_same [OF HungUp(2) _ _ hangup_thread_dom [OF HungUp(1)]] show ?case by simp
next
  case (Destroyed b m H)
  then show ?case by (auto simp: manager_wf_def tables_ok_def)
next
  case (CalledBack b ev H um H1 um1 cs m)
  from manager_wf_same [OF CalledBack(2) _ _ call_step_dom [OF CalledBack(1)]] show ?case by simp
next
  case (SimulatedRuns m k s G fmt ev um s1 um1 ss H)
  then have "k \<in> set (map fst (mg_sims m))" using map_of_SomeD [OF SimulatedRuns(1)] by force
  then have "map fst (AList.update k s1 (mg_sims m)) = map fst (mg_sims m)" by (simp add: update_keys)
  with SimulatedRuns(4) show ?case by (simp add: manager_wf_def count_sim_fields)
next
  case (SimulatedBack m H ss)
  from manager_wf_same [OF this] show ?case by (simp add: count_sim_fields)
qed

lemma manager_reaches_wf: "manager_reaches L M e legacy W W1 \<Longrightarrow> manager_wf W \<Longrightarrow> manager_wf W1"
  by (induction rule: manager_reaches.induct) (auto intro: manager_step_wf)

lemma new_manager_wf: "new_manager e created started = Inr (m, cfg, acc) \<Longrightarrow> manager_wf (m, H)"
  by (auto simp: new_manager_def on_ok_Inr manager_wf_def tables_ok_def Let_def split: option.splits prod.splits)

text \<open>The report on the calls, for tables that are consistent.\<close>

lemma call_entries_keys:
  assumes "distinct (map fst act @ map fst es)" and "snd ` set act \<subseteq> dom H"
  shows "\<exists>es1. call_entries H act es = Some es1 \<and> map fst es1 = map fst es @ map fst act"
  using assms
proof (induction act arbitrary: es)
  case (Cons p act)
  obtain k a where p: "p = (k, a)" by (cases p)
  obtain c where c: "H a = Some c" using Cons.prems(2) p by auto
  have u: "AList.update k (call_json c) es = es @ [(k, call_json c)]"
    using Cons.prems(1) p by (intro update_fresh) (auto simp: image_iff)
  have "distinct (map fst act @ map fst (es @ [(k, call_json c)]))" "snd ` set act \<subseteq> dom H"
    using Cons.prems p by auto
  from Cons.IH [OF this] p c u show ?case by auto
qed simp

lemma sim_entries_keys:
  "distinct (map fst sims @ map fst es) \<Longrightarrow> map fst (sim_entries sims es) = map fst es @ map fst sims"
proof (induction sims arbitrary: es)
  case (Cons p sims)
  obtain k s where p: "p = (k, s)" by (cases p)
  have u: "AList.update k (sim_json s) es = es @ [(k, sim_json s)]"
    using Cons.prems p by (intro update_fresh) (auto simp: image_iff)
  have "distinct (map fst sims @ map fst (es @ [(k, sim_json s)]))" using Cons.prems p by auto
  from Cons.IH [OF this] p u show ?case by simp
qed simp

lemma wf_report:
  assumes "manager_wf (m, H)"
  shows "\<exists>es. getAllCalls now m H = Some (Response OK (Json (JvObj
      [(''active_calls'', if es = [] then JvNull else JvObj es), (''count'', JvInt (int (length es))), (''timestamp'', JvInt now)])))
    \<and> map fst es = map fst (mg_active m) @ map fst (mg_sims m)"
proof -
  have t: "distinct (map fst (mg_active m) @ map fst (mg_sims m))" "snd ` set (mg_active m) \<subseteq> dom H"
    using assms by (simp_all add: manager_wf_def tables_ok_def)
  obtain es0 where es0: "call_entries H (mg_active m) [] = Some es0" "map fst es0 = map fst (mg_active m)"
    using call_entries_keys [of "mg_active m" "[]" H] t by auto
  let ?es = "sim_entries (mg_sims m) es0"
  have k: "map fst ?es = map fst (mg_active m) @ map fst (mg_sims m)"
    using sim_entries_keys [of "mg_sims m" es0] t(1) es0(2) by auto
  then have "length (map fst ?es) = length (map fst (mg_active m) @ map fst (mg_sims m))" by (rule arg_cong)
  then have "length ?es = length (mg_active m) + length (mg_sims m)" by simp
  with es0(1) k show ?thesis by (intro exI [of _ ?es]) (simp add: getAllCalls_def Let_def)
qed

section \<open>A manager that is up\<close>

text \<open>Without the legacy transfer the endpoints and the limit are what the constructor made them.\<close>

definition manager_up :: "env \<Rightarrow> manager \<Rightarrow> bool" where
  "manager_up e m \<longleftrightarrow> mg_endpoints m = [(own_endpoint e, Some \<lparr>ep_initialized = True, ep_answer_webhook = []\<rparr>)]
     \<and> env_int e ''MAX_CONCURRENT_CALLS'' 25 = Inr (mg_max m)
     \<and> (\<exists>port. env_int e ''HTTP_PORT'' 8086 = Inr port)"

lemma manager_up_touch: "manager_up e m \<Longrightarrow>
    touch_endpoint (own_endpoint e) m = (Some \<lparr>ep_initialized = True, ep_answer_webhook = []\<rparr>, m)"
  by (simp add: manager_up_def touch_endpoint_def)

lemma manager_up_same: "manager_up e m \<Longrightarrow> mg_endpoints m1 = mg_endpoints m \<Longrightarrow> mg_max m1 = mg_max m \<Longrightarrow> manager_up e m1"
  by (simp add: manager_up_def)

lemma new_manager_up: "new_manager e created started = Inr (m, cfg, acc) \<Longrightarrow> manager_up e m \<and> mg_current m = 0"
  by (auto simp: new_manager_def on_ok_Inr manager_up_def own_endpoint_def registerWithAsterisk_def start_ints_def Let_def
      split: option.splits prod.splits)

lemma count_call_endpoints [simp]: "mg_endpoints (count_call es m) = mg_endpoints m" "mg_max (count_call es m) = mg_max m"
  by (induction es m rule: count_call.induct) (simp_all add: decrementCallCounter_def incrementAnsweredCallsCount_def)

lemma place_leg_keeps:
  "place_leg C number trunk c (m, H) = (ok, (m1, H1), es) \<Longrightarrow> mg_endpoints m1 = mg_endpoints m \<and> mg_max m1 = mg_max m"
  by (auto simp: place_leg_def Let_def split: if_splits)

text \<open>Dialling with the endpoint up.\<close>

lemma dial_call_up:
  assumes "manager_up (cx_env C) m" and "env_int (cx_env C) ''HTTP_PORT'' 8086 = Inr port"
  shows "dial_call C R (m, H) =
     (if cx_make_ok C then Some (Response OK (initiated_body (cx_env C) port R (cx_uuid C))) else None,
      if cx_make_ok C
      then (m\<lparr>mg_active := AList.update (cx_uuid C) (cx_addr C) (mg_active m), mg_current := mg_current m + 1\<rparr>,
            H(cx_addr C \<mapsto> dialled_call C R))
      else (m, H),
      [Dial (cx_addr C) (dial_through (cx_env C) (rq_phone R) (rq_trunk R) (cx_uuid C))])"
  using assms(2) manager_up_touch [OF assms(1)] by (simp add: dial_call_def endpoint_ready_def place_leg_def Let_def)

lemma simulate_call_keeps:
  assumes "simulate_call C R W = Some (resp, W1, es)"
  shows "mg_endpoints (fst W1) = mg_endpoints (fst W) \<and> mg_max (fst W1) = mg_max (fst W)"
  using assms by (auto simp: simulate_call_def Let_def count_sim_fields split: prod.splits if_splits destruction.splits)

lemma dial_call_keeps:
  assumes "manager_up (cx_env C) (fst W)" and "dial_call C R W = (resp, W1, es)"
  shows "mg_endpoints (fst W1) = mg_endpoints (fst W) \<and> mg_max (fst W1) = mg_max (fst W)"
proof -
  obtain port where p: "env_int (cx_env C) ''HTTP_PORT'' 8086 = Inr port" using assms(1) by (auto simp: manager_up_def)
  obtain m H where W: "W = (m, H)" by (cases W)
  from dial_call_up [of C m port R H] assms W p show ?thesis by (auto split: if_splits)
qed

lemma initiateCall_keeps:
  assumes "manager_up (cx_env C) (fst W)" and "initiateCall L C req W = Some (resp, W1, es)"
  shows "mg_endpoints (fst W1) = mg_endpoints (fst W) \<and> mg_max (fst W1) = mg_max (fst W)"
proof -
  consider "W1 = W" | R where "simulate_call C R W = Some (resp, W1, es)" | R where "dial_call C R W = (resp, W1, es)"
    using assms(2) by (auto simp: initiateCall_def serve_call_def split: sum.splits if_splits)
  then show ?thesis by cases (use simulate_call_keeps dial_call_keeps [OF assms(1)] in auto)
qed

lemma incoming_keeps:
  "onIncomingCall L M a C msg (W, inst) = ((W1, inst1), es) \<Longrightarrow>
     mg_endpoints (fst W1) = mg_endpoints (fst W) \<and> mg_max (fst W1) = mg_max (fst W)"
  by (cases W) (auto simp: onIncomingCall_def Let_def split: sum.splits prod.splits)

lemma endCall_keeps: "endCall call_id m = (resp, m1, es) \<Longrightarrow> mg_endpoints m1 = mg_endpoints m \<and> mg_max m1 = mg_max m"
  by (auto simp: endCall_def split: option.splits)

lemma manager_step_up: "manager_step L M e legacy W W1 \<Longrightarrow> \<not> legacy \<Longrightarrow> manager_up e (fst W) \<Longrightarrow> manager_up e (fst W1)"
proof (induction rule: manager_step.induct)
  case (Initiated C W req resp W1 es)
  with initiateCall_keeps [of C W] manager_up_same show ?case by blast
next
  case (Incoming C W a msg inst W1 inst1 es)
  with incoming_keeps manager_up_same show ?case by blast
next
  case (Ended call_id m resp m1 es H)
  with endCall_keeps manager_up_same show ?case by (metis fst_conv)
next
  case (CalledBack b ev H um H1 um1 cs m)
  with manager_up_same [of e m "count_call cs m"] show ?case by simp
next
  case (SimulatedRuns m k s G fmt ev um s1 um1 ss H)
  with manager_up_same [of e m "count_sim ss (m\<lparr>mg_sims := AList.update k s1 (mg_sims m)\<rparr>)"] show ?case
    by (simp add: count_sim_fields)
next
  case (SimulatedBack m H ss)
  with manager_up_same [of e m "count_sim ss m"] show ?case by (simp add: count_sim_fields)
qed simp_all

lemma manager_reaches_up: "manager_reaches L M e legacy W W1 \<Longrightarrow> \<not> legacy \<Longrightarrow> manager_up e (fst W) \<Longrightarrow> manager_up e (fst W1)"
  by (induction rule: manager_reaches.induct) (auto intro: manager_step_up)

section \<open>The listed simulated calls\<close>

text \<open>A listed simulated call was started and not terminated; it may have ended itself.\<close>

definition sim_listed :: "sim \<Rightarrow> bool" where
  "sim_listed s \<longleftrightarrow> sim_good (s_call_id s) (s_webhook_url s) s \<and> s_terminator s = NotCalled"

definition sims_ok :: "manager \<Rightarrow> bool" where
  "sims_ok m \<longleftrightarrow> list_all (\<lambda>(k, s). sim_listed s) (mg_sims m)"

lemma sims_ok_same: "sims_ok m \<Longrightarrow> mg_sims m1 = mg_sims m \<Longrightarrow> sims_ok m1"
  by (simp add: sims_ok_def)

lemma sims_ok_update: "sims_ok m \<Longrightarrow> sim_listed s \<Longrightarrow> mg_sims m1 = AList.update k s (mg_sims m) \<Longrightarrow> sims_ok m1"
proof -
  have "list_all (\<lambda>(k, s). sim_listed s) al \<Longrightarrow> sim_listed s \<Longrightarrow> list_all (\<lambda>(k, s). sim_listed s) (AList.update k s al)" for al
    by (induction al) auto
  then show "sims_ok m \<Longrightarrow> sim_listed s \<Longrightarrow> mg_sims m1 = AList.update k s (mg_sims m) \<Longrightarrow> sims_ok m1"
    by (simp add: sims_ok_def)
qed

lemma sims_ok_delete: "sims_ok m \<Longrightarrow> sims_ok (m\<lparr>mg_sims := AList.delete k (mg_sims m)\<rparr>)"
  by (auto simp: sims_ok_def delete_map list_all_iff)

lemma sim_step_keeps_terminator:
  assumes "\<not> terminates ev" and "sim_step G fmt ev (s, um) = Some ((s1, um1), ss)"
  shows "s_terminator s1 = s_terminator s"
  using assms
  by (cases ev)
    (auto simp: sim_step_def pump_step_def pump_tick_def pump_stop_recording_def pump_finish_def sim_message_def sim_closed_def
      detached_runs_def detached_ends_def handler_did_def Let_def dest!: sim_close_fields
      split: if_splits option.splits prod.splits)

lemma sim_step_listed:
  assumes "sim_listed s" and "\<not> terminates ev" and "sim_step G fmt ev (s, um) = Some ((s1, um1), ss)"
  shows "sim_listed s1"
proof -
  have g: "sim_good (s_call_id s) (s_webhook_url s) s" using assms(1) by (simp add: sim_listed_def)
  have "sim_run G fmt [ev] (s, um) = Some ((s1, um1), ss)" using assms(3) by simp
  from sim_run_good_defined [OF g this] have "sim_good (s_call_id s) (s_webhook_url s) s1" by simp
  moreover from this have "s_call_id s1 = s_call_id s" "s_webhook_url s1 = s_webhook_url s" by (simp_all add: sim_good_def)
  ultimately show ?thesis using assms(1) sim_step_keeps_terminator [OF assms(2,3)] by (simp add: sim_listed_def)
qed

lemma sim_start_listed:
  assumes "sim_start fs c stamp fmt now (new_sim uid ws url rate trunk t0) = (True, s, es)" and "rate \<in> {8000, 16000}"
  shows "sim_listed s"
proof -
  have "sim_good uid url s" using sim_start_good [OF assms] by simp
  moreover from this have "s_call_id s = uid" "s_webhook_url s = url" by (simp_all add: sim_good_def)
  moreover have "s_terminator s = NotCalled" using assms(1) by (auto simp: sim_start_def new_sim_def Let_def split: prod.splits if_splits)
  ultimately show ?thesis by (simp add: sim_listed_def)
qed

lemma simulate_call_sims:
  assumes "simulate_call C R (m, H) = Some (resp, (m1, H1), es)" and "rq_rate R \<in> {8000, 16000}" and "sims_ok m"
  shows "sims_ok m1"
proof -
  obtain ok s fx where s: "sim_start (cx_fs C) (cx_conn C) (cx_stamp C) (cx_fmt C) (cx_now C)
      (new_sim (cx_uuid C) (rq_ws_url R) (rq_webhook_url R) (rq_rate R) (rq_trunk R) (cx_now C)) = (ok, s, fx)"
    by (metis prod.exhaust)
  show ?thesis
  proof (cases ok)
    case True
    then have "sim_listed s" using s sim_start_listed [OF _ assms(2)] by simp
    moreover have "mg_sims m1 = AList.update (cx_uuid C) s (mg_sims m)" using assms(1) s True by (auto simp: simulate_call_def)
    ultimately show ?thesis using sims_ok_update [OF assms(3)] by blast
  next
    case False
    then have "mg_sims m1 = mg_sims m" using assms(1) s
      by (auto simp: simulate_call_def count_sim_fields split: destruction.splits)
    then show ?thesis using sims_ok_same [OF assms(3)] by blast
  qed
qed

lemma initiateCall_sims:
  assumes "initiateCall L C req W = Some (resp, W1, es)" and "sims_ok (fst W)"
  shows "sims_ok (fst W1)"
proof -
  obtain m H m1 H1 where W: "W = (m, H)" "W1 = (m1, H1)" by (cases W, cases W1)
  consider "W1 = W" | R where "simulate_call C R W = Some (resp, W1, es)" "rq_rate R \<in> {8000, 16000}"
    | R where "dial_call C R W = (resp, W1, es)"
    using assms(1) by (auto simp: initiateCall_def serve_call_def split: sum.splits if_splits)
  then show ?thesis
  proof cases
    case 1
    with assms(2) show ?thesis by simp
  next
    case 2
    with simulate_call_sims assms(2) W show ?thesis by auto
  next
    case 3
    then have "mg_sims m1 = mg_sims m" unfolding W by (cases rule: dial_call_cases) auto
    with assms(2) W show ?thesis by (simp add: sims_ok_def)
  qed
qed

lemma incoming_sims: "onIncomingCall L M a C msg (W, inst) = ((W1, inst1), es) \<Longrightarrow> mg_sims (fst W1) = mg_sims (fst W)"
  by (cases W) (auto simp: onIncomingCall_def Let_def split: sum.splits prod.splits)

lemma touch_endpoint_sims: "touch_endpoint key m = (ep, m1) \<Longrightarrow> mg_sims m1 = mg_sims m"
  by (auto simp: touch_endpoint_def split: option.splits)

lemma transfer_sims: "transferToHumanNumber C caller number W = Some (W1, es) \<Longrightarrow> mg_sims (fst W1) = mg_sims (fst W)"
  by (cases W) (auto simp: transferToHumanNumber_def place_leg_def Let_def dest!: touch_endpoint_sims
      split: option.splits if_splits prod.splits)

lemma manager_step_sims: "manager_step L M e legacy W W1 \<Longrightarrow> sims_ok (fst W) \<Longrightarrow> sims_ok (fst W1)"
proof (induction rule: manager_step.induct)
  case (Initiated C W req resp W1 es)
  from initiateCall_sims [OF Initiated(3,5)] show ?case .
next
  case (Incoming C W a msg inst W1 inst1 es)
  from sims_ok_same [OF Incoming(5) incoming_sims [OF Incoming(3)]] show ?case .
next
  case (Transferred C W caller number W1 es)
  from sims_ok_same [OF Transferred(5) transfer_sims [OF Transferred(3)]] show ?case .
next
  case (Ended call_id m resp m1 es H)
  have "m1 = m\<lparr>mg_sims := AList.delete call_id (mg_sims m)\<rparr> \<or> mg_sims m1 = mg_sims m"
    using Ended(1) by (auto simp: endCall_def split: option.splits)
  with Ended(2) sims_ok_delete sims_ok_same show ?case by auto
next
  case (CalledBack b ev H um H1 um1 cs m)
  then show ?case by (simp add: sims_ok_def)
next
  case (SimulatedRuns m k s G fmt ev um s1 um1 ss H)
  have "sim_listed s" using SimulatedRuns(1,4) map_of_SomeD [OF SimulatedRuns(1)] by (auto simp: sims_ok_def list_all_iff)
  from sims_ok_update [OF _ sim_step_listed [OF this SimulatedRuns(3,2)]] SimulatedRuns(4) show ?case
    by (simp add: count_sim_fields)
next
  case (SimulatedBack m H ss)
  then show ?case by (simp add: sims_ok_def count_sim_fields)
qed simp_all

lemma manager_reaches_sims: "manager_reaches L M e legacy W W1 \<Longrightarrow> sims_ok (fst W) \<Longrightarrow> sims_ok (fst W1)"
  by (induction rule: manager_reaches.induct) (auto intro: manager_step_sims)

lemma new_manager_sims: "new_manager e created started = Inr (m, cfg, acc) \<Longrightarrow> sims_ok m"
  by (auto simp: new_manager_def on_ok_Inr sims_ok_def Let_def split: option.splits prod.splits)

section \<open>Properties\<close>

text \<open>C34: From the start of the process, over any run of requests, incoming calls, transfers, hang-ups,
  callbacks and destructions, a key names one call, no listed call is gone, and so the report on all
  calls never follows a dangling pointer, lists every call exactly once, and counts what it lists.\<close>

theorem manager_tables_consistent:
  assumes "new_manager e created started = Inr (m0, cfg, acc)"
    and "manager_reaches L M e legacy (m0, Map.empty) (m, H)"
  shows "manager_wf (m, H) \<and> (\<exists>es. getAllCalls now m H = Some (Response OK (Json (JvObj
      [(''active_calls'', if es = [] then JvNull else JvObj es), (''count'', JvInt (int (length es))), (''timestamp'', JvInt now)])))
    \<and> distinct (map fst es) \<and> set (map fst es) = call_keys m)"
proof -
  have w: "manager_wf (m, H)" using manager_reaches_wf [OF assms(2)] new_manager_wf [OF assms(1)] by blast
  then have "distinct (map fst (mg_active m) @ map fst (mg_sims m))" by (simp add: manager_wf_def tables_ok_def)
  moreover obtain es where es: "getAllCalls now m H = Some (Response OK (Json (JvObj
      [(''active_calls'', if es = [] then JvNull else JvObj es), (''count'', JvInt (int (length es))), (''timestamp'', JvInt now)])))"
    "map fst es = map fst (mg_active m) @ map fst (mg_sims m)"
    using wf_report [OF w, of now] by blast
  ultimately have "distinct (map fst es)" "set (map fst es) = call_keys m" by (simp_all add: call_keys_def)
  with es(1) w show ?thesis by blast
qed

text \<open>A process started in an empty environment, and a first call.\<close>

lemma demo_started:
  "\<exists>cfg acc. new_manager Map.empty None None = Inr (demo_manager Map.empty 0, cfg, acc)"
  by (simp add: new_manager_def start_ints_def env_int_def getEnvInt_def registerWithAsterisk_def demo_manager_def own_endpoint_def
      sip_username_def asterisk_ip_def Let_def)

lemma demo_initiated:
  "\<exists>b m1 H1 d. initiateCall demo_json (demo_ctx Map.empty) req (demo_manager Map.empty 0, Map.empty)
       = Some (Some (Response OK b), (m1, H1), [Dial 1 d])
     \<and> mg_active m1 = [(''u1'', 1)] \<and> mg_sims m1 = []"
proof -
  define R where "R = \<lparr>rq_phone = ''9876543210'', rq_ws_url = ''wss://a'', rq_webhook_url = ''wss://a'', rq_trunk = ''wss://a'', rq_rate = 8000\<rparr>"
  let ?m = "demo_manager Map.empty 0"
  have C: "cx_env (demo_ctx Map.empty) = Map.empty" "cx_make_ok (demo_ctx Map.empty) = True" "cx_uuid (demo_ctx Map.empty) = ''u1''"
    "cx_addr (demo_ctx Map.empty) = 1" by (simp_all add: demo_ctx_def)
  have p: "env_int Map.empty ''HTTP_PORT'' 8086 = Inr 8086" by (simp add: env_int_def getEnvInt_def)
  have up: "manager_up Map.empty ?m" using p demo_limit by (simp add: manager_up_def demo_manager_def)
  have v: "isValidPhoneNumber ''9876543210''" by code_simp
  have "calls_full Map.empty ?m = Inr False" using demo_limit by (simp add: calls_full_def demo_manager_def)
  then have "initiateCall demo_json (demo_ctx Map.empty) req (?m, Map.empty) = Some (dial_call (demo_ctx Map.empty) R (?m, Map.empty))"
    using v by (simp add: initiateCall_def serve_call_def C demo_request R_def)
  also note dial_call_up [of "demo_ctx Map.empty" ?m 8086 R Map.empty, unfolded C, OF up p, unfolded if_True]
  finally have i: "initiateCall demo_json (demo_ctx Map.empty) req (?m, Map.empty) = Some (Some (Response OK (initiated_body Map.empty 8086 R ''u1'')),
      (?m\<lparr>mg_active := AList.update ''u1'' 1 (mg_active ?m), mg_current := mg_current ?m + 1\<rparr>,
       Map.empty(1 \<mapsto> dialled_call (demo_ctx Map.empty) R)),
      [Dial 1 (dial_through Map.empty (rq_phone R) (rq_trunk R) ''u1'')])" .
  show ?thesis by (intro exI conjI, rule i) (simp_all add: demo_manager_def)
qed

lemma demo_reached:
  "\<exists>m1 H1. manager_reaches demo_json (demo_mysql []) Map.empty False (demo_manager Map.empty 0, Map.empty) (m1, H1)
     \<and> mg_active m1 = [(''u1'', 1)] \<and> mg_sims m1 = []"
proof -
  obtain b m1 H1 d where i: "initiateCall demo_json (demo_ctx Map.empty) [] (demo_manager Map.empty 0, Map.empty)
       = Some (Some (Response OK b), (m1, H1), [Dial 1 d])" "mg_active m1 = [(''u1'', 1)]" "mg_sims m1 = []"
    using demo_initiated [of "[]"] by blast
  have "manager_step demo_json (demo_mysql []) Map.empty False (demo_manager Map.empty 0, Map.empty) (m1, H1)"
    by (rule Initiated [OF _ _ i(1)]) (simp_all add: demo_manager_def call_keys_def demo_ctx_def)
  then have "manager_reaches demo_json (demo_mysql []) Map.empty False (demo_manager Map.empty 0, Map.empty) (m1, H1)"
    by (rule Then [OF Start])
  with i show ?thesis by blast
qed

lemma manager_tables_consistent_witness:
  "\<exists>m H es. manager_reaches demo_json (demo_mysql []) Map.empty False (demo_manager Map.empty 0, Map.empty) (m, H)
     \<and> call_keys m = {''u1''} \<and> set (map fst es) = {''u1''}
     \<and> getAllCalls 7 m H = Some (Response OK (Json (JvObj
         [(''active_calls'', if es = [] then JvNull else JvObj es), (''count'', JvInt (int (length es))), (''timestamp'', JvInt 7)])))"
proof -
  obtain cfg acc where s: "new_manager Map.empty None None = Inr (demo_manager Map.empty 0, cfg, acc)" using demo_started by blast
  obtain m1 H1 where r: "manager_reaches demo_json (demo_mysql []) Map.empty False (demo_manager Map.empty 0, Map.empty) (m1, H1)"
    and i: "mg_active m1 = [(''u1'', 1)]" "mg_sims m1 = []" using demo_reached by blast
  have k: "call_keys m1 = {''u1''}" using i by (simp add: call_keys_def)
  obtain es where g: "getAllCalls 7 m1 H1 = Some (Response OK (Json (JvObj
         [(''active_calls'', if es = [] then JvNull else JvObj es), (''count'', JvInt (int (length es))), (''timestamp'', JvInt 7)])))"
    and e: "set (map fst es) = call_keys m1"
    using manager_tables_consistent [OF s r, of 7] by blast
  from r k g e show ?thesis by (intro exI [of _ m1] exI [of _ H1] exI [of _ es]) simp
qed

end
