(* ===== verification/Service.thy ===== *)
theory Service
  imports Manager_Life
begin

text \<open>
  What the service promises from its start on, over any run of the call manager: a valid request below
  the limit is dialled, the health report agrees with admission, a call is counted up once and down
  once, and shutting down follows no null pointer and reaches every call.
\<close>

section \<open>Facts\<close>

lemma serve_call_code: "serve_call L C req W \<noteq> Some (Some (Response UNAVAILABLE b), W1, es)"
  by (cases W) (auto simp: serve_call_def simulate_call_def dial_call_def place_leg_def UNAVAILABLE_def OK_def SERVER_ERROR_def
      BAD_REQUEST_def Let_def split: sum.splits if_splits prod.splits destruction.splits)

lemma started_up:
  assumes "new_manager e created started = Inr (m0, cfg, acc)" and "manager_reaches L M e False (m0, Map.empty) (m, H)"
  shows "manager_up e m" "manager_wf (m, H)"
  using manager_reaches_up [OF assms(2)] new_manager_up [OF assms(1)] manager_reaches_wf [OF assms(2)]
    new_manager_wf [OF assms(1)] by simp_all

lemma calls_full_up: "manager_up e m \<Longrightarrow> calls_full e m = Inr (mg_max m \<le> mg_current m)"
  by (simp add: manager_up_def calls_full_def)

lemma count_sim_update: "count_sim es m = m\<lparr>mg_current := mg_current m - int (count_list es SimCountDown)\<rparr>"
  by (induction es m rule: count_sim.induct) (simp_all add: decrementCallCounter_def)

lemma count_sim_accounting: "count_list (sim_accounting es) SimCountDown = count_list es SimCountDown"
  by (induction es) (auto simp: sim_accounting_def)


section \<open>Properties\<close>

text \<open>C35: At any time after a successful start, a valid request for a real call that finds the manager below
  its limit is dialled, to the number and over the trunk it names; if \<^verbatim>\<open>makeCall\<close> succeeds the
  call is listed, counted and confirmed to the client, and if it throws nothing changes and no response is
  ever sent.\<close>

theorem valid_request_dialled:
  assumes "new_manager e created started = Inr (m0, cfg, acc)" and "manager_reaches L M e False (m0, Map.empty) (m, H)"
    and "good_request L e req" and "mg_current m < mg_max m" and "cx_env C = e"
  shows "\<exists>R port. read_request L e req = Inr R \<and> env_int e ''HTTP_PORT'' 8086 = Inr port
    \<and> initiateCall L C req (m, H) = Some
       (if cx_make_ok C then Some (Response OK (initiated_body e port R (cx_uuid C))) else None,
        if cx_make_ok C
        then (m\<lparr>mg_active := AList.update (cx_uuid C) (cx_addr C) (mg_active m), mg_current := mg_current m + 1\<rparr>,
              H(cx_addr C \<mapsto> dialled_call C R))
        else (m, H),
        [Dial (cx_addr C) (dial_through e (rq_phone R) (rq_trunk R) (cx_uuid C))])"
proof -
  note up = started_up(1) [OF assms(1,2)]
  obtain R port where R: "read_request L e req = Inr R" "isValidPhoneNumber (rq_phone R)" "rq_trunk R \<noteq> []"
    "rq_trunk R \<noteq> ''tata_byebye''" "rq_rate R = 8000 \<or> rq_rate R = 16000" "env_int e ''HTTP_PORT'' 8086 = Inr port"
    using assms(3) by (auto simp: good_request_def)
  have "initiateCall L C req (m, H) = serve_call L C req (m, H)"
    using calls_full_up [OF up] assms(4,5) by (simp add: initiateCall_def)
  moreover have "serve_call L C req (m, H) = Some (dial_call C R (m, H))"
    using R assms(5) by (auto simp: serve_call_def)
  moreover have "manager_up (cx_env C) m" "env_int (cx_env C) ''HTTP_PORT'' 8086 = Inr port" using up assms(5) R(6) by simp_all
  ultimately show ?thesis using R(1,6) dial_call_up [of C m port R H] assms(5) by (intro exI [of _ R] exI [of _ port]) simp
qed

lemma valid_request_dialled_witness:
  "\<exists>R W1 es. read_request demo_json Map.empty [] = Inr R
     \<and> initiateCall demo_json (demo_ctx Map.empty) [] (demo_manager Map.empty 0, Map.empty)
        = Some (Some (Response OK (initiated_body Map.empty 8086 R ''u1'')), W1, es)"
proof -
  obtain cfg acc where s: "new_manager Map.empty None None = Inr (demo_manager Map.empty 0, cfg, acc)" using demo_started by blast
  have r: "manager_reaches demo_json (demo_mysql []) Map.empty False (demo_manager Map.empty 0, Map.empty) (demo_manager Map.empty 0, Map.empty)"
    by (rule Start)
  have l: "mg_current (demo_manager Map.empty 0) < mg_max (demo_manager Map.empty 0)" by (simp add: demo_manager_def)
  have c: "cx_env (demo_ctx Map.empty) = Map.empty" "cx_make_ok (demo_ctx Map.empty) = True" "cx_uuid (demo_ctx Map.empty) = ''u1''"
    by (simp_all add: demo_ctx_def)
  have p: "env_int Map.empty ''HTTP_PORT'' 8086 = Inr port \<longleftrightarrow> port = 8086" for port
    by (auto simp: env_int_def getEnvInt_def)
  from valid_request_dialled [OF s r demo_good [of "[]"] l c(1)] show ?thesis unfolding c p by auto
qed

text \<open>C36: The health report and admission agree at any time after a successful start: the health check
  answers 503 exactly when a request to call is turned away with 503, and such a request changes nothing.\<close>

theorem health_predicts_admission:
  assumes "new_manager e created started = Inr (m0, cfg, acc)" and "manager_reaches L M e False (m0, Map.empty) (m, H)"
    and "cx_env C = e" and "initiateCall L C req (m, H) = Some (resp, W1, es)"
  shows "((\<exists>b. healthCheck now m = Response UNAVAILABLE b) \<longleftrightarrow> (\<exists>b. resp = Some (Response UNAVAILABLE b)))
    \<and> ((\<exists>b. resp = Some (Response UNAVAILABLE b)) \<longrightarrow> W1 = (m, H) \<and> es = [])"
proof -
  note f = calls_full_up [OF started_up(1) [OF assms(1,2)]]
  have r: "(\<exists>b. resp = Some (Response UNAVAILABLE b)) \<longleftrightarrow> mg_max m \<le> mg_current m"
  proof
    assume "\<exists>b. resp = Some (Response UNAVAILABLE b)"
    then obtain b where "resp = Some (Response UNAVAILABLE b)" by blast
    with assms(3,4) f serve_call_code [of L C req "(m, H)" b W1 es] show "mg_max m \<le> mg_current m"
      by (auto simp: initiateCall_def split: if_splits)
  qed (use assms(3,4) f in \<open>auto simp: initiateCall_def\<close>)
  have "mg_max m \<le> mg_current m \<Longrightarrow> W1 = (m, H) \<and> es = []"
    using assms(3,4) f by (auto simp: initiateCall_def)
  moreover have "(\<exists>b. healthCheck now m = Response UNAVAILABLE b) \<longleftrightarrow> mg_max m \<le> mg_current m"
    by (auto simp: healthCheck_def UNAVAILABLE_def OK_def)
  ultimately show ?thesis using r by blast
qed

lemma health_predicts_admission_witness:
  "\<not> (\<exists>b. healthCheck 9 (demo_manager Map.empty 0) = Response UNAVAILABLE b)"
proof -
  obtain cfg acc where s: "new_manager Map.empty None None = Inr (demo_manager Map.empty 0, cfg, acc)" using demo_started by blast
  have r: "manager_reaches demo_json (demo_mysql []) Map.empty False (demo_manager Map.empty 0, Map.empty) (demo_manager Map.empty 0, Map.empty)"
    by (rule Start)
  have c: "cx_env (demo_ctx Map.empty) = Map.empty" by (simp add: demo_ctx_def)
  obtain b m1 H1 d where i: "initiateCall demo_json (demo_ctx Map.empty) [] (demo_manager Map.empty 0, Map.empty)
       = Some (Some (Response OK b), (m1, H1), [Dial 1 d])" using demo_initiated [of "[]"] by blast
  from health_predicts_admission [OF s r c i, of 9] show ?thesis by (simp add: OK_def UNAVAILABLE_def)
qed

text \<open>C37: A call that was dialled for a request is counted up once, and over any run of its callbacks, in
  any order and with any repetition, it is counted down once for each DISCONNECTED callback and counted as
  answered once for each CONFIRMED one. So once PJSIP has delivered its one DISCONNECTED callback the counter
  is back where it was, and before that the call still counts.\<close>

theorem call_counted_once:
  assumes "initiateCall L C req (m, H) = Some (Some (Response OK b), (m1, H1), es)" and "Dial (cx_addr C) d \<in> set es"
  shows "mg_current m1 = mg_current m + 1
    \<and> (\<exists>W fs. call_run (cx_addr C) evs (H1, um) = Some (W, fs)
         \<and> mg_current (count_call fs m1) = mg_current m + 1 - int (count_list (map ci_state (infos evs)) InvDisconnected)
         \<and> mg_answered (count_call fs m1) = mg_answered m1 + int (count_list (map ci_state (infos evs)) InvConfirmed))"
proof -
  obtain R where "dial_call C R (m, H) = (Some (Response OK b), (m1, H1), es)"
    using assms(1,2) simulate_call_fields(5) [of C _ m H]
    by (auto simp: initiateCall_def serve_call_def split: sum.splits if_splits)
  then have "mg_current m1 = mg_current m + 1" "H1 (cx_addr C) = Some (dialled_call C R)"
    by (auto elim: dial_call_cases)
  moreover have "plain (cx_uuid C) (rq_webhook_url R) (dialled_call C R)" by (simp add: plain_def dialled_call_fields)
  ultimately show ?thesis
    using call_run_accounts [of H1 "cx_addr C" "dialled_call C R" "cx_uuid C" "rq_webhook_url R" evs um]
    by (auto simp: count_call_fields run_accounts_def)
qed

lemma call_counted_once_witness:
  "\<exists>m1 H1 W fs. call_run 1 [StateEv demo_state_env (demo_info InvEarly 180), StateEv demo_state_env (demo_info InvEarly 183),
         StateEv demo_state_env (demo_info InvDisconnected 486)]
       (H1, new_upload_mgr Map.empty) = Some (W, fs) \<and> mg_current m1 = 1 \<and> mg_current (count_call fs m1) = 0"
proof -
  let ?evs = "[StateEv demo_state_env (demo_info InvEarly 180), StateEv demo_state_env (demo_info InvEarly 183),
         StateEv demo_state_env (demo_info InvDisconnected 486)]"
  have n: "count_list (map ci_state (infos ?evs)) InvDisconnected = 1" by (simp add: demo_info_def)
  have a: "cx_addr (demo_ctx Map.empty) = 1" by (simp add: demo_ctx_def)
  obtain b m1 H1 d where i: "initiateCall demo_json (demo_ctx Map.empty) [] (demo_manager Map.empty 0, Map.empty)
       = Some (Some (Response OK b), (m1, H1), [Dial 1 d])" using demo_initiated [of "[]"] by blast
  have "Dial (cx_addr (demo_ctx Map.empty)) d \<in> set [Dial 1 d]" by (simp add: a)
  from call_counted_once [OF i this, of ?evs "new_upload_mgr Map.empty", unfolded a n] obtain W fs where
    "call_run 1 ?evs (H1, new_upload_mgr Map.empty) = Some (W, fs)" "mg_current m1 = 1" "mg_current (count_call fs m1) = 0"
    by (auto simp: demo_manager_def simp del: call_run.simps)
  then show ?thesis by blast
qed

text \<open>A simulated call whose WebSocket cannot be reached is answered with 500 and changes nothing but the
  counter of current calls, which is one lower than before although the call was never counted: each such
  request makes room for a call above the limit.\<close>

lemma failed_simulation_undercounts:
  assumes "read_request L (cx_env C) req = Inr R" and "isValidPhoneNumber (rq_phone R)" and "rq_trunk R = ''tata_byebye''"
    and "rq_rate R = 8000 \<or> rq_rate R = 16000" and "calls_full (cx_env C) m = Inr False"
    and "\<not> fst (sim_start (cx_fs C) (cx_conn C) (cx_stamp C) (cx_fmt C) (cx_now C)
      (new_sim (cx_uuid C) (rq_ws_url R) (rq_webhook_url R) (rq_rate R) (rq_trunk R) (cx_now C)))"
  shows "\<exists>es. initiateCall L C req (m, H) = Some (Some (Response SERVER_ERROR (Text ''Failed to start simulated call'')),
    (m\<lparr>mg_current := mg_current m - 1\<rparr>, H), es)"
proof -
  obtain s fx where s: "sim_start (cx_fs C) (cx_conn C) (cx_stamp C) (cx_fmt C) (cx_now C)
      (new_sim (cx_uuid C) (rq_ws_url R) (rq_webhook_url R) (rq_rate R) (rq_trunk R) (cx_now C)) = (False, s, fx)"
    using assms(6) by (metis (full_types) prod.exhaust_sel)
  obtain r ds where d: "destroy_sim (cx_can_open C) (cx_fmt C) (cx_now C) (s, cx_um C) = Destroyed (cx_um C) ds"
    "sim_accounting ds = [SimReport (cx_uuid C) (rq_webhook_url R) (cdr_json r), SimCountDown]"
    using failed_start_counts_down [OF s] by blast
  have "count_sim ds m = m\<lparr>mg_current := mg_current m - 1\<rparr>"
    unfolding count_sim_update count_sim_accounting [of ds, symmetric] d(2) by simp
  with s d(1) assms(1-5) show ?thesis
    by (simp add: initiateCall_def serve_call_def simulate_call_def)
qed








end
