(* ===== verification/Doubles.thy ===== *)
theory Doubles
  imports Volume Complex_Main
begin

text \<open>
  64-bit floating point, as the audio conversion uses it. A \<^verbatim>\<open>double\<close> is the rational number it
  stands for, and every arithmetic operation is followed by the rounding \<open>rnd\<close> to 53 significant
  bits, ties to even, that IEEE arithmetic makes after each operation (no fused multiply-add).
  The exponent range is not bounded: with \<^verbatim>\<open>int\<close> rates and vector sizes every value but an exact 0
  lies between \<open>2 ^ -150\<close> and \<open>2 ^ 100\<close>. A conversion to an integer type whose truncated value
  does not fit is undefined in C++ and is \<open>None\<close> here.
\<close>

section \<open>Doubles\<close>

definition rhe :: "rat \<Rightarrow> int" where
  "rhe y = (let q = \<lfloor>y\<rfloor>; r = y - of_int q
            in if 1 / 2 < r \<or> (r = 1 / 2 \<and> odd q) then q + 1 else q)"

text \<open>The exponent of the last place: \<open>2 ^ 52 \<le> \<bar>x\<bar> / 2 ^ ulp_exp x < 2 ^ 53\<close>. The digit counts of
  numerator and denominator give it up to one.\<close>

definition ulp_exp :: "rat \<Rightarrow> int" where
  "ulp_exp x =
     (let (n, d) = quotient_of \<bar>x\<bar>; k = int (bitlen (nat n)) - int (bitlen (nat d)) - 53
      in if 2 powi (k + 53) \<le> \<bar>x\<bar> then k + 1 else k)"

definition rnd :: "rat \<Rightarrow> rat" where
  "rnd x = (if x = 0 then 0 else of_int (rhe (x / 2 powi ulp_exp x)) * 2 powi ulp_exp x)"

definition trunc_rat :: "rat \<Rightarrow> int" where
  "trunc_rat x = (if 0 \<le> x then \<lfloor>x\<rfloor> else - \<lfloor>- x\<rfloor>)"

definition cast_size :: "rat \<Rightarrow> nat option" where
  "cast_size x = (let t = trunc_rat x in if 0 \<le> t \<and> t < 2 ^ 64 then Some (nat t) else None)"

definition cast16 :: "rat \<Rightarrow> sample option" where
  "cast16 x = (let t = trunc_rat x in if - 32768 \<le> t \<and> t \<le> 32767 then Some (word_of_int t) else None)"

section \<open>Facts on rounding\<close>

lemma rhe_le: "y \<le> of_int m \<Longrightarrow> rhe y \<le> m"
  unfolding rhe_def Let_def by (cases "y = of_int m") (auto simp: floor_less_iff floor_le_iff)

lemma rhe_ge: "of_int m \<le> y \<Longrightarrow> m \<le> rhe y"
proof -
  assume "of_int m \<le> y"
  then have "m \<le> \<lfloor>y\<rfloor>" by (simp add: le_floor_iff)
  then show ?thesis by (auto simp: rhe_def Let_def)
qed

lemma rhe_err: "\<bar>of_int (rhe y) - y\<bar> \<le> 1 / 2"
proof -
  have "of_int \<lfloor>y\<rfloor> \<le> y" and "y < of_int \<lfloor>y\<rfloor> + 1" by linarith+
  then show ?thesis by (auto simp: rhe_def Let_def)
qed

lemma bitlen_lower: "0 < n \<Longrightarrow> 2 ^ (bitlen n - 1) \<le> n"
proof (induction n rule: bitlen.induct)
  case (1 n)
  show ?case
  proof (cases "n = 1")
    case True
    then show ?thesis by (simp add: bitlen.simps)
  next
    case False
    with "1.prems" have pos: "0 < n div 2" by (simp add: div_greater_zero_iff)
    with "1.IH" "1.prems" have ih: "2 ^ (bitlen (n div 2) - 1) \<le> n div 2" by simp
    have "0 < bitlen (n div 2)" using pos by (subst bitlen.simps) simp
    then obtain b where b: "bitlen (n div 2) = Suc b" using gr0_conv_Suc by blast
    have "2 ^ (bitlen n - 1) = 2 * 2 ^ b" using "1.prems" b by (subst bitlen.simps) simp
    also have "\<dots> \<le> 2 * (n div 2)" using ih b by simp
    also have "\<dots> \<le> n" by simp
    finally show ?thesis .
  qed
qed

lemma bitlen_upper: "n < 2 ^ bitlen n"
proof (induction n rule: bitlen.induct)
  case (1 n)
  show ?case
  proof (cases "n = 0")
    case False
    with "1.IH" have "n div 2 < 2 ^ bitlen (n div 2)" by simp
    with False show ?thesis by (subst bitlen.simps) simp
  qed simp
qed

lemma bitlen_pos: "0 < n \<Longrightarrow> 0 < bitlen n"
  by (subst bitlen.simps) simp

lemma of_nat_pow2:
  "2 ^ k \<le> n \<Longrightarrow> (2 :: rat) ^ k \<le> of_nat n" "n < 2 ^ k \<Longrightarrow> of_nat n < (2 :: rat) ^ k"
  using of_nat_le_iff [of "2 ^ k" n, where 'a = rat] of_nat_less_iff [of n "2 ^ k", where 'a = rat]
  by (simp_all only: of_nat_power of_nat_numeral)

text \<open>The digit counts of numerator and denominator bracket a quotient.\<close>

lemma quotient_bracket:
  assumes "0 < n" and "0 < d"
  shows "2 powi (int (bitlen n) - int (bitlen d) - 1) < (of_nat n / of_nat d :: rat)"
    and "(of_nat n / of_nat d :: rat) < 2 powi (int (bitlen n) - int (bitlen d) + 1)"
proof -
  obtain a where a: "bitlen n = Suc a" using bitlen_pos [OF assms(1)] gr0_conv_Suc by blast
  obtain b where b: "bitlen d = Suc b" using bitlen_pos [OF assms(2)] gr0_conv_Suc by blast
  have n: "2 ^ a \<le> n" "n < 2 ^ Suc a" using bitlen_lower [OF assms(1)] bitlen_upper [of n] a by auto
  have d: "2 ^ b \<le> d" "d < 2 ^ Suc b" using bitlen_lower [OF assms(2)] bitlen_upper [of d] b by auto
  have nr: "(2 :: rat) ^ a \<le> of_nat n" "of_nat n < (2 :: rat) ^ Suc a"
    by (rule of_nat_pow2, rule n)+
  have dr: "(2 :: rat) ^ b \<le> of_nat d" "of_nat d < (2 :: rat) ^ Suc b"
    by (rule of_nat_pow2, rule d)+
  have pos: "0 < (of_nat d :: rat)" using assms(2) by simp
  have "2 powi (int a - int b - 1) = (2 :: rat) ^ a / 2 ^ Suc b" by (simp add: power_int_diff)
  also have "\<dots> < of_nat n / of_nat d"
    using nr(1) dr(2) pos assms(1) by (intro frac_less2) auto
  finally show "2 powi (int (bitlen n) - int (bitlen d) - 1) < (of_nat n / of_nat d :: rat)"
    using a b by simp
  have "of_nat n / of_nat d < (2 :: rat) ^ Suc a / 2 ^ b"
    using nr(2) dr(1) by (intro frac_less) auto
  also have "\<dots> = 2 powi (int a - int b + 1)" by (simp add: power_int_diff power_int_add)
  finally show "(of_nat n / of_nat d :: rat) < 2 powi (int (bitlen n) - int (bitlen d) + 1)"
    using a b by simp
qed

lemma ulp_exp_bracket:
  assumes "x \<noteq> 0"
  shows "2 powi (ulp_exp x + 52) \<le> \<bar>x\<bar>" and "\<bar>x\<bar> < 2 powi (ulp_exp x + 53)"
proof -
  obtain n d where q: "quotient_of \<bar>x\<bar> = (n, d)" by fastforce
  have d: "0 < d" using quotient_of_denom_pos [OF q] .
  have x: "\<bar>x\<bar> = of_int n / of_int d" using quotient_of_div [OF q] .
  have n: "0 < n" using assms x d by (metis abs_of_nonpos divide_nonpos_pos abs_ge_zero antisym not_less of_int_0_less_iff of_int_le_0_iff zero_less_abs_iff)
  have x': "\<bar>x\<bar> = of_nat (nat n) / of_nat (nat d)" using x n d by simp
  define k where "k = int (bitlen (nat n)) - int (bitlen (nat d)) - 53"
  have u: "ulp_exp x = (if 2 powi (k + 53) \<le> \<bar>x\<bar> then k + 1 else k)"
    by (simp add: ulp_exp_def q k_def Let_def)
  have lo: "2 powi (k + 52) < \<bar>x\<bar>" and hi: "\<bar>x\<bar> < 2 powi (k + 54)"
    using quotient_bracket [of "nat n" "nat d"] n d x' by (simp_all add: k_def algebra_simps)
  show "2 powi (ulp_exp x + 52) \<le> \<bar>x\<bar>" using lo u by (auto simp: add.commute add.left_commute)
  show "\<bar>x\<bar> < 2 powi (ulp_exp x + 53)" using hi u by (auto simp: add.commute add.left_commute)
qed

text \<open>Rounding does not cross an integer of at most 53 bits, so it keeps one.\<close>

lemma rnd_0 [simp]: "rnd 0 = 0"
  by (simp add: rnd_def)

lemma of_int_abs_le: "\<bar>m\<bar> \<le> 2 ^ k \<Longrightarrow> \<bar>of_int m :: rat\<bar> \<le> 2 ^ k"
  by (metis of_int_abs of_int_le_iff of_int_numeral of_int_power)

lemma rnd_le_int:
  assumes "x \<le> of_int m" and "\<bar>m\<bar> \<le> 2 ^ 53"
  shows "rnd x \<le> of_int m"
proof (cases "x = 0")
  case False
  define k where "k = ulp_exp x"
  define u :: rat where "u = 2 powi k"
  have u: "0 < u" by (simp add: u_def)
  have r: "rnd x = of_int (rhe (x / u)) * u" using False by (simp add: rnd_def k_def u_def)
  have lo: "2 ^ 52 * u \<le> \<bar>x\<bar>" and hi: "\<bar>x\<bar> < 2 ^ 53 * u"
    using ulp_exp_bracket [OF False] by (simp_all add: k_def [symmetric] power_int_add u_def mult.commute)
  show ?thesis
  proof (cases "k \<le> 0")
    case True
    have "of_int m / u = of_int (m * 2 ^ nat (- k))"
      using True by (simp add: u_def power_int_def field_simps)
    moreover have "x / u \<le> of_int m / u" using assms(1) u by (intro divide_right_mono) auto
    ultimately have "rhe (x / u) \<le> m * 2 ^ nat (- k)" by (simp add: rhe_le)
    then have "of_int (rhe (x / u)) \<le> of_int m / u"
      using \<open>of_int m / u = of_int (m * 2 ^ nat (- k))\<close> by (metis of_int_le_iff)
    with u r show ?thesis by (simp add: field_simps)
  next
    case False
    then have "u \<ge> 2" using power_int_increasing [of 1 k "2 :: rat"] by (simp add: u_def)
    then have big: "2 ^ 53 \<le> \<bar>x\<bar>" using lo by simp
    have m: "of_int m \<le> (2 ^ 53 :: rat)" "- (2 ^ 53 :: rat) \<le> of_int m"
      using of_int_abs_le [OF assms(2)] by (simp_all add: abs_le_iff)
    show ?thesis
    proof (cases "0 < x")
      case True
      with big assms(1) m have x: "x = 2 ^ 53" and "of_int m = (2 ^ 53 :: rat)" by simp_all
      have "u = 2"
      proof (rule antisym)
        show "u \<le> 2" using lo x by simp
      qed fact
      then have "x / u = of_int (2 ^ 52)" by (simp add: x)
      then have "rhe (x / u) \<le> 2 ^ 52" using rhe_le [of "x / u" "2 ^ 52"] by simp
      then have "of_int (rhe (x / u)) \<le> (2 ^ 52 :: rat)"
        by (metis of_int_le_iff of_int_numeral of_int_power)
      then show ?thesis using r \<open>u = 2\<close> \<open>of_int m = 2 ^ 53\<close> by simp
    next
      case False
      with lo have "x \<le> - (2 ^ 52 * u)" by simp
      then have "x / u \<le> of_int (- (2 ^ 52))" using u by (simp add: field_simps)
      then have "rhe (x / u) \<le> - (2 ^ 52)" by (rule rhe_le)
      then have "of_int (rhe (x / u)) \<le> (- (2 ^ 52) :: rat)"
        by (metis of_int_le_iff of_int_minus of_int_numeral of_int_power)
      then have "rnd x \<le> - (2 ^ 52) * u" using r u by (simp add: mult_right_mono del: mult_minus_left)
      also have "\<dots> \<le> - (2 ^ 53)" using \<open>u \<ge> 2\<close> by simp
      finally show ?thesis using m by linarith
    qed
  qed
qed (use assms in simp)

lemma rhe_minus: "rhe (- y) = - rhe y"
proof (cases "y = of_int \<lfloor>y\<rfloor>")
  case True
  then obtain m where "y = of_int m" by blast
  then show ?thesis by (simp add: rhe_def)
next
  case False
  define q where "q = \<lfloor>y\<rfloor>"
  have q: "of_int q < y" "y < of_int q + 1" using False by (simp_all add: q_def) linarith+
  then have "\<lfloor>- y\<rfloor> = - q - 1" by (intro floor_unique) auto
  then have m: "rhe (- y) = (if y - of_int q < 1 / 2 \<or> (y - of_int q = 1 / 2 \<and> even q) then - q else - q - 1)"
    by (auto simp: rhe_def Let_def)
  have "rhe y = (if 1 / 2 < y - of_int q \<or> (y - of_int q = 1 / 2 \<and> odd q) then q + 1 else q)"
    by (simp add: rhe_def Let_def q_def)
  with m show ?thesis by auto
qed

lemma rnd_minus: "rnd (- x) = - rnd x"
proof -
  have "ulp_exp (- x) = ulp_exp x" by (simp add: ulp_exp_def)
  then show ?thesis using rhe_minus [of "x / 2 powi ulp_exp x"] by (simp add: rnd_def)
qed

lemma rnd_ge_int: "of_int m \<le> x \<Longrightarrow> \<bar>m\<bar> \<le> 2 ^ 53 \<Longrightarrow> of_int m \<le> rnd x"
  using rnd_le_int [of "- x" "- m"] by (simp add: rnd_minus)

lemma rnd_int: "\<bar>m\<bar> \<le> 2 ^ 53 \<Longrightarrow> rnd (of_int m) = of_int m"
  using rnd_le_int [of "of_int m" m] rnd_ge_int [of m "of_int m"] by simp

lemma rnd_nat: "n \<le> 2 ^ 53 \<Longrightarrow> rnd (of_nat n) = of_nat n"
proof -
  assume "n \<le> 2 ^ 53"
  then have "\<bar>int n\<bar> \<le> 2 ^ 53" using of_nat_le_iff [of n "2 ^ 53", where 'a = int] by simp
  from rnd_int [OF this] show ?thesis by simp
qed

text \<open>The error of one rounding is at most \<open>2 ^ -53\<close> of the value.\<close>

lemma rnd_err: "\<bar>rnd x - x\<bar> \<le> \<bar>x\<bar> / 2 ^ 53"
proof (cases "x = 0")
  case False
  define u :: rat where "u = 2 powi ulp_exp x"
  have u: "0 < u" by (simp add: u_def)
  have r: "rnd x = of_int (rhe (x / u)) * u" using False by (simp add: rnd_def u_def)
  have lo: "2 ^ 52 * u \<le> \<bar>x\<bar>"
    using ulp_exp_bracket [OF False] by (simp add: power_int_add u_def mult.commute)
  have "rnd x - x = (of_int (rhe (x / u)) - x / u) * u" using u by (simp add: r left_diff_distrib)
  then have "\<bar>rnd x - x\<bar> = \<bar>of_int (rhe (x / u)) - x / u\<bar> * u" using u by (simp add: abs_mult)
  also have "\<dots> \<le> 1 / 2 * u" using rhe_err u by (intro mult_right_mono) auto
  also have "\<dots> \<le> \<bar>x\<bar> / 2 ^ 53" using lo by simp
  finally show ?thesis .
qed simp

text \<open>Scaling by a power of two commutes with rounding.\<close>

lemma ulp_exp_unique:
  assumes "2 powi (k + 52) \<le> \<bar>x\<bar>" and "\<bar>x\<bar> < 2 powi (k + 53)"
  shows "ulp_exp x = k"
proof -
  have "0 < (2 :: rat) powi (k + 52)" by simp
  from less_le_trans [OF this assms(1)] have "x \<noteq> 0" by simp
  note b = ulp_exp_bracket [OF this]
  have "(2 :: rat) powi (k + 52) < 2 powi (ulp_exp x + 53)" using assms(1) b(2) by simp
  moreover have "(2 :: rat) powi (ulp_exp x + 52) < 2 powi (k + 53)" using assms(2) b(1) by simp
  ultimately show ?thesis
    using power_int_increasing [of "ulp_exp x + 53" "k + 52" "2 :: rat"]
      power_int_increasing [of "k + 53" "ulp_exp x + 52" "2 :: rat"] by force
qed

lemma rnd_scale: "rnd (x * 2 powi j) = rnd x * 2 powi j"
proof (cases "x = 0")
  case False
  have "ulp_exp (x * 2 powi j) = ulp_exp x + j"
  proof (rule ulp_exp_unique)
    show "2 powi (ulp_exp x + j + 52) \<le> \<bar>x * 2 powi j\<bar>"
      using ulp_exp_bracket(1) [OF False] by (simp add: abs_mult power_int_add)
    show "\<bar>x * 2 powi j\<bar> < 2 powi (ulp_exp x + j + 53)"
      using ulp_exp_bracket(2) [OF False] by (simp add: abs_mult power_int_add)
  qed
  with False show ?thesis by (simp add: rnd_def power_int_add)
qed simp

lemma rnd_half: "\<bar>m\<bar> \<le> 2 ^ 53 \<Longrightarrow> rnd (of_int m / 2) = of_int m / 2"
  using rnd_scale [of "of_int m" "- 1"] rnd_int [of m] by (simp add: power_int_minus)

lemma rnd_factor2:
  assumes "0 \<le> x"
  shows "x / 2 \<le> rnd x" and "rnd x \<le> 2 * x"
proof -
  have "x / 2 ^ 53 \<le> x / 2" using assms by (intro divide_left_mono) auto
  with rnd_err [of x] assms have e: "\<bar>rnd x - x\<bar> \<le> x / 2" by simp
  show "x / 2 \<le> rnd x" using e by linarith
  show "rnd x \<le> 2 * x" using e assms by linarith
qed

section \<open>Facts on the conversions\<close>

lemma trunc_ge: "of_int m \<le> x \<Longrightarrow> m \<le> trunc_rat x"
  by (auto simp: trunc_rat_def le_floor_iff floor_le_iff minus_le_iff) linarith

lemma trunc_le: "x \<le> of_int m \<Longrightarrow> trunc_rat x \<le> m"
  by (auto simp: trunc_rat_def) linarith+

lemma trunc_int [simp]: "trunc_rat (of_int m) = m"
  by (auto simp: trunc_rat_def simp flip: of_int_minus)

lemma trunc_half: "trunc_rat (of_int m / 2) = sgn m * (\<bar>m\<bar> div 2)"
proof (cases "0 \<le> m")
  case True
  then show ?thesis
    using floor_divide_of_int_eq [of m 2, where 'a = rat] by (cases "m = 0") (auto simp: trunc_rat_def)
next
  case False
  then show ?thesis
    using floor_divide_of_int_eq [of "- m" 2, where 'a = rat] by (simp add: trunc_rat_def)
qed

lemma sample_range: "- 32768 \<le> sint (s :: sample)" "sint (s :: sample) \<le> 32767"
  using sint_greater_eq [of s] sint_less [of s] by simp_all

lemma cast16_between:
  assumes "of_int a \<le> x" and "x \<le> of_int b" and "- 32768 \<le> a" and "b \<le> 32767"
  obtains s where "cast16 x = Some s" and "sint s = trunc_rat x" and "a \<le> sint s" and "sint s \<le> b"
proof
  have t: "a \<le> trunc_rat x" "trunc_rat x \<le> b" using assms(1,2) by (auto intro: trunc_ge trunc_le)
  then have r: "- 32768 \<le> trunc_rat x" "trunc_rat x \<le> 32767" using assms(3,4) by auto
  then show "cast16 x = Some (word_of_int (trunc_rat x))" by (simp add: cast16_def)
  show "sint (word_of_int (trunc_rat x) :: sample) = trunc_rat x" using r by (rule sint_word_sample)
  with t show "a \<le> sint (word_of_int (trunc_rat x) :: sample)" "sint (word_of_int (trunc_rat x) :: sample) \<le> b"
    by simp_all
qed

lemma cast_size_floor: "0 \<le> x \<Longrightarrow> x < 2 ^ 64 \<Longrightarrow> cast_size x = Some (nat \<lfloor>x\<rfloor>)"
  by (simp add: cast_size_def trunc_rat_def floor_less_iff)

end
