(* ===== verification/Resample.thy ===== *)
theory Resample
  imports Doubles
begin

text \<open>
  \<^verbatim>\<open>resampleAudio\<close> of \<^verbatim>\<open>websocket_handler.cpp\<close>: linear interpolation in 64-bit floating point,
  operation by operation. The lemmas show that for positive rates it always returns, never leaves
  the range of the samples around each position, keeps every \<open>k\<close>-th sample when the rate drops by a
  factor \<open>k\<close>, and inserts the means of neighbours when it doubles.
\<close>

section \<open>The resampler\<close>

text \<open>The interpolation between two samples, and the output sample at index \<open>i\<close>.\<close>

definition interpolate :: "sample \<Rightarrow> sample \<Rightarrow> rat \<Rightarrow> sample option" where
  "interpolate sample1 sample2 fraction =
     cast16 (rnd (of_int (sint sample1) + rnd (of_int (sint sample2 - sint sample1) * fraction)))"

definition resample_at :: "sample list \<Rightarrow> rat \<Rightarrow> nat \<Rightarrow> sample option" where
  "resample_at xs ratio i =
     (let input_index = rnd (rnd (of_nat i) * ratio)
      in case cast_size input_index of
           None \<Rightarrow> None
         | Some index_floor \<Rightarrow>
             (if length xs \<le> index_floor then Some 0
              else (let index_ceil = min (index_floor + 1) (length xs - 1);
                        fraction = rnd (input_index - rnd (of_nat index_floor))
                    in interpolate (xs ! index_floor) (xs ! index_ceil) fraction)))"

text \<open>All elements present.\<close>

fun all_some :: "'a option list \<Rightarrow> 'a list option" where
  "all_some [] = Some []"
| "all_some (None # xs) = None"
| "all_some (Some x # xs) = map_option ((#) x) (all_some xs)"

text \<open>A rate of 0 makes the quotient infinite, whose conversion is undefined.\<close>

definition output_length :: "nat \<Rightarrow> int \<Rightarrow> int \<Rightarrow> nat option" where
  "output_length n input_rate output_rate =
     (if input_rate = 0 then None
      else cast_size (rnd (rnd (of_nat n) / rnd (of_int input_rate / of_int output_rate))))"

definition resampleAudio :: "byte list \<Rightarrow> int \<Rightarrow> int \<Rightarrow> byte list option" where
  "resampleAudio input_data input_rate output_rate =
     (if input_rate = output_rate then Some input_data
      else if input_data = [] \<or> odd (length input_data) \<or> output_rate \<le> 0 then Some input_data
      else
        (let input_samples = pcm_samples input_data;
             ratio = rnd (of_int input_rate / of_int output_rate)
         in case output_length (length input_samples) input_rate output_rate of
              None \<Rightarrow> None
            | Some n \<Rightarrow>
                (if n = 0 then Some input_data
                 else map_option pcm_bytes (all_some (map (resample_at input_samples ratio) [0..<n])))))"

section \<open>Facts\<close>

text \<open>Interpolation stays between its two samples, keeps the first at fraction 0, and at one half
  gives their mean, truncated towards zero.\<close>

lemma interpolate_between:
  assumes "0 \<le> fr" and "fr \<le> 1"
  obtains s where "interpolate a b fr = Some s"
    and "min (sint a) (sint b) \<le> sint s" and "sint s \<le> max (sint a) (sint b)"
proof -
  define A where "A = sint a"
  define B where "B = sint b"
  define lo where "lo = min A B"
  define hi where "hi = max A B"
  have r: "- 32768 \<le> A" "A \<le> 32767" "- 32768 \<le> B" "B \<le> 32767"
    using sample_range by (simp_all add: A_def B_def)
  then have r': "- 32768 \<le> lo" "lo \<le> 32767" "- 32768 \<le> hi" "hi \<le> 32767" by (simp_all add: lo_def hi_def)
  define t where "t = of_int (B - A) * fr"
  have d: "of_int (lo - A) \<le> t \<and> t \<le> of_int (hi - A)"
  proof (cases "A \<le> B")
    case True
    then have "0 \<le> (of_int (B - A) :: rat)" by simp
    then have "0 \<le> t" "t \<le> of_int (B - A)" using assms by (simp_all add: t_def mult_left_le del: of_int_diff)
    with True show ?thesis by (simp add: lo_def hi_def)
  next
    case False
    then have "(of_int (B - A) :: rat) \<le> 0" by simp
    then have "t \<le> 0" "of_int (B - A) \<le> t"
      using assms by (simp_all add: t_def mult_nonpos_nonneg mult_le_cancel_left1 mult_le_cancel_left2 del: of_int_diff)
    with False show ?thesis by (simp add: lo_def hi_def)
  qed
  have "of_int (lo - A) \<le> rnd t" "rnd t \<le> of_int (hi - A)"
    using d r r' by (auto intro: rnd_ge_int rnd_le_int simp del: of_int_diff)
  then have v: "of_int lo \<le> of_int A + rnd t" "of_int A + rnd t \<le> of_int hi" by simp_all
  have "of_int lo \<le> rnd (of_int A + rnd t)" "rnd (of_int A + rnd t) \<le> of_int hi"
    using v r' by (auto intro: rnd_ge_int rnd_le_int)
  from cast16_between [OF this r'(1) r'(4)]
  obtain s where "cast16 (rnd (of_int A + rnd t)) = Some s" and "lo \<le> sint s" and "sint s \<le> hi" .
  then show thesis
    by (intro that) (simp_all add: interpolate_def t_def lo_def hi_def del: of_int_diff flip: A_def B_def)
qed

lemma interpolate_0 [simp]: "interpolate a b 0 = Some a"
proof -
  define A where "A = sint a"
  have r: "- 32768 \<le> A" "A \<le> 32767" using sample_range by (simp_all add: A_def)
  then have "rnd (of_int A) = of_int A" by (intro rnd_int) simp
  with r show ?thesis by (simp add: interpolate_def cast16_def flip: A_def) (simp add: A_def)
qed

definition midpoint :: "sample \<Rightarrow> sample \<Rightarrow> sample" where
  "midpoint a b = (let s = sint a + sint b in word_of_int (sgn s * (\<bar>s\<bar> div 2)))"

lemma interpolate_half: "interpolate a b (1 / 2) = Some (midpoint a b)"
proof -
  define A where "A = sint a"
  define B where "B = sint b"
  have r: "- 32768 \<le> A" "A \<le> 32767" "- 32768 \<le> B" "B \<le> 32767"
    using sample_range by (simp_all add: A_def B_def)
  have "rnd (of_int (B - A) * (1 / 2)) = of_int (B - A) / 2"
    using rnd_half [of "B - A"] r by simp
  then have "of_int A + rnd (of_int (B - A) * (1 / 2)) = of_int (A + B) / 2" by (simp add: field_simps)
  moreover have "rnd (of_int (A + B) / 2) = of_int (A + B) / 2" using r by (intro rnd_half) simp
  ultimately have v: "rnd (of_int A + rnd (of_int (B - A) * (1 / 2))) = of_int (A + B) / 2" by (simp only:)
  have "- 32768 \<le> sgn (A + B) * (\<bar>A + B\<bar> div 2)" "sgn (A + B) * (\<bar>A + B\<bar> div 2) \<le> 32767"
    using r by (auto simp: sgn_if)
  then show ?thesis
    unfolding interpolate_def A_def [symmetric] B_def [symmetric] v
    by (simp add: cast16_def trunc_half midpoint_def Let_def del: of_int_add flip: A_def B_def)
qed

lemma resample_at_int:
  assumes "i * k < length xs" and "length xs \<le> 2 ^ 53" and "i \<le> 2 ^ 53"
  shows "resample_at xs (of_nat k) i = Some (xs ! (i * k))"
proof -
  have i: "rnd (of_nat i) = of_nat i" using assms(3) by (rule rnd_nat)
  have "i * k \<le> 2 ^ 53" using assms by simp
  then have ik: "rnd (of_nat (i * k)) = of_nat (i * k)" by (rule rnd_nat)
  have x: "rnd (of_nat i * of_nat k) = of_nat (i * k)" using ik by (simp only: of_nat_mult)
  have "(of_nat (i * k) :: rat) < of_nat (2 ^ 64)" using assms by (subst of_nat_less_iff) simp
  then have "(of_nat (i * k) :: rat) < 2 ^ 64" by (simp only: of_nat_power of_nat_numeral)
  then have "cast_size (of_nat (i * k)) = Some (i * k)"
    using cast_size_floor [of "of_nat (i * k)"] by (simp del: of_nat_mult)
  then show ?thesis using assms(1) ik by (simp add: resample_at_def i x Let_def del: of_nat_mult)
qed

lemma resample_at_half:
  assumes "i div 2 < length xs" and "length xs \<le> 2 ^ 52"
  shows "resample_at xs (1 / 2) i = Some (if even i then xs ! (i div 2)
    else midpoint (xs ! (i div 2)) (xs ! min (i div 2 + 1) (length xs - 1)))"
proof -
  have small: "i \<le> 2 ^ 53" using assms by simp
  have i: "rnd (of_nat i) = of_nat i" using small by (rule rnd_nat)
  have "\<bar>int i\<bar> \<le> 2 ^ 53" using small of_nat_le_iff [of i "2 ^ 53", where 'a = int] by simp
  from rnd_half [OF this] have x: "rnd (of_nat i * (1 / 2)) = of_nat i / 2" by simp
  have fl: "\<lfloor>of_nat i / (2 :: rat)\<rfloor> = int (i div 2)"
    using floor_divide_of_nat_eq [of i 2, where 'a = rat] by simp
  have "(of_nat i :: rat) \<le> of_nat (2 ^ 53)" using small by (subst of_nat_le_iff)
  then have "(of_nat i / 2 :: rat) < 2 ^ 64" by simp
  then have c: "cast_size (of_nat i / 2) = Some (i div 2)"
    using cast_size_floor [of "of_nat i / 2"] by (simp add: fl)
  have f: "rnd (of_nat (i div 2)) = of_nat (i div 2)" using small by (intro rnd_nat) simp
  have "(of_nat i :: rat) = 2 * of_nat (i div 2) + of_nat (i mod 2)"
    by (metis of_nat_add of_nat_mult of_nat_numeral mult_div_mod_eq)
  then have d: "of_nat i / 2 - of_nat (i div 2) = (of_nat (i mod 2) / 2 :: rat)" by (simp add: field_simps)
  have h: "rnd (1 / 2) = 1 / 2" using rnd_half [of 1] by simp
  have r: "resample_at xs (1 / 2) i = interpolate (xs ! (i div 2))
      (xs ! min (i div 2 + 1) (length xs - 1)) (rnd (of_nat (i mod 2) / 2))"
    using assms(1) by (simp only: resample_at_def i x c f d Let_def option.case not_less [symmetric] if_not_P simp_thms if_False if_True not_le)
  show ?thesis
  proof (cases "even i")
    case True
    then have "i mod 2 = 0" by presburger
    with True show ?thesis by (simp only: r) simp
  next
    case False
    then have "i mod 2 = 1" by presburger
    with False show ?thesis by (simp only: r of_nat_1 h interpolate_half if_False)
  qed
qed

lemma all_some_map: "(\<And>i. i \<in> set is \<Longrightarrow> f i = Some (g i)) \<Longrightarrow> all_some (map f is) = Some (map g is)"
  by (induction "is") auto

lemma all_some_exists:
  "(\<And>i. i \<in> set is \<Longrightarrow> \<exists>y. f i = Some y \<and> P y) \<Longrightarrow> \<exists>ys. all_some (map f is) = Some ys \<and> list_all P ys"
proof (induction "is")
  case (Cons i "is")
  obtain y where "f i = Some y" "P y" using Cons.prems [of i] by auto
  moreover obtain ys where "all_some (map f is) = Some ys" "list_all P ys" using Cons by auto
  ultimately show ?case by auto
qed simp

text \<open>A rate that drops by an integer factor.\<close>

lemma output_length_int:
  assumes "0 < r" and "0 < k" and "n < 2 ^ 53" and "int k \<le> 2 ^ 53"
  shows "output_length n (int k * r) r = Some (n div k)"
proof -
  have ratio: "of_int (int k * r) / of_int r = (of_nat k :: rat)" using assms(1) by simp
  have k: "rnd (of_nat k) = of_nat k" using rnd_int [of "int k"] assms(4) by simp
  have n: "rnd (of_nat n) = of_nat n" using assms(3) by (intro rnd_nat) simp
  define x :: rat where "x = of_nat n / of_nat k"
  have kpos: "(0 :: rat) < of_nat k" using assms(2) by simp
  have fl: "\<lfloor>x\<rfloor> = int (n div k)" unfolding x_def by (rule floor_divide_of_nat_eq)
  have "n div k \<le> 2 ^ 53" using assms(3) by (meson div_le_dividend le_trans less_imp_le)
  then have small: "\<bar>int (n div k)\<bar> \<le> 2 ^ 53"
    using of_nat_le_iff [of "n div k" "2 ^ 53", where 'a = int] by simp
  have "of_int (int (n div k)) \<le> x" using of_int_floor_le [of x] by (simp only: fl)
  then have lo: "of_int (int (n div k)) \<le> rnd x" using small by (rule rnd_ge_int)
  have "n < Suc (n div k) * k" using assms(2) dividend_less_div_times [of k n] by simp
  then have "n + 1 \<le> Suc (n div k) * k" by simp
  then have "(of_nat (n + 1) :: rat) \<le> of_nat (Suc (n div k) * k)" by (simp only: of_nat_le_iff)
  then have "x + 1 / of_nat k \<le> of_nat (n div k) + 1" using kpos by (simp add: x_def field_simps)
  moreover have "rnd x < x + 1 / of_nat k"
  proof -
    have "(of_nat n :: rat) < of_nat (2 ^ 53)" using assms(3) by (simp only: of_nat_less_iff)
    then have "(of_nat n :: rat) / 2 ^ 53 < 1" by simp
    then have "of_nat n / 2 ^ 53 / of_nat k < (1 :: rat) / of_nat k" using kpos by (rule divide_strict_right_mono)
    then have "x / 2 ^ 53 < 1 / of_nat k" by (simp add: x_def mult.commute)
    moreover have "rnd x \<le> x + x / 2 ^ 53" using rnd_err [of x] kpos by (simp add: x_def abs_le_iff)
    ultimately show ?thesis by linarith
  qed
  ultimately have hi: "rnd x < of_int (int (n div k)) + 1" by simp
  have "\<lfloor>rnd x\<rfloor> = int (n div k)" using lo hi by (intro floor_unique)
  moreover have "0 \<le> rnd x" using lo order_trans [of 0 "of_nat (n div k)" "rnd x"] by simp
  moreover have "rnd x < 2 ^ 64"
  proof -
    have "of_int (int (n div k)) \<le> (2 ^ 53 :: rat)" using of_int_abs_le [OF small] by simp
    with hi show ?thesis by simp
  qed
  ultimately have "cast_size (rnd x) = Some (n div k)" by (simp add: cast_size_floor)
  moreover have "int k * r \<noteq> 0" using assms by simp
  ultimately show ?thesis unfolding output_length_def ratio k n x_def by simp
qed

lemma resample_decimates:
  assumes "0 < r" and "1 < k" and "int k \<le> 2 ^ 53" and "k \<le> length xs" and "length xs < 2 ^ 53"
  shows "resampleAudio (pcm_bytes xs) (int k * r) r
    = Some (pcm_bytes (map (\<lambda>i. xs ! (i * k)) [0..<length xs div k]))"
proof -
  have k: "rnd (of_nat k) = of_nat k" using rnd_int [of "int k"] assms(3) by simp
  have ratio: "rnd (of_int (int k * r) / of_int r) = of_nat k" using assms(1) k by simp
  have at: "resample_at xs (of_nat k) i = Some (xs ! (i * k))" if "i \<in> set [0..<length xs div k]" for i
  proof (rule resample_at_int)
    have i: "i < length xs div k" using that by simp
    then have "Suc i * k \<le> length xs"
      using assms(2) less_eq_div_iff_mult_less_eq [of k "Suc i" "length xs"] by simp
    then show "i * k < length xs" using assms(2) by simp
    have "i < length xs" using i by (meson div_le_dividend order_less_le_trans)
    then show "i \<le> 2 ^ 53" using assms(5) by simp
    show "length xs \<le> 2 ^ 53" using assms(5) by simp
  qed
  have n: "output_length (length xs) (int k * r) r = Some (length xs div k)"
    using assms by (intro output_length_int) auto
  have pos: "length xs div k \<noteq> 0" using assms by (simp add: div_eq_0_iff)
  have "int k * r \<noteq> r" "pcm_bytes xs \<noteq> []" using assms length_pcm_bytes [of xs] by (auto simp del: length_pcm_bytes)
  moreover have "all_some (map (resample_at xs (of_nat k)) [0..<length xs div k])
      = Some (map (\<lambda>i. xs ! (i * k)) [0..<length xs div k])"
    by (rule all_some_map) (rule at)
  ultimately show ?thesis
    using assms(1) unfolding resampleAudio_def ratio Let_def pcm_samples_bytes n option.case
    by (simp add: pos not_le)
qed

text \<open>A rate that doubles.\<close>

lemma resample_doubles:
  assumes "0 < r" and "xs \<noteq> []" and "length xs \<le> 2 ^ 52"
  shows "resampleAudio (pcm_bytes xs) r (2 * r)
    = Some (pcm_bytes (map (\<lambda>i. if even i then xs ! (i div 2)
        else midpoint (xs ! (i div 2)) (xs ! min (i div 2 + 1) (length xs - 1))) [0..<2 * length xs]))"
proof -
  have h: "rnd (1 / 2) = 1 / 2" using rnd_half [of 1] by simp
  have ratio: "rnd (of_int r / of_int (2 * r)) = 1 / 2" using assms(1) h by simp
  have n: "rnd (of_nat (length xs)) = of_nat (length xs)" using assms(3) by (intro rnd_nat) simp
  have n2: "rnd (of_nat (2 * length xs)) = of_nat (2 * length xs)" using assms(3) by (intro rnd_nat) simp
  have "(of_nat (2 * length xs) :: rat) < of_nat (2 ^ 64)" using assms(3) by (simp only: of_nat_less_iff) simp
  then have c: "cast_size (of_nat (2 * length xs)) = Some (2 * length xs)"
    using cast_size_floor [of "of_nat (2 * length xs)"] by (simp del: of_nat_mult)
  have "rnd (of_nat (length xs) / (1 / 2)) = of_nat (2 * length xs)"
    using n2 by (simp add: mult.commute)
  then have o: "output_length (length xs) r (2 * r) = Some (2 * length xs)"
    using assms(1) c by (simp add: output_length_def n h del: of_nat_mult)
  have at: "resample_at xs (1 / 2) i = Some (if even i then xs ! (i div 2)
      else midpoint (xs ! (i div 2)) (xs ! min (i div 2 + 1) (length xs - 1)))"
    if "i \<in> set [0..<2 * length xs]" for i
    using that assms(3) by (intro resample_at_half) auto
  have all: "all_some (map (resample_at xs (1 / 2)) [0..<2 * length xs])
      = Some (map (\<lambda>i. if even i then xs ! (i div 2)
          else midpoint (xs ! (i div 2)) (xs ! min (i div 2 + 1) (length xs - 1))) [0..<2 * length xs])"
    by (rule all_some_map) (rule at)
  have "pcm_bytes xs \<noteq> []" using assms(2) length_pcm_bytes [of xs] by (auto simp del: length_pcm_bytes)
  with assms(1,2) show ?thesis
    unfolding resampleAudio_def ratio Let_def pcm_samples_bytes o option.case all
    by (simp add: not_le)
qed

section \<open>Any positive rates\<close>

text \<open>An output sample is silence or lies between two neighbours of the input.\<close>

definition amid :: "sample list \<Rightarrow> sample \<Rightarrow> bool" where
  "amid xs y \<longleftrightarrow> y = 0 \<or> (\<exists>j < length xs. \<exists>k < length xs.
     min (sint (xs ! j)) (sint (xs ! k)) \<le> sint y \<and> sint y \<le> max (sint (xs ! j)) (sint (xs ! k)))"

lemma amid_bound:
  assumes "amid xs y" and "list_all (\<lambda>s. \<bar>sint s\<bar> \<le> M) xs" and "xs \<noteq> []"
  shows "\<bar>sint y\<bar> \<le> M"
proof -
  have b: "\<bar>sint (xs ! j)\<bar> \<le> M" if "j < length xs" for j using assms(2) that by (simp add: list_all_length)
  have "0 \<le> M" using b [of 0] assms(3) by (meson abs_ge_zero length_greater_0_conv order_trans)
  from assms(1) consider "y = 0" | j k where "j < length xs" "k < length xs"
      "min (sint (xs ! j)) (sint (xs ! k)) \<le> sint y" "sint y \<le> max (sint (xs ! j)) (sint (xs ! k))"
    by (auto simp: amid_def)
  then show ?thesis
  proof cases
    case 1
    with \<open>0 \<le> M\<close> show ?thesis by simp
  next
    case (2 j k)
    with b [of j] b [of k] show ?thesis by linarith
  qed
qed

lemma resample_at_defined:
  assumes "0 \<le> ratio" and "rnd (rnd (of_nat i) * ratio) < 2 ^ 53"
  shows "\<exists>y. resample_at xs ratio i = Some y \<and> amid xs y"
proof -
  define x where "x = rnd (rnd (of_nat i) * ratio)"
  define f where "f = nat \<lfloor>x\<rfloor>"
  have "0 \<le> rnd (of_nat i)" using rnd_ge_int [of 0 "of_nat i"] by simp
  then have "0 \<le> rnd (of_nat i) * ratio" using assms(1) by simp
  then have x0: "0 \<le> x" using rnd_ge_int [of 0] by (simp add: x_def)
  have c: "cast_size x = Some f" using assms(2) x0 by (simp add: f_def x_def cast_size_floor)
  have "(of_nat f :: rat) = of_int \<lfloor>x\<rfloor>" using x0 by (simp add: f_def)
  then have f: "of_nat f \<le> x" "x < of_nat f + 1" by linarith+
  have "(of_nat f :: rat) \<le> of_nat (2 ^ 53)" using f assms(2) by (simp add: x_def)
  then have fr: "rnd (of_nat f) = of_nat f" by (intro rnd_nat) (simp only: of_nat_le_iff)
  have fraction: "0 \<le> rnd (x - of_nat f)" "rnd (x - of_nat f) \<le> 1"
    using rnd_ge_int [of 0 "x - of_nat f"] rnd_le_int [of "x - of_nat f" 1] f by simp_all
  show ?thesis
  proof (cases "length xs \<le> f")
    case True
    then show ?thesis by (simp add: resample_at_def c amid_def flip: x_def)
  next
    case False
    from interpolate_between [OF fraction] obtain y
      where "interpolate (xs ! f) (xs ! min (f + 1) (length xs - 1)) (rnd (x - of_nat f)) = Some y"
        and "min (sint (xs ! f)) (sint (xs ! min (f + 1) (length xs - 1))) \<le> sint y"
        and "sint y \<le> max (sint (xs ! f)) (sint (xs ! min (f + 1) (length xs - 1)))" .
    moreover have "f < length xs" "min (f + 1) (length xs - 1) < length xs" using False by auto
    ultimately have "resample_at xs ratio i = Some y" "amid xs y"
      by (auto simp: resample_at_def c fr Let_def amid_def simp flip: x_def)
    then show ?thesis by blast
  qed
qed

lemma rate_ratio:
  assumes "0 < a" and "a < 2 ^ 31" and "0 < b" and "b < (2 ^ 31 :: int)"
  shows "1 / 2 ^ 32 \<le> rnd (of_int a / of_int b)" and "rnd (of_int a / of_int b) \<le> 2 ^ 32"
proof -
  have a: "1 \<le> (of_int a :: rat)" "of_int a \<le> (2 ^ 31 :: rat)"
    using assms of_int_abs_le [of a 31] by simp_all
  have b: "1 \<le> (of_int b :: rat)" "of_int b \<le> (2 ^ 31 :: rat)"
    using assms of_int_abs_le [of b 31] by simp_all
  have lo: "1 / 2 ^ 31 \<le> of_int a / (of_int b :: rat)" using a b by (intro frac_le) auto
  have "of_int a / of_int b \<le> (2 ^ 31 / 1 :: rat)" using a b by (intro frac_le) auto
  then have hi: "of_int a / of_int b \<le> (2 ^ 31 :: rat)" by simp
  have nn: "0 \<le> of_int a / (of_int b :: rat)" using a b by simp
  have "1 / 2 ^ 32 = (1 / 2 ^ 31 / 2 :: rat)" by simp
  also have "\<dots> \<le> of_int a / of_int b / 2" using lo by (rule divide_right_mono) simp
  also have "\<dots> \<le> rnd (of_int a / of_int b)" using nn by (rule rnd_factor2)
  finally show "1 / 2 ^ 32 \<le> rnd (of_int a / of_int b)" .
  show "rnd (of_int a / of_int b) \<le> 2 ^ 32" using rnd_factor2(2) [OF nn] hi by simp
qed

lemma output_length_defined:
  assumes "0 < a" and "a < 2 ^ 31" and "0 < b" and "b < 2 ^ 31" and "n \<le> 2 ^ 30"
  obtains m where "output_length n a b = Some m"
    and "of_nat m * rnd (of_int a / of_int b) \<le> 2 * of_nat n"
proof -
  define q where "q = rnd (of_int a / of_int b)"
  have q: "1 / 2 ^ 32 \<le> q" using rate_ratio [OF assms(1-4)] by (simp add: q_def)
  then have qpos: "0 < q" by (rule less_le_trans [rotated]) simp
  have n: "rnd (of_nat n) = of_nat n" using assms(5) by (intro rnd_nat) simp
  have "(of_nat n :: rat) \<le> of_nat (2 ^ 30)" using assms(5) by (simp only: of_nat_le_iff)
  then have nr: "(of_nat n :: rat) \<le> 2 ^ 30" by simp
  define y where "y = rnd (of_nat n / q)"
  have nn: "0 \<le> of_nat n / q" using qpos by simp
  have y: "of_nat n / q / 2 \<le> y" "y \<le> 2 * (of_nat n / q)" using rnd_factor2 [OF nn] by (simp_all add: y_def)
  have "0 \<le> of_nat n / q / 2" using nn by (rule divide_nonneg_nonneg) simp
  then have y0: "0 \<le> y" using y(1) by (rule order_trans)
  have "of_nat n / q \<le> 2 ^ 30 / (1 / 2 ^ 32)" using nr q qpos by (intro frac_le) auto
  then have "y < 2 ^ 64" using y(2) by simp
  then have c: "cast_size y = Some (nat \<lfloor>y\<rfloor>)" using y0 by (intro cast_size_floor)
  have "of_nat (nat \<lfloor>y\<rfloor>) \<le> y" using y0 by simp
  then have "of_nat (nat \<lfloor>y\<rfloor>) * q \<le> y * q" using qpos by (intro mult_right_mono) auto
  also have "\<dots> \<le> 2 * (of_nat n / q) * q" using y(2) qpos by (intro mult_right_mono) auto
  also have "\<dots> = 2 * of_nat n" using qpos by simp
  finally have "of_nat (nat \<lfloor>y\<rfloor>) * q \<le> 2 * of_nat n" .
  moreover have "output_length n a b = Some (nat \<lfloor>y\<rfloor>)"
    using assms(1) c by (simp add: output_length_def n y_def q_def)
  ultimately show thesis using that by (simp add: q_def)
qed

lemma resample_bounded:
  assumes "0 < input_rate" and "input_rate < 2 ^ 31" and "0 < output_rate" and "output_rate < 2 ^ 31"
    and "length input_data < 2 ^ 31"
  shows "\<exists>out. resampleAudio input_data input_rate output_rate = Some out
    \<and> (\<forall>M. list_all (\<lambda>s. \<bar>sint s\<bar> \<le> M) (pcm_samples input_data)
        \<longrightarrow> list_all (\<lambda>s. \<bar>sint s\<bar> \<le> M) (pcm_samples out))"
proof -
  define xs where "xs = pcm_samples input_data"
  define q where "q = rnd (of_int input_rate / of_int output_rate)"
  have len: "length xs \<le> 2 ^ 30" using assms(5) by (simp add: xs_def)
  obtain m where m: "output_length (length xs) input_rate output_rate = Some m"
    and mq: "of_nat m * q \<le> 2 * of_nat (length xs)"
    using output_length_defined [OF assms(1-4) len] unfolding q_def .
  have q0: "0 \<le> q" using rate_ratio(1) [OF assms(1-4)] unfolding q_def by (rule order_trans [rotated]) simp
  have "(of_nat (length xs) :: rat) \<le> of_nat (2 ^ 30)" using len by (simp only: of_nat_le_iff)
  then have lr: "(of_nat (length xs) :: rat) \<le> 2 ^ 30" by simp
  have at: "\<exists>y. resample_at xs q i = Some y \<and> amid xs y" if "i \<in> set [0..<m]" for i
  proof (rule resample_at_defined [OF q0])
    have i0: "rnd (of_nat i) \<le> 2 * of_nat i" by (rule rnd_factor2) simp
    have r0: "0 \<le> rnd (of_nat i)" using rnd_ge_int [of 0 "of_nat i"] by simp
    have "rnd (of_nat i) * q \<le> 2 * of_nat i * q" using i0 q0 by (rule mult_right_mono)
    also have "\<dots> \<le> 2 * (of_nat m * q)" using that q0 by (auto intro!: mult_right_mono)
    also have "\<dots> \<le> 2 * (2 * of_nat (length xs))" using mq by (rule mult_left_mono) simp
    finally have "rnd (of_nat i) * q \<le> 2 * (2 * 2 ^ 30)" using lr by simp
    moreover have "rnd (rnd (of_nat i) * q) \<le> 2 * (rnd (of_nat i) * q)"
      using r0 q0 by (intro rnd_factor2) simp
    ultimately show "rnd (rnd (of_nat i) * q) < 2 ^ 53" by simp
  qed
  have "\<exists>ys. all_some (map (resample_at xs q) [0..<m]) = Some ys \<and> list_all (amid xs) ys"
    by (rule all_some_exists) (rule at)
  then obtain ys where ys: "all_some (map (resample_at xs q) [0..<m]) = Some ys" "list_all (amid xs) ys"
    by blast
  show ?thesis
  proof (cases "input_rate = output_rate \<or> input_data = [] \<or> odd (length input_data) \<or> m = 0")
    case True
    then have "resampleAudio input_data input_rate output_rate = Some input_data"
      using m by (auto simp: resampleAudio_def Let_def xs_def)
    then show ?thesis by blast
  next
    case False
    then have "resampleAudio input_data input_rate output_rate = Some (pcm_bytes ys)"
      using m ys assms(3) by (simp add: resampleAudio_def Let_def xs_def q_def)
    moreover have "xs \<noteq> []"
    proof
      assume "xs = []"
      then have "length input_data div 2 = 0" by (metis list.size(3) length_pcm_samples xs_def)
      with False show False by (auto simp: div_eq_0_iff less_2_cases_iff)
    qed
    ultimately show ?thesis using ys(2) amid_bound [of xs]
      by (auto simp: list_all_iff simp flip: xs_def)
  qed
qed

section \<open>Properties\<close>

text \<open>C15: For positive 32-bit rates and a buffer below 2 GB the resampler returns, whatever rounding
  the ratio needs: no conversion overflows, and the audio never gets louder, so a bound on the
  magnitude of the input samples bounds the output's.\<close>

theorem resample_in_range:
  assumes "0 < input_rate" and "input_rate < 2 ^ 31" and "0 < output_rate" and "output_rate < 2 ^ 31"
    and "length input_data < 2 ^ 31"
  shows "\<exists>out. resampleAudio input_data input_rate output_rate = Some out
    \<and> (\<forall>M. list_all (\<lambda>s. \<bar>sint s\<bar> \<le> M) (pcm_samples input_data)
        \<longrightarrow> list_all (\<lambda>s. \<bar>sint s\<bar> \<le> M) (pcm_samples out))"
  using resample_bounded [OF assms] .

lemma decimated_example:
  "resampleAudio [16, 0, 32, 0, 240, 255, 1, 0] 24000 8000 = Some [16, 0]"
  using resample_decimates [of 8000 3 "pcm_samples [16, 0, 32, 0, 240, 255, 1, 0]"]
  by (simp add: pcm_bytes_samples)

theorem resample_in_range_witness:
  "\<exists>out. resampleAudio [16, 0, 32, 0, 240, 255, 1, 0] 24000 8000 = Some out \<and> out = [16, 0]
     \<and> (\<forall>M. list_all (\<lambda>s. \<bar>sint s\<bar> \<le> M) (pcm_samples [16, 0, 32, 0, 240, 255, 1, 0])
        \<longrightarrow> list_all (\<lambda>s. \<bar>sint s\<bar> \<le> M) (pcm_samples out))"
  using resample_in_range [of 24000 8000 "[16, 0, 32, 0, 240, 255, 1, 0]"] decimated_example
  by auto

end
