(* ===== verification/Ws_Legacy.thy ===== *)
theory Ws_Legacy
  imports Ws_Session Resample
begin

text \<open>
  The parts of \<^verbatim>\<open>WebSocketAudioHandler\<close> beside its live message path: \<^verbatim>\<open>handleReceivedMessage\<close>, the
  message handler of an earlier version, marked obsolete in the source and called by nothing, and
  \<^verbatim>\<open>registerThread\<close>, with which a client thread makes itself known to PJSIP.
\<close>

section \<open>The obsolete message handler\<close>

text \<open>The end of the handler: the chunk is queued as it is, without the re-framing of
  \<open>enqueueAudio\<close>.\<close>

definition push_decoded :: "byte list \<Rightarrow> handler \<Rightarrow> handler" where
  "push_decoded decoded h =
     (if real_time_audio h
      then h\<lparr>audio_queue :=
               (if MAX_QUEUE_SIZE_RUPTURE \<le> length (audio_queue h) then tl (audio_queue h) else audio_queue h) @ [decoded]\<rparr>
      else if length (audio_queue h) < MAX_QUEUE_SIZE_DEFAULT
      then h\<lparr>audio_queue := audio_queue h @ [decoded]\<rparr> else h)"

text \<open>The audio in the format the message names; \<open>None\<close> for an unknown content type.\<close>

definition legacy_audio :: "(byte \<Rightarrow> sample) \<Rightarrow> string \<Rightarrow> byte list \<Rightarrow> byte list option" where
  "legacy_audio ulaw contentType decoded =
     (if contentType = ''audio/x-mulaw'' then Some (convertFromMulaw ulaw decoded)
      else if contentType = ''audio/x-l16'' then Some decoded else None)"

text \<open>\<open>to_int\<close> is \<^verbatim>\<open>get<int>\<close> of the JSON library, \<open>None\<close> its exception. A lookup that throws, in the
  loop that prints the message or later, leaves the handler as it was. The outer \<open>None\<close> is the
  undefined conversion of \<open>resampleAudio\<close>.\<close>

definition handleReceivedMessage ::
  "'j ws_libs \<Rightarrow> ('j \<Rightarrow> int option) \<Rightarrow> string \<Rightarrow> handler \<Rightarrow> handler option" where
  "handleReceivedMessage L to_int message h =
     (case json_parse L message of
        None \<Rightarrow> Some h
      | Some j \<Rightarrow>
          (if json_field L j ''event'' \<noteq> Some ''playAudio'' then Some h
           else
             (case json_at L j ''media'' of
                None \<Rightarrow> Some h
              | Some media \<Rightarrow>
                  (case (json_field L media ''payload'', json_field L media ''contentType'',
                         Option.bind (json_at L media ''sampleRate'') to_int) of
                     (Some encoded, Some contentType, Some received_sample_rate) \<Rightarrow>
                       (let decoded = base64_decode L encoded
                        in case legacy_audio (ulaw_to_linear L) contentType decoded of
                             None \<Rightarrow> Some h
                           | Some audio_data \<Rightarrow>
                               (let resampled =
                                  (if received_sample_rate \<noteq> h_sample_rate h
                                   then resampleAudio audio_data received_sample_rate (h_sample_rate h)
                                   else Some audio_data)
                                in case resampled of None \<Rightarrow> None | Some _ \<Rightarrow> Some (push_decoded decoded h)))
                   | _ \<Rightarrow> Some h))))"

section \<open>Registering the client thread\<close>

text \<open>\<open>connect\<close> lowers the flag before it starts a client thread, which then calls this. \<open>accepts\<close> is
  the answer of \<^verbatim>\<open>pj_thread_register\<close>; the second component says whether it was called, with the
  descriptor cleared.\<close>

definition ws_registerThread :: "bool \<Rightarrow> bool \<Rightarrow> bool \<times> bool" where
  "ws_registerThread accepts thread_registered =
     (if \<not> thread_registered then (accepts, True) else (thread_registered, False))"

section \<open>Facts\<close>

text \<open>The conversion is for nothing: what is queued is the payload as it arrived, whatever its
  content type and rate, so mu-law bytes would be played as 16-bit samples.\<close>

lemma legacy_conversion_lost:
  assumes "json_parse L message = Some j" and "json_field L j ''event'' = Some ''playAudio''"
    and "json_at L j ''media'' = Some media" and "json_field L media ''payload'' = Some encoded"
    and "json_field L media ''contentType'' = Some contentType"
    and "contentType = ''audio/x-mulaw'' \<or> contentType = ''audio/x-l16''"
    and "json_at L media ''sampleRate'' = Some r" and "to_int r = Some rate"
    and "0 < rate" and "rate < 2 ^ 31" and "0 < h_sample_rate h" and "h_sample_rate h < 2 ^ 31"
    and "length (base64_decode L encoded) < 2 ^ 30"
  shows "handleReceivedMessage L to_int message h = Some (push_decoded (base64_decode L encoded) h)"
proof -
  obtain audio where a: "legacy_audio (ulaw_to_linear L) contentType (base64_decode L encoded) = Some audio"
    and len: "length audio < 2 ^ 31"
    using assms(6,13) by (auto simp: legacy_audio_def)
  obtain out where "resampleAudio audio rate (h_sample_rate h) = Some out"
    using resample_bounded [OF assms(9-12) len] by blast
  with a assms show ?thesis by (simp add: handleReceivedMessage_def)
qed

text \<open>The queue stays within its caps, but its frames need not have the media frame's size.\<close>

lemma push_decoded_cap:
  "length (audio_queue h) \<le> MAX_QUEUE_SIZE_DEFAULT \<Longrightarrow> length (audio_queue (push_decoded d h)) \<le> MAX_QUEUE_SIZE_DEFAULT"
  by (auto simp: push_decoded_def MAX_QUEUE_SIZE_RUPTURE_def MAX_QUEUE_SIZE_DEFAULT_def)

lemma push_decoded_unframed:
  "audio_queue h = [] \<Longrightarrow> length d \<noteq> bytes_per_frame h \<Longrightarrow> 0 < bytes_per_frame h \<Longrightarrow> \<not> queue_wf (push_decoded d h)"
  by (auto simp: push_decoded_def queue_wf_def MAX_QUEUE_SIZE_RUPTURE_def MAX_QUEUE_SIZE_DEFAULT_def)

text \<open>A client thread registers at most once, and after a refusal tries again only when called again.\<close>

lemma ws_registerThread_once:
  "ws_registerThread a f = (f', called) \<Longrightarrow> f' = (f \<or> a) \<and> called = (\<not> f)
   \<and> (f' \<longrightarrow> ws_registerThread b f' = (True, False))"
  by (auto simp: ws_registerThread_def split: if_splits)

end
