(* ===== verification/Player.thy ===== *)
theory Player
  imports Audio_Port
begin

text \<open>
  A call's audio from end to end, on the media port, its handler and its recorder together:
  messages of the agent arrive, the media clock asks for frames, frames of the caller come in, in
  any order. The port is shown to implement a player without frames, queues and carry-over: a
  stream of bytes waiting, one media frame of which is heard at each tick, a line to the agent
  that numbers what it sends, a marker that is acknowledged when the stream has been heard, and a
  tape.
\<close>

section \<open>The port's events\<close>

datatype media_event =
    FromAgent string
  | Clock nat clocks
  | FromCaller bool "byte list" clocks

datatype media_out = Wire ws_effect | Heard "byte list" | Up port_effect

fun media_step :: "'j ws_libs \<Rightarrow> call_view \<Rightarrow> media_event \<Rightarrow> port \<Rightarrow> (port \<times> media_out list) option" where
  "media_step L cv (FromAgent msg) p =
     (case p_handler p of
        None \<Rightarrow> Some (p, [])
      | Some h \<Rightarrow>
          (case message_handler L True msg (port_getHangupSource cv p) h of
             None \<Rightarrow> None
           | Some (h', es) \<Rightarrow>
               (let (p', fs) = port_deliver_all cv es (p\<lparr>p_handler := Some h'\<rparr>) in Some (p', map Up fs))))"
| "media_step L cv (Clock n ts) p =
     map_option (\<lambda>(bs, p', es). (p', map Wire es @ [Heard bs])) (onFrameRequested n ts p)"
| "media_step L cv (FromCaller ec buf ts) p =
     map_option (\<lambda>(p', es). (p', map Wire es)) (onFrameReceived ec buf ts p)"

section \<open>The player\<close>

text \<open>What a message of the agent means: about audio, a request on the call, nothing (malformed messages
  among them), or audio whose volume cannot be applied, which is undefined behaviour.\<close>

datatype agent_msg = Says "byte list" | Marks "string option" "string option" | Clears
  | HangsUp string | Dials string | Transfers ws_effect | Nothing | Overflows

definition marks_of :: "'j ws_libs \<Rightarrow> 'j \<Rightarrow> string option \<times> string option" where
  "marks_of L j =
     (let i = (if json_has L j ''streamId'' then json_field L j ''streamId'' else None);
          bad = (json_has L j ''streamId'' \<and> i = None)
      in (i, if json_has L j ''name'' \<and> \<not> bad then json_field L j ''name'' else None))"

definition transfer_of :: "'j ws_libs \<Rightarrow> 'j \<Rightarrow> string \<Rightarrow> (string \<Rightarrow> ws_effect) \<Rightarrow> agent_msg" where
  "transfer_of L j k spawn = (case json_field L j k of None \<Rightarrow> Nothing | Some v \<Rightarrow> Transfers (spawn v))"

definition event_meaning :: "'j ws_libs \<Rightarrow> 'j \<Rightarrow> string \<Rightarrow> agent_msg" where
  "event_meaning L j event =
     (if event = ''playAudio'' then
        (case json_at L j ''media'' of
           None \<Rightarrow> Nothing
         | Some media \<Rightarrow> (case decode_media L media of
                            None \<Rightarrow> Overflows | Some None \<Rightarrow> Nothing | Some (Some d) \<Rightarrow> Says d))
      else if event = ''clearAudio'' then Clears
      else if event = ''checkpoint'' then Marks (fst (marks_of L j)) (snd (marks_of L j))
      else if event = ''hangup'' then
        (case json_field L j ''hangupType'' of None \<Rightarrow> Nothing | Some r \<Rightarrow> HangsUp r)
      else if event = ''sendDtmf'' then
        (if json_has L j ''text'' then (case json_field L j ''text'' of None \<Rightarrow> Nothing | Some t \<Rightarrow> Dials t) else Nothing)
      else if event = ''agentTransfer'' then
        (if json_has L j ''agentId'' then transfer_of L j ''agentId'' SpawnAgentTransfer else Nothing)
      else if event = ''humanTransfer'' then
        (if json_has L j ''humanNumber'' then transfer_of L j ''humanNumber'' SpawnNumberTransfer
         else if json_has L j ''humanId'' then transfer_of L j ''humanId'' SpawnHumanTransfer else Nothing)
      else Nothing)"

definition reading :: "'j ws_libs \<Rightarrow> string \<Rightarrow> agent_msg" where
  "reading L msg =
     (case json_parse L msg of
        None \<Rightarrow> Nothing
      | Some j \<Rightarrow> (case json_field L j ''event'' of None \<Rightarrow> Nothing | Some event \<Rightarrow> event_meaning L j event))"

record player =
  waiting :: "byte list"
  frame_len :: nat
  line_up :: bool
  line_name :: string
  line_sent :: "64 word"
  mark_set :: bool
  mark_id :: string
  mark_name :: string
  on_call :: bool
  tape :: "recorder option"

definition or_else :: "'a option \<Rightarrow> 'a \<Rightarrow> 'a" where
  "or_else v x = (case v of None \<Rightarrow> x | Some y \<Rightarrow> y)"

definition tape_frame :: "byte list \<Rightarrow> bool \<Rightarrow> clocks \<Rightarrow> player \<Rightarrow> player" where
  "tape_frame bs is_agent ts s = s\<lparr>tape := Option.bind (tape s) (writeFrame bs is_agent ts)\<rparr>"

definition unmark :: "player \<Rightarrow> player" where
  "unmark s = s\<lparr>mark_set := False, mark_id := [], mark_name := []\<rparr>"

fun player_hears :: "agent_msg \<Rightarrow> player \<Rightarrow> player" where
  "player_hears (Says d) s = s\<lparr>waiting := waiting s @ drop_odd d\<rparr>"
| "player_hears (Marks i n) s =
     s\<lparr>mark_set := True, mark_id := or_else i (mark_id s), mark_name := or_else n (mark_name s)\<rparr>"
| "player_hears Clears s = (unmark s)\<lparr>waiting := []\<rparr>"
| "player_hears _ s = s"

text \<open>What a message asks of the call; a transfer is only started here.\<close>

fun player_asks :: "call_view \<Rightarrow> agent_msg \<Rightarrow> player \<Rightarrow> port_effect list" where
  "player_asks cv (HangsUp reason) s =
     (if on_call s \<and> cv_source cv = ''none'' then [CallSource reason] else [])
     @ (if on_call s \<and> call_live cv then [HangupCall] else [])"
| "player_asks cv (Dials t) s = (if on_call s then dtmf_loop (cv_dtmf_throws cv) 0 t else [])"
| "player_asks cv (Transfers w) s = [Ws w]"
| "player_asks cv _ s = []"

text \<open>A tick plays one frame of what waits, or silence. The marker is acknowledged with the tick that
  leaves less than a frame.\<close>

definition player_ticks :: "clocks \<Rightarrow> player \<Rightarrow> player \<times> media_out list" where
  "player_ticks ts s =
     (let n = frame_len s
      in if length (waiting s) < n then (s, [Heard (replicate n 0)])
         else
           (let frame = take n (waiting s);
                s1 = tape_frame frame True ts (s\<lparr>waiting := drop n (waiting s)\<rparr>);
                ack = mark_set s \<and> length (waiting s) < 2 * n \<and> line_up s \<and> mark_id s \<noteq> []
            in (if ack then unmark s1 else s1,
                (if ack then [Wire (SendPlayedStream (mark_id s) (mark_name s))] else []) @ [Heard frame])))"

definition player_sends :: "bool \<Rightarrow> byte list \<Rightarrow> clocks \<Rightarrow> player \<Rightarrow> player \<times> media_out list" where
  "player_sends ec buf ts s =
     (let s1 = tape_frame buf False ts s
      in if line_up s
         then (s1\<lparr>line_sent := line_sent s + 1, line_up := \<not> ec\<rparr>, [Wire (SendMedia (line_sent s + 1) buf (line_name s))])
         else (s1, []))"

fun player_step :: "'j ws_libs \<Rightarrow> call_view \<Rightarrow> media_event \<Rightarrow> player \<Rightarrow> player \<times> media_out list" where
  "player_step L cv (FromAgent msg) s = (player_hears (reading L msg) s, map Up (player_asks cv (reading L msg) s))"
| "player_step L cv (Clock n ts) s = player_ticks ts s"
| "player_step L cv (FromCaller ec buf ts) s = player_sends ec buf ts s"

text \<open>Schedules within the queue's capacity of 3000 frames, with whole-sample frames of the call's
  rate. Every message is admitted but audio beyond the capacity or with a volume that overflows.\<close>

fun player_ok :: "'j ws_libs \<Rightarrow> media_event \<Rightarrow> player \<Rightarrow> bool" where
  "player_ok L (FromAgent msg) s \<longleftrightarrow>
     (case reading L msg of
        Says d \<Rightarrow> length (waiting s) + length (drop_odd d) \<le> MAX_QUEUE_SIZE_DEFAULT * frame_len s
      | Overflows \<Rightarrow> False
      | _ \<Rightarrow> True)"
| "player_ok L (Clock n ts) s \<longleftrightarrow> n = frame_len s"
| "player_ok L (FromCaller ec buf ts) s \<longleftrightarrow> buf \<noteq> [] \<and> even (length buf) \<and> length buf \<le> frame_len s"

section \<open>The abstraction\<close>

definition handler_player :: "bool \<Rightarrow> handler \<Rightarrow> recorder \<Rightarrow> player" where
  "handler_player up h r =
     \<lparr>waiting = handler_stream h, frame_len = bytes_per_frame h, line_up = connected h, line_name = stream_id h,
      line_sent = sequence_number h, mark_set = checkpoint_received h, mark_id = pending_stream_id h,
      mark_name = pending_stream_name h,
      on_call = up, tape = Some r\<rparr>"

definition port_player :: "port \<Rightarrow> player" where
  "port_player p = handler_player (p_has_call p) (the (p_handler p)) (p_recorder p)"

text \<open>A handler that plays in default mode, its carry-over less than a frame, and owned by a port, which
  sets the callback and the port when it makes the handler.\<close>

definition playing :: "nat \<Rightarrow> handler \<Rightarrow> bool" where
  "playing rate h \<longleftrightarrow> queue_wf h \<and> 0 < bytes_per_frame h \<and> even (bytes_per_frame h)
     \<and> bytes_per_frame h \<le> 2 * (rate * 20 div 1000) \<and> length (partial_frame h) < bytes_per_frame h
     \<and> \<not> real_time_audio h \<and> \<not> ringing_active h \<and> has_med_port h \<and> has_callback h"

definition port_playing :: "nat \<Rightarrow> port \<Rightarrow> bool" where
  "port_playing rate p \<longleftrightarrow> p_initialized p \<and> rec_wf rate (p_recorder p)
     \<and> (case p_handler p of None \<Rightarrow> False | Some h \<Rightarrow> playing rate h)"

section \<open>The handler and the player\<close>

lemma enqueueAudio_session:
  "connected (enqueueAudio d h) = connected h" "stream_id (enqueueAudio d h) = stream_id h"
  "sequence_number (enqueueAudio d h) = sequence_number h"
  "pending_stream_id (enqueueAudio d h) = pending_stream_id h"
  "pending_stream_name (enqueueAudio d h) = pending_stream_name h"
  "ringing_active (enqueueAudio d h) = ringing_active h"
  "has_med_port (enqueueAudio d h) = has_med_port h" "has_callback (enqueueAudio d h) = has_callback h"
  by (simp_all add: enqueueAudio_def Let_def split_beta)

lemma playing_stream:
  assumes "playing rate h"
  shows "audio_queue h = [] \<longleftrightarrow> length (handler_stream h) < bytes_per_frame h"
    and "audio_queue h = f # q \<Longrightarrow> handler_stream h = f @ concat q @ partial_frame h \<and> length f = bytes_per_frame h"
    and "audio_queue h = f # q \<Longrightarrow> q = [] \<longleftrightarrow> length (handler_stream h) < 2 * bytes_per_frame h"
proof -
  have wf: "\<forall>f \<in> set (audio_queue h). length f = bytes_per_frame h" "length (partial_frame h) < bytes_per_frame h"
    using assms by (simp_all add: playing_def queue_wf_def)
  then show "audio_queue h = [] \<longleftrightarrow> length (handler_stream h) < bytes_per_frame h"
    by (cases "audio_queue h") (auto simp: handler_stream_def)
  show "audio_queue h = f # q \<Longrightarrow> handler_stream h = f @ concat q @ partial_frame h \<and> length f = bytes_per_frame h"
    using wf by (simp add: handler_stream_def)
  show "audio_queue h = f # q \<Longrightarrow> q = [] \<longleftrightarrow> length (handler_stream h) < 2 * bytes_per_frame h"
    using wf by (cases q) (auto simp: handler_stream_def)
qed

text \<open>Audio of the agent.\<close>

lemma enqueue_playing:
  assumes p: "playing rate h"
    and fit: "length (handler_stream h) + length (drop_odd d) \<le> MAX_QUEUE_SIZE_DEFAULT * bytes_per_frame h"
  shows "playing rate (enqueueAudio d h)"
    and "handler_player up (enqueueAudio d h) r = player_hears (Says d) (handler_player up h r)"
proof -
  let ?b = "bytes_per_frame h" and ?x = "incoming d h"
  have wf: "queue_wf h" "0 < ?b" "\<not> real_time_audio h" using p by (simp_all add: playing_def)
  have stream: "handler_stream (enqueueAudio d h) = handler_stream h @ drop_odd d"
    using enqueue_stream [OF wf fit] .
  have q: "\<forall>f \<in> set (audio_queue (enqueueAudio d h)). length f = ?b"
    using enqueueAudio_wf [OF wf(1), of d] by (simp add: queue_wf_def frame_simps)
  have "length (partial_frame (enqueueAudio d h)) < ?b"
  proof -
    have cap: "length (audio_queue h) \<le> MAX_QUEUE_SIZE_DEFAULT" using wf(1) by (simp add: queue_wf_def)
    define k where "k = length ?x div ?b"
    define room where "room = MAX_QUEUE_SIZE_DEFAULT - length (audio_queue h)"
    have "?b * length (audio_queue h) + length ?x \<le> MAX_QUEUE_SIZE_DEFAULT * ?b"
      using fit concat_frames_length [of "audio_queue h" ?b] wf(1)
      by (simp add: handler_stream_def queue_wf_def incoming_def)
    then have "length ?x \<le> ?b * room"
      by (simp add: room_def diff_mult_distrib2 mult.commute [of MAX_QUEUE_SIZE_DEFAULT])
    then have "k \<le> room" unfolding k_def using wf(2) by (metis div_le_mono nonzero_mult_div_cancel_left not_gr_zero)
    then have "partial_frame (enqueueAudio d h) = drop (?b * k) ?x"
      using enqueueAudio_default(2) [OF wf(2,3) cap, of d] by (simp add: k_def room_def)
    then have "length (partial_frame (enqueueAudio d h)) = length ?x mod ?b"
      by (simp add: k_def minus_mult_div_eq_mod)
    with wf(2) show ?thesis by simp
  qed
  with p show "playing rate (enqueueAudio d h)"
    by (simp add: playing_def enqueueAudio_wf enqueueAudio_session frame_simps)
  show "handler_player up (enqueueAudio d h) r = player_hears (Says d) (handler_player up h r)"
    by (simp add: handler_player_def stream enqueueAudio_session frame_simps)
qed

text \<open>A clear, and a checkpoint.\<close>

lemma clear_playing:
  assumes "playing rate h"
  shows "playing rate (clearAudioQueue h)"
    and "handler_player up (clearAudioQueue h) r = player_hears Clears (handler_player up h r)"
  using assms
  by (simp_all add: playing_def clearAudioQueue_wf handler_player_def unmark_def handler_stream_def)
     (simp_all add: clearAudioQueue_def resetCheckpointState_def)

definition marked :: "string option \<Rightarrow> string option \<Rightarrow> handler \<Rightarrow> handler" where
  "marked i n h = h\<lparr>checkpoint_received := True, pending_stream_id := or_else i (pending_stream_id h),
     pending_stream_name := or_else n (pending_stream_name h)\<rparr>"

lemma on_checkpoint_marked: "on_checkpoint L j h = marked (fst (marks_of L j)) (snd (marks_of L j)) h"
  by (auto simp: on_checkpoint_def marks_of_def marked_def or_else_def Let_def split: option.splits)

lemma marked_playing:
  assumes "playing rate h"
  shows "playing rate (marked i n h)"
    and "handler_player up (marked i n h) r = player_hears (Marks i n) (handler_player up h r)"
  using assms by (simp_all add: playing_def queue_wf_def marked_def handler_player_def handler_stream_def)

text \<open>The requests on the call.\<close>

definition request_of :: "agent_msg \<Rightarrow> string \<Rightarrow> handler \<Rightarrow> ws_effect list" where
  "request_of m src h = (case m of HangsUp r \<Rightarrow> blame r src h @ [InvokeDisconnect] | Dials t \<Rightarrow> [ForwardDtmf t]
     | Transfers w \<Rightarrow> [w] | _ \<Rightarrow> [])"

lemma flags_playing:
  assumes "playing rate h"
  shows "playing rate (h\<lparr>hangup_received := b\<rparr>)" "playing rate (h\<lparr>agent_transfer_in_progress := b\<rparr>)"
    "handler_player up (h\<lparr>hangup_received := b\<rparr>) r = handler_player up h r"
    "handler_player up (h\<lparr>agent_transfer_in_progress := b\<rparr>) r = handler_player up h r"
  using assms by (simp_all add: playing_def queue_wf_def handler_player_def handler_stream_def)

lemma request_playing:
  assumes p: "playing rate h" and d: "dispatch L j ev src h = Some (h', es)"
    and "ev \<in> {''hangup'', ''sendDtmf'', ''agentTransfer'', ''humanTransfer''}"
  shows "playing rate h' \<and> handler_player up h' r = player_hears (event_meaning L j ev) (handler_player up h r)
    \<and> es = request_of (event_meaning L j ev) src h"
proof -
  note w = p [unfolded playing_def] flags_playing [OF p]
  consider "ev = ''hangup''" | "ev = ''sendDtmf''" | "ev = ''agentTransfer''" | "ev = ''humanTransfer''"
    using assms(3) by blast
  then show ?thesis
  proof cases
    case 1
    with d w show ?thesis
      by (auto simp: dispatch_def on_hangup_def event_meaning_def request_of_def blame_def invoke_callback_def Let_def
          split: option.splits)
  next
    case 2
    with d w p show ?thesis
      by (auto simp: dispatch_def on_sendDtmf_def event_meaning_def request_of_def split: option.splits if_splits)
  next
    case 3
    with d w show ?thesis
      by (auto simp: dispatch_def on_agentTransfer_def event_meaning_def transfer_of_def request_of_def Let_def
          split: option.splits if_splits)
  next
    case 4
    with d w show ?thesis
      by (auto simp: dispatch_def on_humanTransfer_def event_meaning_def transfer_of_def request_of_def Let_def
          split: option.splits if_splits)
  qed
qed

text \<open>Any message.\<close>

lemma message_playing:
  assumes p: "playing rate h" and ok: "player_ok L (FromAgent msg) (handler_player up h r)"
  shows "\<exists>h'. message_handler L True msg src h = Some (h', request_of (reading L msg) src h) \<and> playing rate h'
    \<and> handler_player up h' r = player_hears (reading L msg) (handler_player up h r)"
proof -
  have quiet: "stop_ringing_on_audio h = h" using p by (simp add: stop_ringing_on_audio_def playing_def)
  consider (none) "json_parse L msg = None"
    | (noevent) j where "json_parse L msg = Some j" "json_field L j ''event'' = None"
    | (event) j ev where "json_parse L msg = Some j" "json_field L j ''event'' = Some ev" by fastforce
  then show ?thesis
  proof cases
    case none
    with p show ?thesis by (simp add: message_handler_def reading_def request_of_def)
  next
    case noevent
    with p show ?thesis by (simp add: message_handler_def reading_def request_of_def)
  next
    case (event j ev)
    then have m: "message_handler L True msg src h = dispatch L j ev src h" and rd: "reading L msg = event_meaning L j ev"
      by (simp_all add: message_handler_def reading_def)
    consider (play) "ev = ''playAudio''" | (clear) "ev = ''clearAudio''" | (mark) "ev = ''checkpoint''"
      | (request) "ev \<in> {''hangup'', ''sendDtmf'', ''agentTransfer'', ''humanTransfer''}"
      | (unknown) "ev \<noteq> ''playAudio''" "ev \<noteq> ''clearAudio''" "ev \<noteq> ''checkpoint''"
          "ev \<notin> {''hangup'', ''sendDtmf'', ''agentTransfer'', ''humanTransfer''}"
      by argo
    then show ?thesis
    proof cases
      case play
      show ?thesis
      proof (cases "json_at L j ''media''")
        case None
        with play p show ?thesis
          by (simp add: m rd event_meaning_def dispatch_def on_playAudio_def request_of_def)
      next
        case (Some media)
        note r = play Some
        consider (bad) "decode_media L media = None" | (nil) "decode_media L media = Some None"
          | (dec) d where "decode_media L media = Some (Some d)" by (cases "decode_media L media") auto
        then show ?thesis
        proof cases
          case bad
          with r ok show ?thesis by (simp add: rd event_meaning_def)
        next
          case nil
          with r p quiet show ?thesis by (simp add: m rd event_meaning_def dispatch_def on_playAudio_def request_of_def)
        next
          case (dec d)
          then have says: "event_meaning L j ''playAudio'' = Says d" using r by (simp add: event_meaning_def)
          have "length (handler_stream h) + length (drop_odd d) \<le> MAX_QUEUE_SIZE_DEFAULT * bytes_per_frame h"
            using ok by (simp add: rd play says handler_player_def)
          from enqueue_playing [OF p this] r dec quiet show ?thesis
            by (simp add: m rd says dispatch_def on_playAudio_def request_of_def)
        qed
      qed
    next
      case clear
      with clear_playing [OF p] show ?thesis
        by (simp add: m rd event_meaning_def dispatch_def request_of_def)
    next
      case mark
      then have "event_meaning L j ev = Marks (fst (marks_of L j)) (snd (marks_of L j))"
        "dispatch L j ev src h = Some (marked (fst (marks_of L j)) (snd (marks_of L j)) h, [])"
        by (simp_all add: event_meaning_def dispatch_def on_checkpoint_marked)
      with marked_playing [OF p] show ?thesis by (simp add: m rd request_of_def)
    next
      case request
      then have "dispatch L j ev src h \<noteq> None" by (auto simp: dispatch_def)
      then obtain h' es where "dispatch L j ev src h = Some (h', es)" by auto
      with request_playing [OF p this request, of up r] show ?thesis by (simp add: m rd)
    next
      case unknown
      with p show ?thesis by (simp add: m rd event_meaning_def dispatch_def request_of_def)
    qed
  qed
qed

text \<open>The port carries the requests to the call.\<close>

lemma deliver_request:
  assumes "playing rate h" and "\<forall>w. m = Transfers w \<longrightarrow> w \<in> range SpawnAgentTransfer \<union> range SpawnNumberTransfer \<union> range SpawnHumanTransfer"
  shows "port_deliver_all cv (request_of m (port_getHangupSource cv p) h) (p\<lparr>p_handler := Some h'\<rparr>)
    = (p\<lparr>p_handler := Some h'\<rparr>, player_asks cv m (handler_player (p_has_call p) h r))"
  using assms
  by (cases m) (auto simp: request_of_def blame_def playing_def port_getHangupSource_def port_setHangupSource_def
      onWebSocketDisconnected_iff can_hang_up_def receiveDtmfFromWebsocket_def handler_player_def)

lemma transfers_spawn:
  "reading L msg = Transfers w \<Longrightarrow> w \<in> range SpawnAgentTransfer \<union> range SpawnNumberTransfer \<union> range SpawnHumanTransfer"
  by (auto simp: reading_def event_meaning_def transfer_of_def split: option.splits if_splits)

text \<open>A tick of the clock.\<close>

definition acknowledges :: "handler \<Rightarrow> bool" where
  "acknowledges h \<longleftrightarrow> checkpoint_received h \<and> length (audio_queue h) = 1 \<and> connected h \<and> pending_stream_id h \<noteq> []"

lemma getAudioFrame_playing:
  assumes p: "playing rate h" and q: "audio_queue h = f # q"
  shows "getAudioFrame h =
    (Some f, (if acknowledges h then resetCheckpointState else (\<lambda>x. x)) (h\<lparr>audio_queue := q\<rparr>),
     if acknowledges h then [SendPlayedStream (pending_stream_id h) (pending_stream_name h)] else [])"
proof -
  have "\<not> clear_audio_called h" using p by (simp add: playing_def queue_wf_def)
  then show ?thesis
    by (auto simp: getAudioFrame_def q acknowledges_def sendPlayedStreamEvent_def Let_def)
qed

lemma tick_playing:
  assumes p: "playing rate h" and q: "audio_queue h = f # q" and g: "getAudioFrame h = (fo, h', es)"
  shows "fo = Some f" and "playing rate h'"
    and "player_ticks ts (handler_player up h r) =
      ((handler_player up h' r)\<lparr>tape := writeFrame f True ts r\<rparr>, map Wire es @ [Heard f])"
proof -
  note st = playing_stream [OF p]
  have stream: "handler_stream h = f @ concat q @ partial_frame h" and len: "length f = bytes_per_frame h"
    using st(2) [OF q] by simp_all
  have last: "length (audio_queue h) = 1 \<longleftrightarrow> length (handler_stream h) < 2 * bytes_per_frame h"
    using st(3) [OF q] q by auto
  have "\<not> length (handler_stream h) < bytes_per_frame h" using st(1) q by simp
  note r = getAudioFrame_playing [OF p q] g last this
  show "fo = Some f" using r(1,2) by simp
  show "playing rate h'"
    using r(1,2) p q by (auto simp: playing_def queue_wf_def resetCheckpointState_def split: if_splits)
  show "player_ticks ts (handler_player up h r) =
      ((handler_player up h' r)\<lparr>tape := writeFrame f True ts r\<rparr>, map Wire es @ [Heard f])"
  proof (cases "acknowledges h")
    case True
    with r stream len show ?thesis
      by (auto simp: player_ticks_def handler_player_def tape_frame_def unmark_def acknowledges_def Let_def
          handler_stream_def resetCheckpointState_def)
  next
    case False
    with r stream len show ?thesis
      by (auto simp: player_ticks_def handler_player_def tape_frame_def unmark_def acknowledges_def Let_def
          handler_stream_def)
  qed
qed

text \<open>A frame of the caller.\<close>

lemma sends_playing:
  assumes p: "playing rate h" and s: "sendAudioFrame ec buf h = (h', es)"
  shows "playing rate h'"
    and "player_sends ec buf ts (handler_player up h r) =
      ((handler_player up h' r)\<lparr>tape := writeFrame buf False ts r\<rparr>, map Wire es)"
  using p s
  by (auto simp: sendAudioFrame_def playing_def queue_wf_def player_sends_def handler_player_def tape_frame_def
      handler_stream_def Let_def split: if_splits)

section \<open>The port and the player\<close>

lemma media_step_sim:
  assumes inv: "port_playing rate p" and ok: "player_ok L e (port_player p)"
  shows "\<exists>p' out. media_step L cv e p = Some (p', out) \<and> port_playing rate p'
    \<and> player_step L cv e (port_player p) = (port_player p', out)"
proof -
  obtain h where h: "p_handler p = Some h" "playing rate h" and p: "p_initialized p" "rec_wf rate (p_recorder p)"
    using inv by (auto simp: port_playing_def split: option.splits)
  have pl: "port_player p = handler_player (p_has_call p) h (p_recorder p)" using h by (simp add: port_player_def)
  have size: "even (bytes_per_frame h)" "bytes_per_frame h \<le> 2 * (rate * 20 div 1000)" "\<not> ringing_active h"
    using h(2) by (simp_all add: playing_def)
  show ?thesis
  proof (cases e)
    case (FromAgent msg)
    let ?req = "request_of (reading L msg) (port_getHangupSource cv p) h"
    obtain h' where m: "message_handler L True msg (port_getHangupSource cv p) h = Some (h', ?req)" "playing rate h'"
      "handler_player (p_has_call p) h' (p_recorder p) = player_hears (reading L msg) (handler_player (p_has_call p) h (p_recorder p))"
      using message_playing [OF h(2)] ok unfolding FromAgent pl by blast
    have "port_deliver_all cv ?req (p\<lparr>p_handler := Some h'\<rparr>)
        = (p\<lparr>p_handler := Some h'\<rparr>, player_asks cv (reading L msg) (handler_player (p_has_call p) h (p_recorder p)))"
      using deliver_request [OF h(2)] transfers_spawn [of L msg] by blast
    with m FromAgent h p show ?thesis by (simp add: pl port_playing_def port_player_def)
  next
    case (Clock n ts)
    have n: "n = bytes_per_frame h" using ok by (simp add: Clock pl handler_player_def)
    show ?thesis
    proof (cases "audio_queue h")
      case Nil
      then have "getAudioFrame h = (None, h, [])" by (simp add: getAudioFrame_def)
      moreover have "length (handler_stream h) < bytes_per_frame h" using playing_stream(1) [OF h(2)] Nil by simp
      ultimately show ?thesis using Clock n h p size
        by (simp add: onFrameRequested_def pl port_playing_def port_player_def player_ticks_def Let_def)
          (simp add: handler_player_def)
    next
      case (Cons f q)
      obtain fo h' es where g: "getAudioFrame h = (fo, h', es)" by (cases "getAudioFrame h")
      note t = tick_playing(1,2) [OF h(2) Cons g] tick_playing(3) [OF h(2) Cons g, of ts "p_has_call p" "p_recorder p"]
      have len: "length f = bytes_per_frame h" using playing_stream(2) [OF h(2) Cons] by simp
      then have fit: "fit_frame n f = f" using n size(1) by (simp add: fit_frame_id)
      obtain r where w: "writeFrame f True ts (p_recorder p) = Some r" "rec_wf rate r"
        using writeFrame_wf [OF p(2), of f True ts] len size by auto
      have "media_step L cv e p = Some (p\<lparr>p_handler := Some h', p_recorder := r\<rparr>, map Wire es @ [Heard f])"
        using Clock h p size g t(1) fit w by (simp add: onFrameRequested_def)
      moreover have "player_step L cv e (port_player p) = (handler_player (p_has_call p) h' r, map Wire es @ [Heard f])"
        using t(3) w Clock by (simp add: pl handler_player_def)
      ultimately show ?thesis using t(2) w p by (simp add: port_playing_def port_player_def)
    qed
  next
    case (FromCaller ec buf ts)
    have buf: "buf \<noteq> []" "even (length buf)" "length buf \<le> bytes_per_frame h"
      using ok by (simp_all add: FromCaller pl handler_player_def)
    obtain h' es where sd: "sendAudioFrame ec buf h = (h', es)" by (cases "sendAudioFrame ec buf h")
    note t = sends_playing(1) [OF h(2) sd] sends_playing(2) [OF h(2) sd, of ts "p_has_call p" "p_recorder p"]
    obtain r where w: "writeFrame buf False ts (p_recorder p) = Some r" "rec_wf rate r"
      using writeFrame_wf [OF p(2) buf(2), of False ts] buf(3) size(2) by auto
    have "media_step L cv e p = Some (p\<lparr>p_handler := Some h', p_recorder := r\<rparr>, map Wire es)"
      using FromCaller h p buf(1) sd w by (simp add: onFrameReceived_def)
    moreover have "player_step L cv e (port_player p) = (handler_player (p_has_call p) h' r, map Wire es)"
      using t(2) w FromCaller by (simp add: pl handler_player_def)
    ultimately show ?thesis using t(1) w p by (simp add: port_playing_def port_player_def)
  qed
qed

interpretation port_media: simulation "media_step L cv" "player_step L cv" "player_ok L" port_player "port_playing rate"
  for L cv rate
  by unfold_locales (rule media_step_sim)

end
