(* ===== verification/Media_Run.thy ===== *)
theory Media_Run
  imports Player
begin

text \<open>
  What follows from the media port being a player: the caller's frames are numbered without gaps,
  the tape holds what was heard and said, a checkpoint is acknowledged with the last frame before
  it.
\<close>

section \<open>What the player does\<close>

lemma player_hears_line [simp]:
  "line_up (player_hears m s) = line_up s" "line_name (player_hears m s) = line_name s"
  "line_sent (player_hears m s) = line_sent s" "frame_len (player_hears m s) = frame_len s"
  "tape (player_hears m s) = tape s" "on_call (player_hears m s) = on_call s"
  by (cases m; simp add: unmark_def)+

lemma player_ticks_line [simp]:
  "line_up (fst (player_ticks ts s)) = line_up s" "line_name (fst (player_ticks ts s)) = line_name s"
  "line_sent (fst (player_ticks ts s)) = line_sent s" "frame_len (fst (player_ticks ts s)) = frame_len s"
  by (simp_all add: player_ticks_def unmark_def tape_frame_def Let_def)

text \<open>The caller's frames, and what goes over the line for them.\<close>

fun callers :: "media_event list \<Rightarrow> byte list list" where
  "callers [] = []"
| "callers (FromCaller ec buf ts # es) = buf # callers es"
| "callers (_ # es) = callers es"

fun sends_fail :: "media_event \<Rightarrow> bool" where
  "sends_fail (FromCaller ec buf ts) = ec"
| "sends_fail _ = False"

fun is_media :: "media_out \<Rightarrow> bool" where
  "is_media (Wire (SendMedia n d i)) = True"
| "is_media _ = False"

fun is_heard :: "media_out \<Rightarrow> bool" where
  "is_heard (Heard bs) = True"
| "is_heard _ = False"

fun is_ack :: "media_out \<Rightarrow> bool" where
  "is_ack (Wire (SendPlayedStream i n)) = True"
| "is_ack _ = False"

lemma player_ticks_media: "filter is_media (snd (player_ticks ts s)) = []"
  by (simp add: player_ticks_def Let_def)

text \<open>What a message asks of the call is neither audio nor an acknowledgement.\<close>

lemma asks_no_sound: "filter is_media (map Up us) = []" "filter is_ack (map Up us) = []" "filter is_heard (map Up us) = []"
  by (induction us) simp_all

lemma player_numbers:
  assumes "list_all (\<lambda>e. \<not> sends_fail e) es" and "line_up s" and "line_sent s + 1 = s0 + of_nat n"
  shows "filter is_media (snd (run_spec (player_step L cv) es s))
    = map (\<lambda>(i, d). Wire (SendMedia (s0 + of_nat i) d (line_name s))) (enumerate n (callers es))"
  using assms
proof (induction es arbitrary: s n)
  case Nil
  then show ?case by simp
next
  case (Cons e es)
  obtain s1 o1 where e: "player_step L cv e s = (s1, o1)" by (cases "player_step L cv e s")
  obtain s2 o2 where r: "run_spec (player_step L cv) es s1 = (s2, o2)" by (cases "run_spec (player_step L cv) es s1")
  have split: "snd (run_spec (player_step L cv) (e # es) s) = o1 @ o2" using e r by simp
  show ?case
  proof (cases e)
    case (FromAgent msg)
    with e have "line_up s1 = line_up s" "line_sent s1 = line_sent s" "line_name s1 = line_name s" "filter is_media o1 = []"
      by (auto simp: asks_no_sound)
    with Cons.IH [of s1 n] Cons.prems FromAgent r split show ?thesis by simp
  next
    case (Clock k ts)
    then have t: "player_ticks ts s = (s1, o1)" using e by simp
    have "line_up s1 = line_up s" "line_sent s1 = line_sent s" "line_name s1 = line_name s" "filter is_media o1 = []"
      using player_ticks_line [of ts s] player_ticks_media [of ts s] unfolding t by simp_all
    with Cons.IH [of s1 n] Cons.prems Clock r split show ?thesis by simp
  next
    case (FromCaller ec buf ts)
    with e Cons.prems have s1: "line_up s1" "line_sent s1 = line_sent s + 1" "line_name s1 = line_name s"
      and o1: "o1 = [Wire (SendMedia (s0 + of_nat n) buf (line_name s))]"
      by (auto simp: player_sends_def tape_frame_def Let_def)
    have "line_sent s1 + 1 = s0 + of_nat (Suc n)" using s1(2) Cons.prems(3) by (simp add: algebra_simps)
    with Cons.IH [of s1 "Suc n"] Cons.prems FromCaller r split s1 o1 show ?thesis by simp
  qed
qed

text \<open>What is recorded: each frame that was heard and each frame of the caller, as they came.\<close>

fun taped :: "'j ws_libs \<Rightarrow> call_view \<Rightarrow> media_event list \<Rightarrow> player \<Rightarrow> (byte list \<times> bool \<times> clocks) list" where
  "taped L cv [] s = []"
| "taped L cv (e # es) s =
     (case e of
        FromAgent msg \<Rightarrow> []
      | Clock n ts \<Rightarrow> if length (waiting s) < frame_len s then [] else [(take (frame_len s) (waiting s), True, ts)]
      | FromCaller ec buf ts \<Rightarrow> [(buf, False, ts)])
     @ taped L cv es (fst (player_step L cv e s))"

lemma player_tape:
  "tape (fst (run_spec (player_step L cv) es s)) = Option.bind (tape s) (write_frames (taped L cv es s))"
proof (induction es arbitrary: s)
  case Nil
  then show ?case by (cases "tape s") auto
next
  case (Cons e es)
  have "tape (fst (player_step L cv e s)) = Option.bind (tape s) (write_frames
     (case e of FromAgent msg \<Rightarrow> []
      | Clock n ts \<Rightarrow> if length (waiting s) < frame_len s then [] else [(take (frame_len s) (waiting s), True, ts)]
      | FromCaller ec buf ts \<Rightarrow> [(buf, False, ts)]))"
    by (cases "tape s"; cases e)
       (auto simp: player_ticks_def player_sends_def tape_frame_def unmark_def Let_def split: option.splits)
  with Cons.IH [of "fst (player_step L cv e s)"] show ?case
    by (cases "tape s") (auto simp: split_beta write_frames_append)
qed

text \<open>The marker. What may happen while it waits: ticks, caller frames that are sent, and any message of the
  agent but audio, a checkpoint or a clear.\<close>

fun quiet :: "'j ws_libs \<Rightarrow> media_event \<Rightarrow> bool" where
  "quiet L (FromAgent msg) =
     (case reading L msg of Says d \<Rightarrow> False | Marks i n \<Rightarrow> False | Clears \<Rightarrow> False | Overflows \<Rightarrow> False | _ \<Rightarrow> True)"
| "quiet L (Clock n ts) = True"
| "quiet L (FromCaller ec buf ts) = (\<not> ec)"

lemma quiet_hears: "quiet L (FromAgent msg) \<Longrightarrow> player_hears (reading L msg) s = s"
  by (cases "reading L msg") simp_all

fun is_clock :: "media_event \<Rightarrow> bool" where
  "is_clock (Clock n ts) = True"
| "is_clock _ = False"

lemma player_unmarked:
  "list_all (quiet L) es \<Longrightarrow> \<not> mark_set s \<Longrightarrow> filter is_ack (snd (run_spec (player_step L cv) es s)) = []"
proof (induction es arbitrary: s)
  case (Cons e es)
  have "\<not> mark_set (fst (player_step L cv e s)) \<and> filter is_ack (snd (player_step L cv e s)) = []"
    using Cons.prems
    by (cases e) (simp_all add: player_ticks_def player_sends_def tape_frame_def quiet_hears asks_no_sound Let_def
        del: quiet.simps(1))
  with Cons show ?case by (simp add: split_beta)
qed simp

text \<open>A marker set with at least one frame waiting is acknowledged once, together with the last whole
  frame.\<close>

lemma player_acknowledges:
  assumes "list_all (quiet L) es" and "mark_set s" and "mark_id s \<noteq> []" and "line_up s"
    and "length (waiting s) div frame_len s = Suc k" and "Suc k \<le> length (filter is_clock es)"
  shows "\<exists>before f after. snd (run_spec (player_step L cv) es s)
      = before @ [Wire (SendPlayedStream (mark_id s) (mark_name s)), Heard f] @ after
    \<and> length (filter is_heard before) = k \<and> filter is_ack (before @ after) = []"
  using assms
proof (induction es arbitrary: s k)
  case Nil
  then show ?case by simp
next
  case (Cons e es)
  obtain s1 o1 where e: "player_step L cv e s = (s1, o1)" by (cases "player_step L cv e s")
  obtain s2 o2 where r: "run_spec (player_step L cv) es s1 = (s2, o2)" by (cases "run_spec (player_step L cv) es s1")
  have out: "snd (run_spec (player_step L cv) (e # es) s) = o1 @ o2" using e r by simp
  have n: "0 < frame_len s" using Cons.prems(5) by (cases "frame_len s") auto
  have q: "list_all (quiet L) es" using Cons.prems(1) by simp
  consider (agent) msg where "e = FromAgent msg" | (caller) buf ts where "e = FromCaller False buf ts"
    | (clock) n ts where "e = Clock n ts"
    using Cons.prems(1) by (cases e) auto
  then show ?case
  proof cases
    case (agent msg)
    then have "s1 = s" and o1: "filter is_heard o1 = []" "filter is_ack o1 = []"
      using e Cons.prems(1) by (auto simp: quiet_hears asks_no_sound simp del: quiet.simps(1))
    moreover have "Suc k \<le> length (filter is_clock es)" using Cons.prems(6) agent by simp
    ultimately obtain before f after where ih: "o2 = before @ [Wire (SendPlayedStream (mark_id s) (mark_name s)), Heard f] @ after"
      "length (filter is_heard before) = k" "filter is_ack (before @ after) = []"
      using Cons.IH [OF q, of s1 k] Cons.prems(2-5) r by auto
    show ?thesis unfolding out using ih o1
      by (intro exI [of _ "o1 @ before"] exI [of _ f] exI [of _ after]) simp
  next
    case (caller buf ts)
    then have s1: "mark_set s1" "mark_id s1 = mark_id s" "mark_name s1 = mark_name s" "line_up s1"
        "waiting s1 = waiting s" "frame_len s1 = frame_len s" and o1: "filter is_heard o1 = []" "filter is_ack o1 = []"
      using e Cons.prems(2,4) by (auto simp: player_sends_def tape_frame_def Let_def)
    have "Suc k \<le> length (filter is_clock es)" using Cons.prems(6) caller by simp
    then obtain before f after where ih: "o2 = before @ [Wire (SendPlayedStream (mark_id s) (mark_name s)), Heard f] @ after"
      "length (filter is_heard before) = k" "filter is_ack (before @ after) = []"
      using Cons.IH [OF q, of s1 k] Cons.prems(3,5) s1 r by auto
    show ?thesis unfolding out using ih o1
      by (intro exI [of _ "o1 @ before"] exI [of _ f] exI [of _ after]) simp
  next
    case (clock m ts)
    have enough: "\<not> length (waiting s) < frame_len s" using Cons.prems(5) div_less by fastforce
    have last: "length (waiting s) < 2 * frame_len s \<longleftrightarrow> k = 0"
      using Cons.prems(5) n less_eq_div_iff_mult_less_eq [of "frame_len s" 2 "length (waiting s)"] by auto
    show ?thesis
    proof (cases k)
      case 0
      have s1: "\<not> mark_set s1" and o1: "o1 = [Wire (SendPlayedStream (mark_id s) (mark_name s)), Heard (take (frame_len s) (waiting s))]"
        using e clock enough last 0 Cons.prems(2-4)
        by (auto simp: player_ticks_def unmark_def Let_def)
      have "filter is_ack o2 = []" using player_unmarked [OF q s1, of cv] r by simp
      then show ?thesis unfolding out o1
        using 0 by (intro exI [of _ "[]"] exI [of _ "take (frame_len s) (waiting s)"] exI [of _ o2]) simp
    next
      case (Suc j)
      have s1: "mark_set s1" "mark_id s1 = mark_id s" "mark_name s1 = mark_name s" "line_up s1"
          "waiting s1 = drop (frame_len s) (waiting s)" "frame_len s1 = frame_len s"
        and o1: "o1 = [Heard (take (frame_len s) (waiting s))]"
        using e clock enough last Suc Cons.prems(2-4)
        by (auto simp: player_ticks_def tape_frame_def Let_def)
      have d: "length (waiting s1) div frame_len s1 = Suc j"
        using Cons.prems(5) Suc n enough by (simp add: s1 le_div_geq)
      have "Suc j \<le> length (filter is_clock es)" using Cons.prems(6) clock Suc by simp
      then obtain before f after where ih: "o2 = before @ [Wire (SendPlayedStream (mark_id s) (mark_name s)), Heard f] @ after"
        "length (filter is_heard before) = j" "filter is_ack (before @ after) = []"
        using Cons.IH [OF q, of s1 j] Cons.prems(3) s1 d r by auto
      show ?thesis unfolding out using ih o1 Suc
        by (intro exI [of _ "o1 @ before"] exI [of _ f] exI [of _ after]) simp
    qed
  qed
qed

section \<open>An example\<close>

text \<open>Two frames of speech and a checkpoint, with two frames of the caller in between, on a recording
  port at 8 kHz.\<close>

definition speech_libs :: "json ws_libs" where
  "speech_libs = demo_libs (\<lambda>m.
     if m = ''say'' then Some (JObj [(''event'', JStr ''playAudio''),
       (''media'', JObj [(''payload'', JStr (replicate 640 CHR ''a'')), (''contentType'', JStr ''audio/x-l16'')])])
     else if m = ''mark'' then Some (JObj [(''event'', JStr ''checkpoint''), (''streamId'', JStr ''s1'')])
     else None)"

definition speech_handler :: handler where
  "speech_handler = (new_handler 8000 ''wss://a'' ''0'')\<lparr>connected := True, has_callback := True, has_med_port := True\<rparr>"

definition speech_port :: port where
  "speech_port = port_startRecording 0 (demo_port speech_handler)"

definition speech_rest :: "media_event list" where
  "speech_rest = [FromCaller False (replicate 320 1) (0, 0, 0), Clock 320 (20, 20, 20),
     FromCaller False (replicate 320 2) (40, 40, 40), Clock 320 (60, 60, 60)]"

lemma speech_reading:
  "reading speech_libs ''say'' = Says (map (\<lambda>c. of_nat (of_char c)) (replicate 640 CHR ''a''))"
  "reading speech_libs ''mark'' = Marks (Some ''s1'') None"
  by (simp_all add: speech_libs_def reading_def demo_libs_def json_field_def decode_media_def marks_of_def event_meaning_def)

lemma speech_handler_fields:
  "connected speech_handler" "audio_queue speech_handler = []" "partial_frame speech_handler = []"
  "bytes_per_frame speech_handler = 320" "sequence_number speech_handler = 0"
  "stream_id speech_handler = ''MZ0''" "handler_stream speech_handler = []" "playing 8000 speech_handler"
  "pending_stream_name speech_handler = []"
proof -
  have a: "ws_uri speech_handler = ''wss://a''" by (simp add: speech_handler_def new_handler_def frame_simps)
  show "connected speech_handler" by (simp add: speech_handler_def)
  show q: "audio_queue speech_handler = []" "partial_frame speech_handler = []"
    "bytes_per_frame speech_handler = 320"
    by (simp_all add: speech_handler_def new_handler_def frame_simps)
  show "sequence_number speech_handler = 0" "stream_id speech_handler = ''MZ0''" "pending_stream_name speech_handler = []"
    by (simp_all add: speech_handler_def new_handler_def setAgentId_def Let_def split: option.splits)
  show "handler_stream speech_handler = []" by (simp add: handler_stream_def q)
  have "\<not> real_time_audio speech_handler" "\<not> ringing_active speech_handler"
    by (simp_all add: speech_handler_def new_handler_def frame_simps str_contains_def setAgentId_def Let_def split: option.splits)
  moreover have "queue_wf speech_handler"
    using new_handler_queue_wf [of 8000 "''wss://a''" "''0''"] by (simp add: queue_wf_def speech_handler_def)
  moreover have "has_med_port speech_handler" "has_callback speech_handler" by (simp_all add: speech_handler_def)
  ultimately show "playing 8000 speech_handler" by (simp add: playing_def q)
qed

lemma speech_port_playing: "port_playing 8000 speech_port" "p_handler speech_port = Some speech_handler"
  using startRecording_wf [OF new_recorder_wf] speech_handler_fields
  by (simp_all add: port_playing_def speech_port_def port_startRecording_def)


text \<open>The same port with the speech already waiting.\<close>

definition spoken_handler :: handler where
  "spoken_handler = enqueueAudio (replicate 640 97) speech_handler"

definition spoken_port :: port where
  "spoken_port = speech_port\<lparr>p_handler := Some spoken_handler\<rparr>"

lemma spoken_handler_fields:
  "connected spoken_handler" "bytes_per_frame spoken_handler = 320" "handler_stream spoken_handler = replicate 640 97"
  "pending_stream_name spoken_handler = []" "playing 8000 spoken_handler"
proof -
  have fit: "length (handler_stream speech_handler) + length (drop_odd (replicate 640 (97 :: byte)))
      \<le> MAX_QUEUE_SIZE_DEFAULT * bytes_per_frame speech_handler"
    by (simp add: speech_handler_fields MAX_QUEUE_SIZE_DEFAULT_def)
  show "playing 8000 spoken_handler"
    unfolding spoken_handler_def by (rule enqueue_playing(1) [OF speech_handler_fields(8) fit])
  show "handler_stream spoken_handler = replicate 640 97"
    using arg_cong [OF enqueue_playing(2) [OF speech_handler_fields(8) fit], of waiting]
    by (simp add: spoken_handler_def handler_player_def speech_handler_fields)
  show "connected spoken_handler" "bytes_per_frame spoken_handler = 320" "pending_stream_name spoken_handler = []"
    by (simp_all add: spoken_handler_def enqueueAudio_session frame_simps speech_handler_fields)
qed

lemma spoken_port_playing: "port_playing 8000 spoken_port" "p_handler spoken_port = Some spoken_handler"
  using speech_port_playing spoken_handler_fields(5) by (simp_all add: port_playing_def spoken_port_def)

lemma spoken_admitted:
  "run_admits (player_step speech_libs demo_view) (player_ok speech_libs) (FromAgent ''mark'' # speech_rest) (port_player spoken_port)"
  using spoken_handler_fields
  by (simp add: speech_reading speech_rest_def port_player_def spoken_port_playing handler_player_def
      player_ticks_def player_sends_def tape_frame_def unmark_def Let_def)

section \<open>Properties\<close>



text \<open>While no send fails, the caller's frames go over the connection completely, in order and
  numbered consecutively, whatever the agent says and the clock asks for in between.\<close>

lemma caller_frames_numbered:
  assumes "port_playing rate p" and "run_admits (player_step L cv) (player_ok L) es (port_player p)"
    and "p_handler p = Some h" and "connected h" and "list_all (\<lambda>e. \<not> sends_fail e) es"
    and "run_steps (media_step L cv) es p = Some (p', out)"
  shows "filter is_media out
    = map (\<lambda>(i, d). Wire (SendMedia (sequence_number h + of_nat i) d (stream_id h))) (enumerate 1 (callers es))"
proof -
  have pl: "port_player p = handler_player (p_has_call p) h (p_recorder p)" using assms(3) by (simp add: port_player_def)
  have "run_spec (player_step L cv) es (port_player p) = (port_player p', out)"
    using port_media.run_sim [OF assms(1,2)] assms(6) by auto
  then have "out = snd (run_spec (player_step L cv) es (port_player p))" by simp
  then show ?thesis
    using player_numbers [OF assms(5), of "port_player p" "sequence_number h" 1 L cv] assms(4)
    by (simp add: pl handler_player_def)
qed

text \<open>The recorder has taken in exactly the frames that were heard and the frames of the caller, each
  once and in the order of the schedule; and the port goes on playing.\<close>

lemma port_tape:
  assumes "port_playing rate p" and "run_admits (player_step L cv) (player_ok L) es (port_player p)"
    and "run_steps (media_step L cv) es p = Some (p', out)"
  shows "write_frames (taped L cv es (port_player p)) (p_recorder p) = Some (p_recorder p') \<and> port_playing rate p'"
proof -
  have "run_spec (player_step L cv) es (port_player p) = (port_player p', out)" and "port_playing rate p'"
    using port_media.run_sim [OF assms(1,2)] assms(3) by auto
  then show ?thesis
    using player_tape [of L cv es "port_player p"] by (simp add: port_player_def handler_player_def)
qed

text \<open>C3: A checkpoint with a non-empty stream id that a connected handler gets with \<open>k > 0\<close> whole frames
  waiting is acknowledged, once, with its own stream id and together with the last of these
  frames, as soon as the clock has ticked \<open>k\<close> times, provided that in the run the agent sends no
  further audio (it would be acknowledged later), checkpoint or clear, and no caller frame fails
  to be sent; caller frames and other messages do not matter.\<close>

theorem checkpoint_acknowledged:
  assumes "port_playing rate p" and "run_admits (player_step L cv) (player_ok L) (FromAgent msg # es) (port_player p)"
    and "p_handler p = Some h" and "connected h" and "reading L msg = Marks (Some i) n" and "i \<noteq> []"
    and "length (handler_stream h) div bytes_per_frame h = Suc k" and "list_all (quiet L) es"
    and "Suc k \<le> length (filter is_clock es)"
    and "run_steps (media_step L cv) (FromAgent msg # es) p = Some (p', out)"
  shows "\<exists>before f after. out = before @ [Wire (SendPlayedStream i (or_else n (pending_stream_name h))), Heard f] @ after
    \<and> length (filter is_heard before) = k \<and> filter is_ack (before @ after) = []"
proof -
  have pl: "port_player p = handler_player (p_has_call p) h (p_recorder p)" using assms(3) by (simp add: port_player_def)
  let ?s = "player_hears (Marks (Some i) n) (port_player p)"
  have "run_spec (player_step L cv) (FromAgent msg # es) (port_player p) = (port_player p', out)"
    using port_media.run_sim [OF assms(1,2)] assms(10) by auto
  then have out: "out = snd (run_spec (player_step L cv) es ?s)"
    by (auto simp: assms(5) split: prod.splits)
  show ?thesis unfolding out
    using player_acknowledges [OF assms(8), of ?s k cv] assms(4,6,7,9) pl
    by (simp add: handler_player_def or_else_def)
qed

theorem checkpoint_acknowledged_witness:
  "\<exists>p' out before f after. run_steps (media_step speech_libs demo_view) (FromAgent ''mark'' # speech_rest) spoken_port
       = Some (p', out) \<and> out = before @ [Wire (SendPlayedStream ''s1'' []), Heard f] @ after
     \<and> length (filter is_heard before) = 1 \<and> filter is_ack (before @ after) = []"
proof -
  obtain p' out where r: "run_steps (media_step speech_libs demo_view) (FromAgent ''mark'' # speech_rest) spoken_port
      = Some (p', out)"
    using port_media.run_sim [OF spoken_port_playing(1) spoken_admitted] by blast
  have k: "length (handler_stream spoken_handler) div bytes_per_frame spoken_handler = Suc 1"
    by (simp add: spoken_handler_fields)
  have q: "list_all (quiet speech_libs) speech_rest" "Suc 1 \<le> length (filter is_clock speech_rest)" by (simp_all add: speech_rest_def)
  have "\<exists>before f after. out = before @ [Wire (SendPlayedStream ''s1'' (or_else None (pending_stream_name spoken_handler))), Heard f] @ after
    \<and> length (filter is_heard before) = 1 \<and> filter is_ack (before @ after) = []"
    by (rule checkpoint_acknowledged [OF spoken_port_playing(1) spoken_admitted spoken_port_playing(2)
          spoken_handler_fields(1) speech_reading(2) _ k q r]) simp
  with r show ?thesis by (simp add: or_else_def spoken_handler_fields)
qed

end
