(* ===== verification/User_Track.thy ===== *)
theory User_Track
  imports Media_Run
begin

text \<open>
  The caller's side of a recording, from the media port to the uploaded file: when no agent frame
  waits for more than 40 ms, the user-only track is what the caller said, sample for sample. (An
  older agent frame makes the mixer write the caller's waiting frame again.)
\<close>

section \<open>The user track of the mixer\<close>

text \<open>What is recorded of the caller, and what still waits for the agent's frames.\<close>

definition user_track :: "mixer \<Rightarrow> sample list" where
  "user_track m = user_only_buffer m @ concat (map samples (user_buffer m))"

definition late :: "int \<Rightarrow> int \<Rightarrow> bool" where
  "late agent_time user_time \<longleftrightarrow> to_ms (agent_time - user_time) < - 40"

definition track_inv :: "mixer \<Rightarrow> bool" where
  "track_inv m \<longleftrightarrow> (agent_buffer m = [] \<or> user_buffer m = []) \<and> (\<not> user_stream_active m \<longrightarrow> user_buffer m = [])"

lemma pair_loop_track:
  assumes "\<forall>a \<in> set as. \<forall>u \<in> set us. \<not> late (timestamp a) (timestamp u)" and "pair_loop as us m = Some m'"
  shows "user_track m' = user_only_buffer m @ concat (map samples us)
    \<and> (agent_buffer m' = [] \<or> user_buffer m' = []) \<and> user_stream_active m' = user_stream_active m"
  using assms
proof (induction as us m rule: pair_loop.induct)
  case (1 a as u us m)
  let ?m1 = "writeUserOnlyStream (samples u) m" and ?d = "to_ms (timestamp a - timestamp u)"
  consider (user) "40 < ?d" | (both) "\<not> 40 < \<bar>?d\<bar>" | (late) "?d < - 40" by linarith
  then show ?case
  proof cases
    case user
    with "1.prems"(2) have r: "pair_loop (a # as) us (writeSingleStream (samples u) ?m1) = Some m'"
      by (simp add: Let_def FRAME_DURATION_MS_def)
    from "1.IH"(1) [OF refl refl _ _ _ r] user "1.prems"(1) show ?thesis
      by (simp add: FRAME_DURATION_MS_def writeSingleStream_def writeUserOnlyStream_def)
  next
    case both
    with "1.prems"(2) obtain m2 where m2: "mixFrames (samples a) (samples u) ?m1 = Some m2" "pair_loop as us m2 = Some m'"
      by (auto simp: Let_def FRAME_DURATION_MS_def split: option.splits)
    have f: "user_only_buffer m2 = user_only_buffer ?m1" "user_stream_active m2 = user_stream_active ?m1"
      using m2(1) by (auto simp: mixFrames_def Let_def split: if_splits)
    from "1.IH"(3) [OF refl refl _ m2(1) _ m2(2)] both "1.prems"(1) f show ?thesis
      by (simp add: FRAME_DURATION_MS_def writeUserOnlyStream_def)
  next
    case late
    with "1.prems"(1) show ?thesis by (simp add: late_def)
  qed
qed (auto simp: user_track_def)

text \<open>A frame is on time when no agent frame it will meet on the other side is late, and the caller's
  buffer has room.\<close>

definition frame_on_time :: "bool \<Rightarrow> int \<Rightarrow> mixer \<Rightarrow> bool" where
  "frame_on_time is_agent now m \<longleftrightarrow>
     (if is_agent then list_all (\<lambda>u. \<not> late now (timestamp u)) (user_buffer m)
      else length (user_buffer m) < MAX_BUFFER_SIZE \<and> list_all (\<lambda>a. \<not> late (timestamp a) now) (agent_buffer m))"

lemma processBuffers_track:
  assumes "\<forall>a \<in> set (agent_buffer m). \<forall>u \<in> set (user_buffer m). \<not> late (timestamp a) (timestamp u)"
    and "\<not> user_stream_active m \<longrightarrow> user_buffer m = []" and "processBuffers m = Some m'"
  shows "user_track m' = user_track m \<and> track_inv m'"
proof -
  consider (agent) "agent_stream_active m" "\<not> user_stream_active m"
    | (user) "\<not> agent_stream_active m" "user_stream_active m"
    | (pair) "agent_stream_active m = user_stream_active m" by blast
  then show ?thesis
  proof cases
    case agent
    with assms(2,3) show ?thesis
      by (auto simp: processBuffers_def flush_agent_eq user_track_def track_inv_def)
  next
    case user
    with assms(3) show ?thesis
      by (auto simp: processBuffers_def flush_user_eq user_track_def track_inv_def)
  next
    case pair
    then have "pair_loop (agent_buffer m) (user_buffer m) m = Some m'" using assms(3) by (simp add: processBuffers_def)
    from pair_loop_track [OF assms(1) this] this assms(2) show ?thesis
      by (auto simp: user_track_def track_inv_def)
  qed
qed

lemma addFrame_track:
  assumes "track_inv m" and "frame_on_time ag t2 m" and "addFrame buf ag t1 t2 t3 m = Some m'"
  shows "user_track m' = user_track m @ (if ag then [] else pcm_samples buf) \<and> track_inv m'"
proof (cases "buf = []")
  case True
  with assms show ?thesis by (simp add: addFrame_def)
next
  case False
  define f where "f = \<lparr>samples = pcm_samples buf, timestamp = t2, is_silence = isFrameSilent buf\<rparr>"
  define m1 where "m1 = checkStreamActivity t3 (push_frame ag f (note_frame ag (isFrameSilent buf) t1 m))"
  have p: "processBuffers m1 = Some m'"
    using assms(3) False by (auto simp: addFrame_def f_def m1_def Let_def split: if_splits)
  have b: "agent_buffer m1 = (if ag then cap_buffer (agent_buffer m @ [f]) else agent_buffer m)"
    "user_buffer m1 = (if ag then user_buffer m else cap_buffer (user_buffer m @ [f]))"
    "user_only_buffer m1 = user_only_buffer m" "user_stream_active m1 = (if ag then user_stream_active m else True)"
    by (auto simp: m1_def checkStreamActivity_def push_frame_def note_frame_def)
  have cap: "cap_buffer (user_buffer m @ [f]) = user_buffer m @ [f]" if "\<not> ag"
    using assms(2) that by (simp add: cap_buffer_def frame_on_time_def lastn_short)
  have sub: "set (cap_buffer (agent_buffer m @ [f])) \<subseteq> set (agent_buffer m) \<union> {f}"
    unfolding cap_buffer_def using set_lastn [of MAX_BUFFER_SIZE "agent_buffer m @ [f]"] by simp
  have time: "\<forall>a \<in> set (agent_buffer m1). \<forall>u \<in> set (user_buffer m1). \<not> late (timestamp a) (timestamp u)"
  proof (cases ag)
    case True
    have "\<not> late (timestamp a) (timestamp u)" if a: "a \<in> set (agent_buffer m1)" and u: "u \<in> set (user_buffer m1)" for a u
    proof -
      have "agent_buffer m = []" using assms(1) u b(2) True by (auto simp: track_inv_def)
      then have "a = f" using a sub b(1) True by auto
      then show ?thesis using assms(2) u b(2) True by (simp add: frame_on_time_def list_all_iff f_def)
    qed
    then show ?thesis by blast
  next
    case False
    have "\<not> late (timestamp a) (timestamp u)" if a: "a \<in> set (agent_buffer m1)" and u: "u \<in> set (user_buffer m1)" for a u
    proof -
      have am: "a \<in> set (agent_buffer m)" using a b(1) False by simp
      then have "user_buffer m = []" using assms(1) by (auto simp: track_inv_def)
      then have "u = f" using u b(2) cap False by simp
      then show ?thesis using assms(2) am False by (simp add: frame_on_time_def list_all_iff f_def)
    qed
    then show ?thesis by blast
  qed
  have "\<not> user_stream_active m1 \<longrightarrow> user_buffer m1 = []"
    using assms(1) b by (auto simp: track_inv_def)
  from processBuffers_track [OF time this p] show ?thesis
    using b cap by (auto simp: user_track_def f_def)
qed

section \<open>Over a schedule\<close>

fun on_time :: "(byte list \<times> bool \<times> clocks) list \<Rightarrow> mixer \<Rightarrow> bool" where
  "on_time [] m = True"
| "on_time ((buf, ag, t1, t2, t3) # fs) m =
     (frame_on_time ag t2 m \<and> (case addFrame buf ag t1 t2 t3 m of None \<Rightarrow> True | Some m' \<Rightarrow> on_time fs m'))"

definition user_samples :: "(byte list \<times> bool \<times> clocks) list \<Rightarrow> sample list" where
  "user_samples fs = concat (map (\<lambda>(buf, ag, ts). if ag then [] else pcm_samples buf) fs)"

lemma write_frames_track:
  assumes "is_recording r" and "rc_mixer r = Some m" and "track_inv m" and "on_time fs m"
    and "write_frames fs r = Some r'"
  shows "\<exists>m'. r' = r\<lparr>rc_mixer := Some m'\<rparr> \<and> user_track m' = user_track m @ user_samples fs"
  using assms
proof (induction fs arbitrary: r m)
  case Nil
  then show ?case by (intro exI [of _ m]) (simp add: user_samples_def)
next
  case (Cons f fs)
  obtain buf ag t1 t2 t3 where f: "f = (buf, ag, t1, t2, t3)" by (cases f) auto
  obtain r1 where w: "writeFrame buf ag (t1, t2, t3) r = Some r1" "write_frames fs r1 = Some r'"
    using Cons.prems(5) f by (auto split: option.splits)
  show ?case
  proof (cases "buf = []")
    case True
    with w(1) Cons.prems(1,2) have "r1 = r" by (simp add: writeFrame_def)
    moreover have "on_time fs m" using Cons.prems(4) f True by (simp add: addFrame_def)
    ultimately show ?thesis
      using Cons.IH [of r m] Cons.prems(1-3) w(2) True f by (simp add: user_samples_def)
  next
    case False
    then obtain m1 where m1: "addFrame buf ag t1 t2 t3 m = Some m1" "r1 = r\<lparr>rc_mixer := Some m1\<rparr>"
      using w(1) Cons.prems(1,2) by (auto simp: writeFrame_def split: option.splits)
    have ot: "frame_on_time ag t2 m" "on_time fs m1" using Cons.prems(4) f m1(1) by simp_all
    note a = addFrame_track [OF Cons.prems(3) ot(1) m1(1)]
    obtain m' where "r' = r1\<lparr>rc_mixer := Some m'\<rparr>" "user_track m' = user_track m1 @ user_samples fs"
      using Cons.IH [of r1 m1] Cons.prems(1) m1(2) ot(2) a w(2) by auto
    with a m1(2) show ?thesis by (intro exI [of _ m']) (simp add: f user_samples_def)
  qed
qed

lemma taped_user: "user_samples (taped L cv es s) = concat (map pcm_samples (callers es))"
proof (induction es arbitrary: s)
  case Nil
  then show ?case by (simp add: user_samples_def)
next
  case (Cons e es)
  from Cons.IH [of "fst (player_step L cv e s)"] show ?case
    by (cases e) (simp_all add: user_samples_def)
qed

lemma new_mixer_track: "track_inv (new_mixer rate now)" "user_track (new_mixer rate now) = []"
  by (simp_all add: track_inv_def user_track_def new_mixer_def Let_def)

section \<open>An example\<close>

text \<open>A port at 100 Hz, two samples per frame, with two frames of the agent waiting.\<close>

definition tiny_handler :: handler where
  "tiny_handler = enqueueAudio [5, 0, 5, 0, 5, 0, 5, 0]
     ((new_handler 100 ''wss://a'' ''0'')\<lparr>has_callback := True, has_med_port := True\<rparr>)"

definition tiny_port :: port where
  "tiny_port = port_startRecording 0
     ((new_port ''wss://a'' ''c1'' 100 False 0)\<lparr>p_handler := Some tiny_handler, p_initialized := True, p_has_call := True\<rparr>)"

definition tiny_run :: "media_event list" where
  "tiny_run = [FromCaller False [1, 0, 2, 0] (0, 0, 0), Clock 4 (20, 20, 20), FromCaller False [3, 0, 4, 0] (40, 40, 40)]"

lemma tiny_handler_fields:
  "playing 100 tiny_handler" "handler_stream tiny_handler = [5, 0, 5, 0, 5, 0, 5, 0]"
  "bytes_per_frame tiny_handler = 4" "checkpoint_received tiny_handler = False" "\<not> connected tiny_handler"
proof -
  let ?h = "(new_handler 100 ''wss://a'' ''0'')\<lparr>has_callback := True, has_med_port := True\<rparr>"
  have q: "audio_queue ?h = []" "partial_frame ?h = []" "bytes_per_frame ?h = 4"
    by (simp_all add: new_handler_def frame_simps frame_bytes_def)
  have flags: "\<not> real_time_audio ?h" "\<not> ringing_active ?h" "\<not> checkpoint_received ?h" "\<not> connected ?h"
    by (simp_all add: new_handler_def frame_simps str_contains_def setAgentId_def Let_def split: option.splits)
  have pl: "playing 100 ?h" using new_handler_queue_wf [of 100 "''wss://a''" "''0''"] by (simp add: playing_def queue_wf_def q flags)
  have fit: "length (handler_stream ?h) + length (drop_odd [5, 0, 5, 0, 5, 0, 5, 0 :: byte])
      \<le> MAX_QUEUE_SIZE_DEFAULT * bytes_per_frame ?h"
    by (simp add: q handler_stream_def MAX_QUEUE_SIZE_DEFAULT_def)
  show "playing 100 tiny_handler" unfolding tiny_handler_def by (rule enqueue_playing(1) [OF pl fit])
  show "handler_stream tiny_handler = [5, 0, 5, 0, 5, 0, 5, 0]"
    using arg_cong [OF enqueue_playing(2) [OF pl fit], of waiting]
    by (simp add: tiny_handler_def handler_player_def handler_stream_def q)
  show "bytes_per_frame tiny_handler = 4" "checkpoint_received tiny_handler = False" "\<not> connected tiny_handler"
    using flags by (simp_all add: tiny_handler_def enqueueAudio_session frame_simps q)
qed

lemma tiny_port_facts:
  "port_playing 100 tiny_port" "p_handler tiny_port = Some tiny_handler" "is_recording (p_recorder tiny_port)"
  "rc_mixer (p_recorder tiny_port) = Some (new_mixer 100 0)" "rc_call_id (p_recorder tiny_port) = ''c1''"
  "p_recorder tiny_port = snd (startRecording 0 (new_recorder ''c1'' 100 0))"
  using startRecording_wf [OF new_recorder_wf, of 100] tiny_handler_fields(1)
  by (simp_all add: port_playing_def tiny_port_def port_startRecording_def new_port_def startRecording_def new_recorder_def)

lemma tiny_admitted:
  "run_admits (player_step speech_libs demo_view) (player_ok speech_libs) tiny_run (port_player tiny_port)"
  "taped speech_libs demo_view tiny_run (port_player tiny_port)
   = [([1, 0, 2, 0], False, 0, 0, 0), ([5, 0, 5, 0], True, 20, 20, 20), ([3, 0, 4, 0], False, 40, 40, 40)]"
  using tiny_handler_fields
  by (simp_all add: tiny_run_def port_player_def tiny_port_facts handler_player_def player_ticks_def
      player_sends_def tape_frame_def Let_def)

lemma tiny_on_time:
  "on_time [([1, 0, 2, 0], False, 0, 0, 0), ([5, 0, 5, 0], True, 20, 20, 20), ([3, 0, 4, 0], False, 40, 40, 40)]
     (new_mixer 100 0)"
  by code_simp

lemma tiny_tracks:
  "map_option tracks (write_frames
     [([1, 0, 2, 0], False, 0, 0, 0), ([5, 0, 5, 0], True, 20, 20, 20), ([3, 0, 4, 0], False, 40, 40, 40)]
     (snd (startRecording 0 (new_recorder ''c1'' 100 0)))) = Some (Some ([1, 2, 8, 9], [1, 2, 3, 4]))"
  by code_simp

section \<open>Properties\<close>

text \<open>C4: A call's recording of the caller: when a recording is started, the audio path runs on a schedule
  as in C1 (default mode, no thread of a transfer, as a transfer to a human discards what was
  recorded), and the recording is stopped, then the user-only track that is submitted for upload
  decodes to exactly what the caller said, sample for sample and in order, up to the frames (at
  most 50) that still waited to be paired with the agent's. The conditions: no agent frame was late
  for a caller frame by more than 40 ms, each caller frame found room in the 50-frame caller
  buffer (the mixer drops the oldest frame otherwise), and the caller said fewer than \<open>2 ^ 31\<close> samples.\<close>

theorem caller_recorded_exactly:
  assumes "port_playing rate p" and "run_admits (player_step L cv) (player_ok L) es (port_player p)"
    and "is_recording (p_recorder p)" and "rc_mixer (p_recorder p) = Some (new_mixer rt now)"
    and "on_time (taped L cv es (port_player p)) (new_mixer rt now)"
    and "length (concat (map pcm_samples (callers es))) < 2 ^ 31"
    and "run_steps (media_step L cv) es p = Some (p', out)"
    and "port_stopRecording can_open p' um = (p'', um', files)"
  shows "\<exists>mx. rc_mixer (p_recorder p') = Some mx
    \<and> concat (map pcm_samples (callers es)) = user_only_buffer mx @ concat (map samples (user_buffer mx))
    \<and> length (user_buffer mx) \<le> MAX_BUFFER_SIZE
    \<and> (user_only_buffer mx = [] \<or> (\<exists>job \<in> set (um_queue um'). uj_call_id job = rc_call_id (p_recorder p)
         \<and> uj_folder job = ''sip_user_recordings'' \<and> wav_payload (uj_wav_data job) = user_only_buffer mx))"
proof -
  let ?r = "p_recorder p" and ?said = "concat (map pcm_samples (callers es))"
  have w: "write_frames (taped L cv es (port_player p)) ?r = Some (p_recorder p')" and wf: "port_playing rate p'"
    using port_tape [OF assms(1,2,7)] by simp_all
  obtain m where m: "p_recorder p' = ?r\<lparr>rc_mixer := Some m\<rparr>" "user_track m = ?said"
    using write_frames_track [OF assms(3,4) new_mixer_track(1) assms(5) w]
    by (auto simp: new_mixer_track taped_user)
  have pend: "length (user_buffer m) \<le> MAX_BUFFER_SIZE"
    using wf m(1) assms(3) by (simp add: port_playing_def rec_wf_def mixer_wf_def)
  define track where "track = user_only_buffer m"
  have said: "?said = track @ concat (map samples (user_buffer m))" using m(2) by (simp add: user_track_def track_def)
  then have len: "length track < 2 ^ 31" using assms(6) by simp
  have "track = [] \<or> (\<exists>job \<in> set (um_queue um'). uj_call_id job = rc_call_id ?r
         \<and> uj_folder job = ''sip_user_recordings'' \<and> wav_payload (uj_wav_data job) = track)"
  proof (cases "track = []")
    case False
    have "um_queue um' = um_queue (fst (snd (stopRecording can_open (p_recorder p') um)))"
      using assms(8) by (auto simp: port_stopRecording_def split: prod.splits)
    then have "\<exists>n. \<lparr>uj_call_id = rc_call_id ?r, uj_wav_data = convertToWav track (rc_sample_rate ?r),
        uj_folder = ''sip_user_recordings'', uj_result = n\<rparr> \<in> set (um_queue um')"
      using False assms(3) m(1)
      by (auto simp: stopRecording_def upload_track_def uploadAsync_queue user_only_audio_folder_def track_def Let_def)
    then obtain n where n: "\<lparr>uj_call_id = rc_call_id ?r, uj_wav_data = convertToWav track (rc_sample_rate ?r),
        uj_folder = ''sip_user_recordings'', uj_result = n\<rparr> \<in> set (um_queue um')" by blast
    have "wav_payload (convertToWav track (rc_sample_rate ?r)) = track"
      using len by (simp add: payload_convertToWav)
    with n show ?thesis by (intro disjI2 bexI [OF _ n]) simp
  qed simp
  with said pend m(1) show ?thesis by (intro exI [of _ m]) (simp add: track_def)
qed

theorem caller_recorded_exactly_witness:
  "\<exists>p' out. run_steps (media_step speech_libs demo_view) tiny_run tiny_port = Some (p', out)
     \<and> (\<exists>job \<in> set (um_queue (fst (snd (port_stopRecording (\<lambda>_. True) p' (new_upload_mgr Map.empty))))).
          uj_call_id job = ''c1'' \<and> uj_folder job = ''sip_user_recordings'' \<and> wav_payload (uj_wav_data job) = [1, 2, 3, 4])"
proof -
  obtain p' out where r: "run_steps (media_step speech_libs demo_view) tiny_run tiny_port = Some (p', out)"
    using port_media.run_sim [OF tiny_port_facts(1) tiny_admitted(1)] by blast
  obtain p'' um' files where s: "port_stopRecording (\<lambda>_. True) p' (new_upload_mgr Map.empty) = (p'', um', files)"
    by (cases "port_stopRecording (\<lambda>_. True) p' (new_upload_mgr Map.empty)")
  have c: "concat (map pcm_samples (callers tiny_run)) = [1, 2, 3, 4]"
    by (simp add: tiny_run_def le16_of_def)
  have t: "on_time (taped speech_libs demo_view tiny_run (port_player tiny_port)) (new_mixer 100 0)"
    unfolding tiny_admitted(2) by (rule tiny_on_time)
  have l: "length (concat (map pcm_samples (callers tiny_run))) < 2 ^ 31" unfolding c by simp
  have w: "tracks (p_recorder p') = Some ([1, 2, 8, 9], [1, 2, 3, 4])"
    using port_tape [OF tiny_port_facts(1) tiny_admitted(1) r] tiny_tracks
    by (simp add: tiny_admitted(2) tiny_port_facts(6))
  obtain mx where mx: "rc_mixer (p_recorder p') = Some mx" "user_only_buffer mx = [] \<or> (\<exists>job \<in> set (um_queue um').
      uj_call_id job = ''c1'' \<and> uj_folder job = ''sip_user_recordings'' \<and> wav_payload (uj_wav_data job) = user_only_buffer mx)"
    using caller_recorded_exactly [OF tiny_port_facts(1) tiny_admitted(1) tiny_port_facts(3,4) t l r s] tiny_port_facts(5)
    by auto
  have "user_only_buffer mx = [1, 2, 3, 4]" using w mx(1) by (simp add: tracks_def)
  with mx(2) r s show ?thesis by auto
qed

end
