(* ===== verification/Shutdown.thy ===== *)
theory Shutdown
  imports Call_Life Webhook
begin

text \<open>
  The calls while the manager is destroyed. The destructor of \<^verbatim>\<open>CallManager\<close> stops the webhooks,
  hangs every active call up, waits five seconds and then destroys the calls. In the wait PJSIP
  delivers the last callback of the calls that go down in time; the destructor of a call does the
  work of those that do not.
\<close>

section \<open>The steps\<close>

text \<open>The last callbacks, in the order \<open>as\<close> in which the calls at these addresses go down; \<open>info a\<close> is
  what PJSIP says about the call.\<close>

fun last_callbacks :: "state_env \<Rightarrow> (nat \<Rightarrow> call_info) \<Rightarrow> nat list \<Rightarrow> call_heap \<times> upload_mgr
    \<Rightarrow> ((call_heap \<times> upload_mgr) \<times> call_effect list) option" where
  "last_callbacks S info [] W = Some (W, [])"
| "last_callbacks S info (a # as) W =
     (case onCallState S (info a) a W of
        None \<Rightarrow> None
      | Some (W1, es) \<Rightarrow> map_option (\<lambda>(W2, fs). (W2, es @ fs)) (last_callbacks S info as W1))"











text \<open>The reports among the effects, handed to the webhook manager.\<close>

fun post_reports :: "(string \<Rightarrow> nat) \<Rightarrow> call_effect list \<Rightarrow> webhook_mgr \<Rightarrow> webhook_mgr" where
  "post_reports hash [] s = s"
| "post_reports hash (SendWebhook uid url json # es) s = post_reports hash es (send_webhook hash uid url json s)"
| "post_reports hash (e # es) s = post_reports hash es s"

section \<open>Calls that go down\<close>

definition going_down :: "(nat \<Rightarrow> call_info) \<Rightarrow> nat list \<Rightarrow> call_heap \<Rightarrow> bool" where
  "going_down info as H \<longleftrightarrow> distinct as \<and> (\<forall>a \<in> set as. ci_state (info a) = InvDisconnected
     \<and> (\<exists>c uid url. H a = Some c \<and> plain uid url c))"

lemma onCallState_down:
  assumes "H a = Some c" and "plain uid url c" and "ci_state ci = InvDisconnected"
  obtains c1 um1 es r where "onCallState S ci a (H, um) = Some ((H(a \<mapsto> c1), um1), es)"
    and "plain uid url c1" and "med_port c1 = None"
    and "accounting es = [CountDown, SendWebhook uid url (cdr_json r)]"
proof -
  have leg: "\<not> is_bridge_leg c" using assms(2) by (simp add: plain_def)
  obtain c1 um' es where c1: "call_down S c H um = Some (H, c1, um', es)" "plain uid url c1" "accounting es = [CountDown]"
    "med_port c1 = None" using call_down_plain [OF assms(2)] by blast
  obtain c2 rs where c2: "report_call S ci (status_of ci) c1 = (c2, rs)" by (cases "report_call S ci (status_of ci) c1")
  obtain r where "accounting rs = [SendWebhook uid url (cdr_json r)]"
    using report_call_plain(2) [OF c2 c1(2)] assms(3) by auto
  moreover have "med_port c2 = None" using c2 c1(4) by (auto simp: report_call_def read_url_def Let_def)
  moreover have "onCallState S ci a (H, um) = Some ((H(a \<mapsto> c2), um'), es @ rs)"
    using assms leg c1(1) c2 by (simp add: onCallState_def)
  ultimately show thesis using that report_call_plain(1) [OF c2 c1(2)] c1(3) by simp
qed

definition is_report :: "call_effect \<Rightarrow> bool" where
  "is_report e \<longleftrightarrow> (\<exists>u w j. e = SendWebhook u w j)"

lemma count_accounting: "count_list (accounting es) CountDown = count_list es CountDown"
  by (induction es) auto

lemma report_effects_accounting: "filter is_report (accounting es) = filter is_report es"
proof (induction es)
  case (Cons e es)
  then show ?case by (cases e) (auto simp: is_report_def)
qed simp

lemma last_callbacks_down:
  assumes "going_down info as H"
  shows "\<exists>H1 um1 es. last_callbacks S info as (H, um) = Some ((H1, um1), es)
    \<and> (\<forall>a. a \<notin> set as \<longrightarrow> H1 a = H a) \<and> (\<forall>a \<in> set as. \<exists>c. H1 a = Some c \<and> med_port c = None)
    \<and> count_list es CountDown = length as \<and> length (filter is_report es) = length as"
  using assms
proof (induction as arbitrary: H um)
  case Nil
  then show ?case by simp
next
  case (Cons a as)
  obtain c uid url where a: "H a = Some c" "plain uid url c" "ci_state (info a) = InvDisconnected"
    using Cons.prems by (auto simp: going_down_def)
  from onCallState_down [of H a c uid url "info a" S um, OF a] obtain c1 um1 es1 r where
    s: "onCallState S (info a) a (H, um) = Some ((H(a \<mapsto> c1), um1), es1)" "med_port c1 = None"
    "accounting es1 = [CountDown, SendWebhook uid url (cdr_json r)]" by metis
  have "going_down info as (H(a \<mapsto> c1))" using Cons.prems by (auto simp: going_down_def)
  from Cons.IH [OF this, of um1] obtain H2 um2 es2 where
    ih: "last_callbacks S info as (H(a \<mapsto> c1), um1) = Some ((H2, um2), es2)"
    "\<forall>b. b \<notin> set as \<longrightarrow> H2 b = (H(a \<mapsto> c1)) b" "\<forall>b \<in> set as. \<exists>c. H2 b = Some c \<and> med_port c = None"
    "count_list es2 CountDown = length as" "length (filter is_report es2) = length as" by blast
  have "a \<notin> set as" using Cons.prems by (simp add: going_down_def)
  then have "H2 a = Some c1" using ih(2) by simp
  moreover have "count_list es1 CountDown = 1"
    unfolding count_accounting [of es1, symmetric] s(3) by simp
  moreover have "length (filter is_report es1) = 1"
    unfolding report_effects_accounting [of es1, symmetric] s(3) by (simp add: is_report_def)
  ultimately show ?case
    using s(1,2) ih by (intro exI [of _ H2] exI [of _ um2] exI [of _ "es1 @ es2"]) auto
qed

section \<open>Destroying the calls\<close>





















section \<open>The webhooks are stopped first\<close>

lemma post_reports_fields:
  "wm_running (post_reports hash es s) = wm_running s" "wm_posts (post_reports hash es s) = wm_posts s"
  "wm_workers (post_reports hash es s) = wm_workers s"
  by (induction hash es s rule: post_reports.induct) (simp_all add: send_webhook_def push_shard_def)

section \<open>Properties\<close>


lemma demo_going_down:
  "going_down (\<lambda>_. demo_info InvDisconnected 200) [7] [7 \<mapsto> demo_call, 8 \<mapsto> demo_call]"
  by (simp add: going_down_def demo_info_def plain_def)


text \<open>C40: The reports of the calls hung up at shutdown are lost: each call that goes down in the wait
  makes its report, but the webhooks were stopped before the calls were hung up, and from then on
  no schedule of the webhook workers posts anything.\<close>

theorem shutdown_reports_lost:
  assumes "going_down info as H" and "last_callbacks S info as (H, um) = Some (W1, es)"
    and "wh_run hash evs (post_reports hash es (stop_webhooks wm)) = Some wm'"
  shows "length (filter is_report es) = length as \<and> wm_posts wm' = wm_posts wm"
proof
  show "length (filter is_report es) = length as"
    using last_callbacks_down [OF assms(1), of S um] assms(2) by auto
  have "\<not> wm_running (post_reports hash es (stop_webhooks wm))"
    by (simp add: post_reports_fields stop_webhooks_def)
  from wh_run_stopped [OF this assms(3)] show "wm_posts wm' = wm_posts wm"
    by (simp add: post_reports_fields stop_webhooks_def)
qed

theorem shutdown_reports_lost_witness:
  "\<exists>W1 es wm'. last_callbacks demo_state_env (\<lambda>_. demo_info InvDisconnected 200) [7]
       ([7 \<mapsto> demo_call, 8 \<mapsto> demo_call], new_upload_mgr Map.empty) = Some (W1, es)
     \<and> wh_run length [Check 0] (post_reports length es (stop_webhooks (new_webhook_mgr Map.empty))) = Some wm'
     \<and> length (filter is_report es) = 1 \<and> wm_posts wm' = []"
proof -
  obtain W1 es where l: "last_callbacks demo_state_env (\<lambda>_. demo_info InvDisconnected 200) [7]
       ([7 \<mapsto> demo_call, 8 \<mapsto> demo_call], new_upload_mgr Map.empty) = Some (W1, es)"
    using last_callbacks_down [OF demo_going_down, of demo_state_env "new_upload_mgr Map.empty"] by blast
  let ?s = "post_reports length es (stop_webhooks (new_webhook_mgr Map.empty))"
  have "wm_workers ?s = wm_workers (new_webhook_mgr Map.empty)"
    by (simp add: post_reports_fields stop_webhooks_def)
  then have "0 < length (wm_workers ?s) \<and> wm_workers ?s ! 0 = AtHead"
    by (simp add: new_webhook_mgr_def clamp_workers_def)
  then obtain wm' where w: "wh_run length [Check 0] ?s = Some wm'" by (simp add: wh_check_def)
  from shutdown_reports_lost [OF demo_going_down l w] l w show ?thesis
    by (auto simp: new_webhook_mgr_def Let_def)
qed

end
