(* ===== verification/Spec2Isabelle.thy ===== *)
theory Spec2Isabelle
  imports Webhook Load_Balancer Service Ws_Legacy User_Track Shutdown
begin

text \<open>
  A verification library for the SIP media server in \<^verbatim>\<open>src/sip_outbound\<close>: a C++ process that
  places and takes telephone calls through PJSIP and Asterisk, bridges their audio to a voice agent
  over a WebSocket, records it, uploads the recordings and reports every call to a webhook.

  The program and its model.

  \<^item> Prelude, Cpp_Std, Ifaces, Http_Json: generic lemmas and the collections of rewrite rules;
    what the C++ library does that the code relies on (\<^verbatim>\<open>std::string\<close> searches, \<^verbatim>\<open>atoi\<close>,
    \<^verbatim>\<open>stoi\<close>, \<^verbatim>\<open>to_string\<close>, the environment); the interfaces, as locales, that several
    components provide (a machine with an invariant and what is observed of it, a channel that keeps
    order, bounded retries, a codec of fixed width, a simulation of a specification), each interpreted
    in the theory of the component that provides it; JSON values and HTTP responses.
  \<^item> Wav, Mixer, Recorder, Uploader (\<^verbatim>\<open>audio_recorder.cpp\<close>, \<^verbatim>\<open>upload_manager.cpp\<close>): the image of
    a recording, mixing two streams, the recorder, signing and retrying an upload, the pool of upload
    workers. Webhook (\<^verbatim>\<open>webhook_manager.cpp\<close>): the sharded queues of reports.
  \<^item> Ringing, Volume, Doubles, Resample, Ws_State, Ws_Queue, Ws_Session, Ws_Transfer, Ws_Legacy
    (\<^verbatim>\<open>human_ringing.cpp\<close>, \<^verbatim>\<open>websocket_handler.cpp\<close>): the ringback, conversion of audio in single
    and double precision, the state of a handler, its playback queue with checkpoints, connecting,
    reconnecting and dispatching messages, transfers to another agent or a human, and the message
    handler of an earlier version that nothing calls.
  \<^item> Audio_Port (\<^verbatim>\<open>audio_port.cpp\<close>), Call_Text, Call, Call_Life (\<^verbatim>\<open>call.cpp\<close>), Simulated_Call
    (\<^verbatim>\<open>simulated_call.cpp\<close>): the media port PJSIP reads and writes; what is reported of a call; a
    call with its callbacks, the bridge to a human leg, the destructor in its three parts, and runs of
    all these; the simulated call with its pump thread, the thread of its WebSocket and the detached
    threads that reconnect or transfer, each of them steps of an interleaving.
  \<^item> Player, Media_Run, User_Track: the audio path across handler, port and recorder. An abstract player (bytes
    waiting, a numbered line to the agent, a marker, a tape) is what the media port is proved to
    implement, in default mode, on any schedule of agent messages, clock ticks and caller frames within
    capacity (the threads that transfer messages start are not in these schedules); from it follows what is sent, acknowledged, recorded and, at the end, uploaded of the caller.
  \<^item> Db_Manager, Ami_Manager, Load_Balancer, Account (\<^verbatim>\<open>db_manager.cpp\<close>, \<^verbatim>\<open>ami_manager.cpp\<close>,
    \<^verbatim>\<open>loadbalancer.cpp\<close>, \<^verbatim>\<open>account.cpp\<close>): the statements sent to MySQL, the one reconnect, and which statements ran although
    the answer was lost; the
    conversation on Asterisk's manager port; the announcement after a registration; what is read out of
    an INVITE and where its agent comes from.
  \<^item> Call_Manager, Http_Api (\<^verbatim>\<open>call_manager.cpp\<close>): the owner of the calls (admission, placing, ending,
    transferring, counting, destruction) and the other handlers of the HTTP interface, the registration
    of threads and the start of the process. Admission, Manager_Life, Service: the HTTP threads
    interleaved, runs of the whole manager, and what the service promises over them. Shutdown: the
    destructors of the calls, step by step with the callbacks that come in their waits, and the webhooks
    while the manager is destroyed.

  How the code is represented. A class is a record of its members, a method a function from the old
  state to the new one with the list of what it does to the world (messages sent, statements, effects
  on PJSIP) in the order it does them. Calls live in a heap of addresses, because a caller and its
  human leg point at each other and the manager lists addresses. Undefined behaviour (a null or
  dangling pointer, a write outside a vector, a read past a buffer) is \<open>None\<close>; exceptions are the left
  side of a sum. Samples and bytes are words of their width; counters of the code that cannot reach
  their width in the life of a process are integers. Threads are interleaved as step relations or step
  functions whose steps are the critical sections of the code.

  What is a parameter. The network and libcurl (which request is answered how), the MySQL server, the
  sockets of the manager port, the file system, the clock, JSON parsing and dumping, OpenSSL's digests,
  \<^verbatim>\<open>std::hash\<close>, the identifiers the kernel makes, and PJSIP (the information about a call, which of
  its operations throw, when it calls back). Hypotheses on them are in the statements: that a worker is
  scheduled again, that new identifiers are new, that a connection opens or does not. Callbacks of a
  call come in any order and repetition. Of MySQL it is used that only an error 2013 leaves open whether
  the statement ran.

  What the lemmas show. Per component: preservation of its invariant by each operation, the behaviour
  of each branch, errors included, and the equations the properties rest on. Across components: the
  media port refines the player, so audio received is played and recorded byte for byte, caller frames
  are numbered without gaps and a checkpoint is acknowledged with the last frame before it; recordings decode to what was recorded; uploads and
  webhooks are delivered, retried and drained; frames always have the requested size; a call is counted
  up once, down once per DISCONNECTED callback, and reports one record per callback but EARLY; the tables of the manager stay consistent
  over any run; a valid request is dialled; the health report agrees with admission; shutting down
  terminates every simulated call that has not ended itself and hangs up and destroys every other one, and
  the one race in which a destructor follows a null pointer is characterised. Several theorems state how the code behaves where it does not do what it
  means to: they are the findings of the development.

  Bounds. The loops of the code have bounds of their own, which the model keeps (three connection
  attempts, fifty polls of a connection, three replies, three posts, the retries of an upload); the
  other recursions are structural or decrease the data left to read, so no fuel is used.

  Not modelled. The load balancer service (Go), the human transfer trigger (Python), Asterisk's
  configuration and the deployment scripts are other programs. Of this one: how Pistache matches a path against the
  routes; logging; that dumping JSON throws on text that is not UTF-8; codec and logging settings given
  to PJSIP as constants; the text of dates and time stamps, which is an argument where it is used; data
  races on fields that the code shares without a lock, since operations are steps; in particular the test
  of the webhook workers before a post and the post are one step, and a detached thread works on its
  handler at one point between its start and its end. The table of registered threads is the manager's;
  the registrations the handler, the port and the hang-up thread make with descriptors of their own are
  separate definitions or arguments.
\<close>

end
